(* ===== verification/Prelude.thy ===== *)
theory Prelude
  imports Main "HOL-Library.Word"
begin

text \<open>
  The language of the models. A C function is a value of type \<open>('w, 'a) prog\<close>: it takes a world
  \<open>'w\<close> and either never returns (\<open>None\<close>), or returns a value (\<open>Ret\<close>) or stops the process
  (\<open>Halt\<close>), together with the new world. Loops are \<open>whileM\<close> and \<open>forM\<close>, which keep the
  shape of the source's \<open>while\<close> and \<open>for\<close>. The total-correctness predicate \<open>wp\<close> and its
  rules (collection \<open>wp_rules\<close>) let the simplifier run a program symbolically. Signed C
  arithmetic is checked: a result outside \<open>int\<close> stops the process with \<open>Signed_Overflow\<close>.
\<close>

section \<open>Outcomes and sequencing\<close>

datatype undefined_behaviour =
    Signed_Overflow | Uninitialised | Out_Of_Bounds | Buffer_Overrun | Null_Dereference | Bad_Size

datatype stop =
    Exited int                     \<comment> \<open>\<open>exit(status)\<close>\<close>
  | Execed string "string list"    \<comment> \<open>the process image was replaced by \<open>execl\<close>\<close>
  | Undefined undefined_behaviour  \<comment> \<open>the C standard gives the run no meaning\<close>

datatype 'a res = Ret 'a | Halt stop

type_synonym ('w, 'a) prog = "'w \<Rightarrow> ('a res \<times> 'w) option"

named_theorems wp_rules \<open>symbolic execution rules\<close>

definition return :: "'a \<Rightarrow> ('w, 'a) prog" where
  "return a = (\<lambda>w. Some (Ret a, w))"

definition halt :: "stop \<Rightarrow> ('w, 'a) prog" where
  "halt s = (\<lambda>w. Some (Halt s, w))"

definition bind :: "('w, 'a) prog \<Rightarrow> ('a \<Rightarrow> ('w, 'b) prog) \<Rightarrow> ('w, 'b) prog" where
  "bind m f = (\<lambda>w. case m w of
       None \<Rightarrow> None
     | Some (r, w') \<Rightarrow> (case r of Ret a \<Rightarrow> f a w' | Halt s \<Rightarrow> Some (Halt s, w')))"

definition andThen :: "('w, 'a) prog \<Rightarrow> ('w, 'b) prog \<Rightarrow> ('w, 'b) prog" where
  "andThen m n = bind m (\<lambda>_. n)"

definition undef :: "undefined_behaviour \<Rightarrow> ('w, 'a) prog" where
  "undef u = halt (Undefined u)"

lemma bind_partial_mono [partial_function_mono]:
  assumes "\<And>w. mono_option (\<lambda>F. B F w)" and "\<And>a w. mono_option (\<lambda>F. C F a w)"
  shows "mono_option (\<lambda>F. bind (B F) (\<lambda>a. C F a) w)"
proof -
  have eq: "(\<lambda>F. bind (B F) (\<lambda>a. C F a) w) =
      (\<lambda>F. Option.bind (B F w) (\<lambda>p. case p of (r, w') \<Rightarrow>
         (case r of Ret a \<Rightarrow> C F a w' | Halt s \<Rightarrow> Some (Halt s, w'))))"
    by (auto simp: bind_def fun_eq_iff split: option.split)
  show ?thesis unfolding eq
  proof (rule bind_mono [OF assms(1)])
    fix p
    show "mono_option (\<lambda>F. case p of (r, w') \<Rightarrow>
        (case r of Ret a \<Rightarrow> C F a w' | Halt s \<Rightarrow> Some (Halt s, w')))"
      by (cases p; cases "fst p") (simp_all add: assms(2) option.const_mono)
  qed
qed

section \<open>Loops\<close>

partial_function (option) whileM ::
  "('s \<Rightarrow> bool) \<Rightarrow> ('s \<Rightarrow> ('w, 's) prog) \<Rightarrow> 's \<Rightarrow> 'w \<Rightarrow> ('s res \<times> 'w) option" where
  "whileM b c s w = (if b s then bind (c s) (\<lambda>s'. whileM b c s') w else return s w)"

declare whileM.simps [code]

primrec forM :: "nat list \<Rightarrow> (nat \<Rightarrow> 's \<Rightarrow> ('w, 's) prog) \<Rightarrow> 's \<Rightarrow> ('w, 's) prog" where
  "forM [] c s = return s"
| "forM (i # is) c s = bind (c i s) (\<lambda>s'. forM is c s')"

section \<open>Total correctness\<close>

definition wp :: "('w, 'a) prog \<Rightarrow> ('a \<Rightarrow> 'w \<Rightarrow> bool) \<Rightarrow> (stop \<Rightarrow> 'w \<Rightarrow> bool) \<Rightarrow> 'w \<Rightarrow> bool" where
  "wp m Q E w = (case m w of
       None \<Rightarrow> False
     | Some (r, w') \<Rightarrow> (case r of Ret a \<Rightarrow> Q a w' | Halt s \<Rightarrow> E s w'))"

text \<open>No run may stop: the error postcondition of a run that must return.\<close>

abbreviation never :: "stop \<Rightarrow> 'w \<Rightarrow> bool" where
  "never \<equiv> \<lambda>_ _. False"

lemma wp_return [wp_rules]: "wp (return a) Q E w = Q a w"
  by (simp add: wp_def return_def)

lemma wp_return_fun: "wp (return a) Q E = Q a"
  by (rule ext) (rule wp_return)

lemma wp_halt [wp_rules]: "wp (halt s) Q E w = E s w"
  by (simp add: wp_def halt_def)

lemma wp_undef [wp_rules]: "wp (undef u) Q E w = E (Undefined u) w"
  by (simp add: undef_def wp_halt)

lemma wp_bind [wp_rules]: "wp (bind m f) Q E w = wp m (\<lambda>a. wp (f a) Q E) E w"
  by (auto simp: wp_def bind_def split: option.splits res.splits)

lemma wp_andThen [wp_rules]: "wp (andThen m n) Q E w = wp m (\<lambda>_. wp n Q E) E w"
  by (simp add: andThen_def wp_bind)

lemma wp_if [wp_rules]:
  "wp (if b then m else n) Q E w = ((b \<longrightarrow> wp m Q E w) \<and> (\<not> b \<longrightarrow> wp n Q E w))"
  by simp

lemma wp_case_option [wp_rules]:
  "wp (case x of None \<Rightarrow> m | Some y \<Rightarrow> f y) Q E w =
    ((x = None \<longrightarrow> wp m Q E w) \<and> (\<forall>y. x = Some y \<longrightarrow> wp (f y) Q E w))"
  by (cases x) simp_all

lemma wp_case_prod [wp_rules]:
  "wp (case p of (x, y) \<Rightarrow> f x y) Q E w = wp (f (fst p) (snd p)) Q E w"
  by (cases p) simp

lemma wp_mono:
  assumes "wp m Q E w" and "\<And>a w'. Q a w' \<Longrightarrow> Q' a w'" and "\<And>s w'. E s w' \<Longrightarrow> E' s w'"
  shows "wp m Q' E' w"
  using assms by (auto simp: wp_def split: option.splits res.splits)

lemma wp_conj: "wp m Q E w \<Longrightarrow> wp m Q' E' w \<Longrightarrow> wp m (\<lambda>a w. Q a w \<and> Q' a w) (\<lambda>s w. E s w \<and> E' s w) w"
  by (auto simp: wp_def split: option.splits res.splits)

lemma wp_never_runs:
  "wp m Q never w \<longleftrightarrow> (\<exists>a w'. m w = Some (Ret a, w') \<and> Q a w')"
  by (auto simp: wp_def split: option.splits res.splits)

lemma wp_halts: "wp m (\<lambda>_ _. False) E w \<longleftrightarrow> (\<exists>s w'. m w = Some (Halt s, w') \<and> E s w')"
  by (auto simp: wp_def split: option.splits res.splits)

lemma wp_stops: "wp m (\<lambda>_ _. False) (\<lambda>s _. s = S) w = (\<exists>w'. m w = Some (Halt S, w'))"
  by (auto simp: wp_def split: option.splits res.splits)

lemma wp_ends: "wp m (\<lambda>_ _. False) (\<lambda>s w. s = S \<and> P w) w = (\<exists>w'. m w = Some (Halt S, w') \<and> P w')"
  by (auto simp: wp_def split: option.splits res.splits)

lemma wp_runs: "m w = Some (Ret a, w') \<Longrightarrow> wp m Q E w = Q a w'"
  by (simp add: wp_def)

lemma wp_forM:
  assumes "I 0 s w"
    and "\<And>k s w. k < length xs \<Longrightarrow> I k s w \<Longrightarrow> wp (c (xs ! k) s) (\<lambda>s' w'. I (Suc k) s' w') E w"
    and "\<And>s w. I (length xs) s w \<Longrightarrow> Q s w"
  shows "wp (forM xs c s) Q E w"
  using assms
proof (induction xs arbitrary: I s w)
  case Nil
  then show ?case by (simp add: wp_return)
next
  case (Cons x xs)
  have "wp (c x s) (\<lambda>s' w'. I 1 s' w') E w"
    using Cons.prems(2) [of 0] Cons.prems(1) by force
  then show ?case
    unfolding forM.simps wp_bind
  proof (rule wp_mono)
    fix s' w' assume "I 1 s' w'"
    then show "wp (forM xs c s') Q E w'"
      using Cons.prems(2,3) by (intro Cons.IH [where I = "\<lambda>k. I (Suc k)"]) force+
  qed
qed

text \<open>
  The loop rule: an invariant that the body keeps, a natural number that every round lowers.
  Termination is part of the conclusion, since \<open>wp\<close> of a run that never returns is false.
\<close>

lemma wp_whileM:
  fixes \<mu> :: "'s \<Rightarrow> 'w \<Rightarrow> nat"
  assumes "I s w"
    and step: "\<And>s w. I s w \<Longrightarrow> b s \<Longrightarrow> wp (c s) (\<lambda>s' w'. I s' w' \<and> \<mu> s' w' < \<mu> s w) E w"
    and exit: "\<And>s w. I s w \<Longrightarrow> \<not> b s \<Longrightarrow> Q s w"
  shows "wp (whileM b c s) Q E w"
  using assms(1)
proof (induction "\<mu> s w" arbitrary: s w rule: less_induct)
  case less
  have unfold: "wp (whileM b c s) Q E w =
      wp (if b s then bind (c s) (whileM b c) else return s) Q E w"
    by (subst wp_def, subst whileM.simps) (simp add: wp_def)
  show ?case
  proof (cases "b s")
    case True
    have "wp (c s) (\<lambda>s'. wp (whileM b c s') Q E) E w"
      using step [OF less.prems True] by (rule wp_mono) (auto intro: less.hyps)
    with True show ?thesis by (simp add: unfold wp_bind)
  next
    case False
    with exit less.prems show ?thesis by (simp add: unfold wp_return)
  qed
qed

lemma whileM_stop: "\<not> b s \<Longrightarrow> whileM b c s = return s"
  by (rule ext) (simp add: whileM.simps)

lemma whileM_step: "b s \<Longrightarrow> whileM b c s = bind (c s) (whileM b c)"
  by (rule ext) (simp add: whileM.simps)

section \<open>Preserving a predicate of the state\<close>

text \<open>
  What every run that returns keeps, whatever else it does; unlike \<open>wp\<close> this says nothing of termination, so
  that loops need no invariant of their own.
\<close>

named_theorems preserves_rules \<open>what keeps a predicate of the state\<close>

definition preserves :: "('w \<Rightarrow> bool) \<Rightarrow> ('w, 'a) prog \<Rightarrow> bool" where
  "preserves P m = (\<forall>w r w'. P w \<longrightarrow> m w = Some (Ret r, w') \<longrightarrow> P w')"

lemma preservesD: "preserves P m \<Longrightarrow> m w = Some (Ret r, w') \<Longrightarrow> P w \<Longrightarrow> P w'"
  by (simp add: preserves_def)

lemma preserves_bind [preserves_rules]:
  assumes "preserves P m" "\<And>a. preserves P (f a)"
  shows "preserves P (bind m f)"
  unfolding preserves_def
proof (intro allI impI)
  fix w r w'
  assume P: "P w" and "bind m f w = Some (Ret r, w')"
  then obtain a w1 where "m w = Some (Ret a, w1)" "f a w1 = Some (Ret r, w')"
    by (auto simp: bind_def split: option.splits res.splits)
  then show "P w'" using assms P by (metis preservesD)
qed

lemma preserves_andThen [preserves_rules]: "preserves P m \<Longrightarrow> preserves P n \<Longrightarrow> preserves P (andThen m n)"
  unfolding andThen_def by (rule preserves_bind)

lemma preserves_if [preserves_rules]:
  "preserves P m \<Longrightarrow> preserves P n \<Longrightarrow> preserves P (if b then m else n)"
  by simp

lemma preserves_prod [preserves_rules]:
  "(\<And>x y. preserves P (f x y)) \<Longrightarrow> preserves P (case p of (x, y) \<Rightarrow> f x y)"
  by (cases p) simp

lemma preserves_option [preserves_rules]:
  "preserves P m \<Longrightarrow> (\<And>y. preserves P (f y)) \<Longrightarrow> preserves P (case x of None \<Rightarrow> m | Some y \<Rightarrow> f y)"
  by (cases x) simp_all

lemma preserves_let [preserves_rules]: "(\<And>x. preserves P (f x)) \<Longrightarrow> preserves P (Let v f)"
  by (simp add: Let_def)

lemma preserves_return [preserves_rules]: "preserves P (return a)" "preserves P (halt s)" "preserves P (undef u)"
  by (simp_all add: preserves_def return_def halt_def undef_def)

lemma preserves_forM [preserves_rules]:
  assumes "\<And>i s. preserves P (c i s)"
  shows "preserves P (forM is c s)"
proof (induction "is" arbitrary: s)
  case (Cons i "is")
  show ?case by (simp add: preserves_bind [OF assms Cons.IH])
qed (simp add: preserves_return)

lemma preserves_whileM [preserves_rules]:
  assumes "\<And>s. preserves P (c s)"
  shows "preserves P (whileM b c s)"
proof -
  let ?R = "\<lambda>b' c' s w y. c' = c \<longrightarrow> P w \<longrightarrow> (\<forall>r. fst y = Ret r \<longrightarrow> P (snd y))"
  have "?R b c s w y" if "whileM b c s w = Some y" for w y
  proof (rule whileM.raw_induct [where P = ?R, OF _ that], intro impI allI)
    fix W b' c' s w y r
    assume IH: "\<And>b c' s w y. W b c' s w = Some y \<Longrightarrow> ?R b c' s w y"
      and run: "(if b' s then bind (c' s) (\<lambda>s'. W b' c' s') w else return s w) = Some y"
      and c: "c' = c" and P: "P w" and r: "fst y = Ret r"
    show "P (snd y)"
    proof (cases "b' s")
      case True
      then obtain a w1 where "c s w = Some (Ret a, w1)" "W b' c a w1 = Some y"
        using run r c by (auto simp: bind_def split: option.splits res.splits)
      then show ?thesis using IH [of b' c a w1 y] preservesD [OF assms _ P] r by blast
    qed (use run P in \<open>auto simp: return_def\<close>)
  qed
  then show ?thesis unfolding preserves_def by (metis fst_conv snd_conv)
qed

section \<open>Arrays and checked signed arithmetic\<close>

definition at :: "'a list \<Rightarrow> nat \<Rightarrow> ('w, 'a) prog" where
  "at xs i = (if i < length xs then return (xs ! i) else undef Out_Of_Bounds)"

lemma wp_at [wp_rules]:
  "wp (at xs i) Q E w =
    ((i < length xs \<longrightarrow> Q (xs ! i) w) \<and> (\<not> i < length xs \<longrightarrow> E (Undefined Out_Of_Bounds) w))"
  by (simp add: at_def wp_rules)

abbreviation INT_MAX :: int where "INT_MAX \<equiv> 2147483647"
abbreviation INT_MIN :: int where "INT_MIN \<equiv> - 2147483648"

definition checked :: "int \<Rightarrow> ('w, int) prog" where
  "checked v = (if INT_MIN \<le> v \<and> v \<le> INT_MAX then return v else undef Signed_Overflow)"

definition add_i :: "int \<Rightarrow> int \<Rightarrow> ('w, int) prog" where
  "add_i a b = checked (a + b)"

definition sub_i :: "int \<Rightarrow> int \<Rightarrow> ('w, int) prog" where
  "sub_i a b = checked (a - b)"

lemma wp_checked [wp_rules]:
  "wp (checked v) Q E w =
    ((INT_MIN \<le> v \<and> v \<le> INT_MAX \<longrightarrow> Q v w) \<and>
     (\<not> (INT_MIN \<le> v \<and> v \<le> INT_MAX) \<longrightarrow> E (Undefined Signed_Overflow) w))"
  by (simp add: checked_def wp_rules)

lemmas wp_arith [wp_rules] = wp_checked [where v = "a + b" for a b, folded add_i_def]
  wp_checked [where v = "a - b" for a b, folded sub_i_def]

text \<open>For differences whose bounds the simplifier would lose.\<close>

lemma wp_sub_ok: "INT_MIN \<le> a - b \<Longrightarrow> a - b \<le> INT_MAX \<Longrightarrow> wp (sub_i a b) Q E w = Q (a - b) w"
  by (simp add: wp_rules)

lemma wp_add_ok: "INT_MIN \<le> a + b \<Longrightarrow> a + b \<le> INT_MAX \<Longrightarrow> wp (add_i a b) Q E w = Q (a + b) w"
  by (simp add: wp_rules)

end
