(* ===== verification/C_Library.thy ===== *)
theory C_Library
  imports Prelude "HOL-Library.Multiset"
begin

text \<open>
  The part of the C library that the sources call: \<open>printf\<close>'s \<open>%d\<close> family, \<open>scanf\<close>'s \<open>%d\<close> and
  \<open>%s\<close>, \<open>atoi\<close>, writing into a fixed buffer, and \<open>qsort\<close> (the stable merge sort of glibc).
  Strings are lists of bytes without the terminating NUL. The locale \<open>sorting\<close> is the
  contract of \<open>qsort\<close> in the C standard; what the schedulers need of their sorted arrays is proved
  inside it, so that it does not depend on the algorithm.
\<close>

section \<open>Decimal output\<close>

definition digit_char :: "nat \<Rightarrow> char" where
  "digit_char d = char_of (48 + d)"

definition digit_val :: "char \<Rightarrow> nat" where
  "digit_val c = of_char c - 48"

definition is_digit :: "char \<Rightarrow> bool" where
  "is_digit c = (48 \<le> (of_char c :: nat) \<and> (of_char c :: nat) \<le> 57)"

definition is_space :: "char \<Rightarrow> bool" where
  "is_space c = (of_char c = (32::nat) \<or> (9 \<le> (of_char c :: nat) \<and> (of_char c :: nat) \<le> 13))"

fun show_nat :: "nat \<Rightarrow> string" where
  "show_nat n = (if n < 10 then [digit_char n] else show_nat (n div 10) @ [digit_char (n mod 10)])"

declare show_nat.simps [simp del]

definition show_int :: "int \<Rightarrow> string" where
  "show_int v = (if v < 0 then ''-'' @ show_nat (nat (- v)) else show_nat (nat v))"

text \<open>\<open>%<n>d\<close>: blanks on the left; \<open>%0<n>d\<close>: zeros after the sign.\<close>

definition pad_blank :: "nat \<Rightarrow> string \<Rightarrow> string" where
  "pad_blank n s = replicate (n - length s) (CHR '' '') @ s"

definition show_int_zero :: "nat \<Rightarrow> int \<Rightarrow> string" where
  "show_int_zero n v =
    (if v < 0 then ''-'' @ replicate (n - 1 - length (show_nat (nat (- v)))) (CHR ''0'') @ show_nat (nat (- v))
     else replicate (n - length (show_nat (nat v))) (CHR ''0'') @ show_nat (nat v))"

text \<open>\<open>sprintf\<close> into a buffer of \<open>cap\<close> bytes: the text and its NUL must fit.\<close>

definition sprintf :: "nat \<Rightarrow> string \<Rightarrow> ('w, string) prog" where
  "sprintf cap s = (if length s < cap then return s else undef Buffer_Overrun)"

definition snprintf :: "nat \<Rightarrow> string \<Rightarrow> string" where
  "snprintf cap s = take (cap - 1) s"

lemma wp_sprintf [wp_rules]:
  "wp (sprintf cap s) Q E w =
    ((length s < cap \<longrightarrow> Q s w) \<and> (\<not> length s < cap \<longrightarrow> E (Undefined Buffer_Overrun) w))"
  by (simp add: sprintf_def wp_rules)

section \<open>Decimal input\<close>

datatype scanned = Scan_EOF | Scan_Fail string | Scan_Int int string

definition digits_value :: "string \<Rightarrow> nat" where
  "digits_value s = foldl (\<lambda>acc c. 10 * acc + digit_val c) 0 s"

definition scan_number :: "int \<Rightarrow> string \<Rightarrow> scanned" where
  "scan_number sign s =
    (let ds = takeWhile is_digit s in
     if ds = [] then Scan_Fail s else Scan_Int (sign * int (digits_value ds)) (dropWhile is_digit s))"

definition scan_d :: "string \<Rightarrow> scanned" where
  "scan_d s = (case dropWhile is_space s of
       [] \<Rightarrow> Scan_EOF
     | c # cs \<Rightarrow> if c = CHR ''-'' then scan_number (-1) cs
                else if c = CHR ''+'' then scan_number 1 cs
                else scan_number 1 (c # cs))"

text \<open>\<open>%s\<close>: a maximal run of non-blank bytes; \<open>None\<close> at the end of the input.\<close>

definition scan_s :: "string \<Rightarrow> (string \<times> string) option" where
  "scan_s s = (let r = dropWhile is_space s in
     if r = [] then None
     else Some (takeWhile (\<lambda>c. \<not> is_space c) r, dropWhile (\<lambda>c. \<not> is_space c) r))"

definition atoi :: "string \<Rightarrow> ('w, int) prog" where
  "atoi s = (case scan_d s of Scan_Int v _ \<Rightarrow> checked v | _ \<Rightarrow> return 0)"

section \<open>Facts about decimal text\<close>

lemma is_digit_digit_char [simp]: "d < 10 \<Longrightarrow> is_digit (digit_char d)"
  by (simp add: is_digit_def digit_char_def)

lemma digit_val_digit_char [simp]: "d < 10 \<Longrightarrow> digit_val (digit_char d) = d"
  by (simp add: digit_val_def digit_char_def)

lemma digit_not_space: "is_digit c \<Longrightarrow> \<not> is_space c"
  by (simp add: is_digit_def is_space_def)

lemma digit_not_sign: "is_digit c \<Longrightarrow> c \<noteq> CHR ''-'' \<and> c \<noteq> CHR ''+''"
  by (auto simp: is_digit_def)

lemma digits_show_nat: "c \<in> set (show_nat n) \<Longrightarrow> is_digit c"
proof (induction n rule: show_nat.induct)
  case (1 n)
  then show ?case
    by (cases "n < 10") (auto simp: show_nat.simps [of n])
qed

lemma show_nat_nonempty [simp]: "show_nat n \<noteq> []"
  by (simp add: show_nat.simps [of n])

lemma digits_value_snoc [simp]: "digits_value (s @ [c]) = 10 * digits_value s + digit_val c"
  by (simp add: digits_value_def)

lemma digits_value_show_nat [simp]: "digits_value (show_nat n) = n"
proof (induction n rule: show_nat.induct)
  case (1 n)
  show ?case
  proof (cases "n < 10")
    case True
    then show ?thesis by (simp add: show_nat.simps [of n] digits_value_def)
  next
    case False
    with 1 show ?thesis by (simp add: show_nat.simps [of n])
  qed
qed

lemma length_show_nat: "n < 10 ^ k \<Longrightarrow> 0 < k \<Longrightarrow> length (show_nat n) \<le> k"
proof (induction n arbitrary: k rule: show_nat.induct)
  case (1 n)
  show ?case
  proof (cases "n < 10")
    case True
    with "1.prems" show ?thesis by (simp add: show_nat.simps [of n])
  next
    case False
    with "1.prems" obtain k' where k: "k = Suc k'" and "0 < k'"
      by (cases k; cases "k - 1") auto
    with "1.prems" have "n div 10 < 10 ^ k'" by (auto simp: less_mult_imp_div_less mult.commute)
    with 1 False \<open>0 < k'\<close> have "length (show_nat (n div 10)) \<le> k'" by blast
    with False k show ?thesis by (simp add: show_nat.simps [of n])
  qed
qed

lemma length_show_nat_int32: "n \<le> 2147483648 \<Longrightarrow> length (show_nat n) \<le> 10"
  by (rule length_show_nat) simp_all

lemma length_show_int: "INT_MIN \<le> v \<Longrightarrow> v \<le> INT_MAX \<Longrightarrow> length (show_int v) \<le> 11"
  using length_show_nat_int32 [of "nat v"] length_show_nat_int32 [of "nat (- v)"]
  by (cases "v < 0") (simp_all add: show_int_def le_nat_iff nat_le_iff)

lemma takeWhile_digits: "(\<And>c. c \<in> set s \<Longrightarrow> P c) \<Longrightarrow> (r = [] \<or> \<not> P (hd r)) \<Longrightarrow>
    takeWhile P (s @ r) = s \<and> dropWhile P (s @ r) = r"
  by (cases r) (auto simp: takeWhile_append dropWhile_append)

lemma scan_number_show_nat:
  "(r = [] \<or> \<not> is_digit (hd r)) \<Longrightarrow> scan_number sign (show_nat n @ r) = Scan_Int (sign * int n) r"
  using takeWhile_digits [of "show_nat n" is_digit r] digits_show_nat [of _ n]
  by (auto simp: scan_number_def Let_def)

text \<open>Reading back a printed number, after any leading blanks, gives the number.\<close>

lemma scan_d_show_int:
  assumes "r = [] \<or> \<not> is_digit (hd r)"
  shows "scan_d (show_int v @ r) = Scan_Int v r"
proof (cases "v < 0")
  case True
  then show ?thesis
    using scan_number_show_nat [OF assms, of "-1" "nat (- v)"]
    by (simp add: scan_d_def show_int_def is_space_def)
next
  case False
  obtain c cs where cs: "show_nat (nat v) = c # cs"
    by (cases "show_nat (nat v)") auto
  then have "is_digit c" using digits_show_nat [of c "nat v"] by simp
  with False cs show ?thesis
    using scan_number_show_nat [OF assms, of 1 "nat v"] digit_not_sign [of c] digit_not_space [of c]
    by (simp add: scan_d_def show_int_def)
qed

lemma scan_d_blanks [simp]: "scan_d (replicate n (CHR '' '') @ s) = scan_d s"
  by (simp add: scan_d_def dropWhile_append is_space_def)

lemma scan_d_blank [simp]: "scan_d (CHR '' '' # s) = scan_d s"
  using scan_d_blanks [of 1 s] by simp

lemma scan_d_Nil [simp]: "scan_d [] = Scan_EOF"
  by (simp add: scan_d_def)

lemma scan_d_pad_blank:
  "(r = [] \<or> \<not> is_digit (hd r)) \<Longrightarrow> scan_d (pad_blank n (show_int v) @ r) = Scan_Int v r"
  by (simp add: pad_blank_def scan_d_show_int)

lemma is_digit_blank [simp]: "\<not> is_digit (CHR '' '')" and is_digit_dot [simp]: "\<not> is_digit (CHR ''.'')"
  and is_space_blank [simp]: "is_space (CHR '' '')" and is_space_newline [simp]: "is_space (CHR 0x0A)"
  by (simp_all add: is_digit_def is_space_def)

text \<open>Reading a number consumes input, which bounds every loop that reads numbers.\<close>

lemma scan_d_consumes: "scan_d s = Scan_Int v r \<Longrightarrow> length r < length s"
proof -
  assume *: "scan_d s = Scan_Int v r"
  have num: "scan_number sg t = Scan_Int v r \<Longrightarrow> length r < length t" for sg t
    by (cases t) (auto simp: scan_number_def Let_def length_dropWhile_le le_imp_less_Suc split: if_splits)
  obtain c cs where cs: "dropWhile is_space s = c # cs"
    using * by (cases "dropWhile is_space s") (auto simp: scan_d_def)
  have "length (c # cs) \<le> length s"
    unfolding cs [symmetric] by (rule length_dropWhile_le)
  moreover have "length r < length (c # cs)"
    using * num [of "-1" cs] num [of 1 cs] num [of 1 "c # cs"]
    by (auto simp: scan_d_def cs split: if_splits)
  ultimately show ?thesis by simp
qed

lemma scan_s_word:
  assumes "s \<noteq> []" and "\<And>c. c \<in> set s \<Longrightarrow> \<not> is_space c" and "r = [] \<or> is_space (hd r)"
  shows "scan_s (s @ r) = Some (s, r)"
proof -
  obtain c cs where cs: "s = c # cs" using assms(1) by (cases s) auto
  with assms(2) have "dropWhile is_space (s @ r) = s @ r" by simp
  moreover have "takeWhile (\<lambda>c. \<not> is_space c) (s @ r) = s \<and> dropWhile (\<lambda>c. \<not> is_space c) (s @ r) = r"
    using assms by (intro takeWhile_digits) auto
  ultimately show ?thesis using assms(1) by (simp add: scan_s_def Let_def)
qed

lemma scan_s_blank [simp]: "is_space c \<Longrightarrow> scan_s (c # s) = scan_s s"
  by (simp add: scan_s_def)

lemma atoi_show_int:
  "INT_MIN \<le> v \<Longrightarrow> v \<le> INT_MAX \<Longrightarrow> atoi (show_int v) = return v"
  using scan_d_show_int [of "[]" v] by (simp add: atoi_def checked_def)

section \<open>qsort\<close>

text \<open>A comparator is a function of the sign convention of \<open>strcmp\<close>.\<close>

fun merge_by :: "('a \<Rightarrow> 'a \<Rightarrow> int) \<Rightarrow> 'a list \<Rightarrow> 'a list \<Rightarrow> 'a list" where
  "merge_by cmp [] ys = ys"
| "merge_by cmp xs [] = xs"
| "merge_by cmp (x # xs) (y # ys) =
    (if cmp x y \<le> 0 then x # merge_by cmp xs (y # ys) else y # merge_by cmp (x # xs) ys)"

fun qsort :: "('a \<Rightarrow> 'a \<Rightarrow> int) \<Rightarrow> 'a list \<Rightarrow> 'a list" where
  "qsort cmp xs = (let n = length xs in
     if n \<le> 1 then xs
     else merge_by cmp (qsort cmp (take (n div 2) xs)) (qsort cmp (drop (n div 2) xs)))"

declare qsort.simps [simp del]

text \<open>\<open>qsort(&a[lo], n, sizeof a[0], cmp)\<close> sorts a segment in place.\<close>

definition qsort_at :: "('a \<Rightarrow> 'a \<Rightarrow> int) \<Rightarrow> nat \<Rightarrow> nat \<Rightarrow> 'a list \<Rightarrow> 'a list" where
  "qsort_at cmp lo n xs = take lo xs @ qsort cmp (take n (drop lo xs)) @ drop (lo + n) xs"

text \<open>The comparators of the sources order by a key.\<close>

definition key_cmp :: "('a \<Rightarrow> 'a \<Rightarrow> int) \<Rightarrow> ('a \<Rightarrow> int) \<Rightarrow> bool" where
  "key_cmp cmp k = (\<forall>x y. (cmp x y < 0 \<longleftrightarrow> k x < k y) \<and> (cmp x y > 0 \<longleftrightarrow> k x > k y))"

lemma key_cmp_le: "key_cmp cmp k \<Longrightarrow> cmp x y \<le> 0 \<longleftrightarrow> k x \<le> k y"
  by (auto simp: key_cmp_def not_less [symmetric])

lemma mset_merge_by [simp]: "mset (merge_by cmp xs ys) = mset xs + mset ys"
  by (induction cmp xs ys rule: merge_by.induct) auto

lemma set_merge_by [simp]: "set (merge_by cmp xs ys) = set xs \<union> set ys"
  by (metis mset_merge_by set_mset_mset set_mset_union)

lemma mset_qsort [simp]: "mset (qsort cmp xs) = mset xs"
proof (induction cmp xs rule: qsort.induct)
  case (1 cmp xs)
  show ?case
  proof (cases "length xs \<le> 1")
    case True
    then show ?thesis by (simp add: qsort.simps [of cmp xs])
  next
    case False
    then have "mset (qsort cmp xs) =
        mset (take (length xs div 2) xs) + mset (drop (length xs div 2) xs)"
      using 1 by (simp add: qsort.simps [of cmp xs] Let_def)
    then show ?thesis by (simp flip: mset_append)
  qed
qed

lemma sorted_merge_by:
  "key_cmp cmp k \<Longrightarrow> sorted (map k xs) \<Longrightarrow> sorted (map k ys) \<Longrightarrow> sorted (map k (merge_by cmp xs ys))"
  by (induction cmp xs ys rule: merge_by.induct) (fastforce simp: key_cmp_le)+

lemma sorted_qsort: "key_cmp cmp k \<Longrightarrow> sorted (map k (qsort cmp xs))"
proof (induction cmp xs rule: qsort.induct)
  case (1 cmp xs)
  then show ?case
    by (cases "length xs \<le> 1")
      (auto simp: qsort.simps [of cmp xs] Let_def sorted_merge_by sorted01)
qed

text \<open>The contract of the C standard: a permutation, in the order of the comparator.\<close>

locale sorting =
  fixes srt :: "('a \<Rightarrow> 'a \<Rightarrow> int) \<Rightarrow> 'a list \<Rightarrow> 'a list"
  assumes permutes: "mset (srt cmp xs) = mset xs"
    and orders: "key_cmp cmp k \<Longrightarrow> sorted (map k (srt cmp xs))"
begin

lemma srt_length: "length (srt cmp xs) = length xs"
  using permutes [of cmp xs] by (rule mset_eq_length)

lemma srt_set: "set (srt cmp xs) = set xs"
  using permutes [of cmp xs] by (rule mset_eq_setD)

lemma srt_empty_iff: "srt cmp xs = [] \<longleftrightarrow> xs = []"
  using srt_length [of cmp xs] by auto

lemma srt_head_least:
  "key_cmp cmp k \<Longrightarrow> x \<in> set xs \<Longrightarrow> k (hd (srt cmp xs)) \<le> k x"
proof -
  assume "key_cmp cmp k" and x: "x \<in> set xs"
  then have "sorted (map k (srt cmp xs))" by (blast intro: orders)
  moreover have "x \<in> set (srt cmp xs)" using x by (simp add: srt_set)
  ultimately show ?thesis by (cases "srt cmp xs") auto
qed

lemma segment_length: "length (take lo xs @ srt cmp (take n (drop lo xs)) @ drop (lo + n) xs) = length xs"
  by (simp add: srt_length)

lemma segment_mset: "mset (take lo xs @ srt cmp (take n (drop lo xs)) @ drop (lo + n) xs) = mset xs"
proof -
  have "xs = take lo xs @ take n (drop lo xs) @ drop (lo + n) xs"
    by (metis add.commute append_take_drop_id drop_drop)
  then show ?thesis by (metis mset_append permutes)
qed

end

interpretation libc: sorting "qsort :: ('a \<Rightarrow> 'a \<Rightarrow> int) \<Rightarrow> 'a list \<Rightarrow> 'a list"
  by unfold_locales (auto intro: sorted_qsort)

lemmas qsort_facts = libc.srt_length libc.srt_set libc.srt_empty_iff

lemma length_qsort_at [simp]: "length (qsort_at cmp lo n xs) = length xs"
  unfolding qsort_at_def by (rule libc.segment_length)

lemma mset_qsort_at [simp]: "mset (qsort_at cmp lo n xs) = mset xs"
  unfolding qsort_at_def by (rule libc.segment_mset)

lemma set_qsort_at [simp]: "set (qsort_at cmp lo n xs) = set xs"
  by (rule mset_eq_setD) simp

text \<open>Outside the segment nothing moves; inside, the elements are those of the segment.\<close>

lemma nth_qsort_at_below: "i < lo \<Longrightarrow> lo \<le> length xs \<Longrightarrow> qsort_at cmp lo n xs ! i = xs ! i"
  by (simp add: qsort_at_def nth_append)

lemma nth_qsort_at_above:
  "lo + n \<le> i \<Longrightarrow> i < length xs \<Longrightarrow> qsort_at cmp lo n xs ! i = xs ! i"
  by (auto simp: qsort_at_def nth_append qsort_facts)

lemma qsort_at_inside:
  assumes "lo \<le> i" and "i < lo + n" and "lo + n \<le> length xs"
  shows "\<exists>j. lo \<le> j \<and> j < lo + n \<and> qsort_at cmp lo n xs ! i = xs ! j"
proof -
  let ?seg = "take n (drop lo xs)"
  have len: "length ?seg = n" using assms by simp
  have "qsort_at cmp lo n xs ! i = qsort cmp ?seg ! (i - lo)"
    using assms len by (auto simp: qsort_at_def nth_append qsort_facts)
  moreover have "qsort cmp ?seg ! (i - lo) \<in> set ?seg"
    using assms len by (metis diff_less_mono libc.srt_length libc.srt_set nth_mem add_diff_cancel_left')
  then obtain k where "k < n" and "qsort cmp ?seg ! (i - lo) = ?seg ! k"
    using len by (metis in_set_conv_nth)
  ultimately show ?thesis
    using assms by (intro exI [of _ "lo + k"]) auto
qed

lemma qsort_at_least:
  assumes "key_cmp cmp k" and "0 < n" and "lo + n \<le> length xs" and "lo \<le> j" and "j < lo + n"
  shows "k (qsort_at cmp lo n xs ! lo) \<le> k (xs ! j)"
proof -
  let ?seg = "take n (drop lo xs)"
  have ne: "qsort cmp ?seg \<noteq> []" using assms by (simp add: qsort_facts)
  have "qsort_at cmp lo n xs ! lo = hd (qsort cmp ?seg)"
    using assms ne by (simp add: qsort_at_def nth_append hd_conv_nth)
  moreover have "xs ! j \<in> set ?seg"
    unfolding in_set_conv_nth using assms by (intro exI [of _ "j - lo"]) auto
  ultimately show ?thesis
    using libc.srt_head_least [OF assms(1)] by simp
qed

end
