(* ===== verification/Syscalls.thy ===== *)
theory Syscalls
  imports C_Library
begin

text \<open>
  The world of one process of project 1: the unread text of its standard input, whether that is a pipe
  that somebody may still write to when the text is used up, the system calls it has made
  so far, and the operating system, which is a parameter. The result of a call may depend on the
  whole history of the process. One \<open>Ev_Spin\<close> is one run of the sources' busy loop
  \<open>for (i = 0; i < 1000000UL; i++);\<close>, their unit of time.

  The second half reads schedules off a trace: \<open>elapsed\<close> is the time in units that the trace has
  taken (a child that is sent \<open>x\<close> spins for \<open>x\<close> units), \<open>sent\<close> what one pipe has been sent, and
  \<open>every\<close> a check of each event against the trace before it. The scheduling policies are
  such checks, stated without any reference to the data structures of the schedulers.
\<close>

section \<open>Processes and their operating system\<close>

record timespec =
  tv_sec :: int
  tv_nsec :: int

text \<open>Times are ordered by seconds, then nanoseconds.\<close>

instantiation timespec_ext :: (linorder) linorder
begin

definition less_eq_timespec_ext :: "'a timespec_scheme \<Rightarrow> 'a timespec_scheme \<Rightarrow> bool" where
  "less_eq_timespec_ext s t = (tv_sec s < tv_sec t \<or> tv_sec s = tv_sec t \<and> (tv_nsec s < tv_nsec t \<or>
     tv_nsec s = tv_nsec t \<and> timespec.more s \<le> timespec.more t))"

definition less_timespec_ext :: "'a timespec_scheme \<Rightarrow> 'a timespec_scheme \<Rightarrow> bool" where
  "less_timespec_ext s t = (s \<le> t \<and> \<not> t \<le> s)"

instance
proof (standard, goal_cases)
  case (4 s t)
  then show ?case by (cases s; cases t) (auto simp: less_eq_timespec_ext_def)
qed (auto simp: less_eq_timespec_ext_def less_timespec_ext_def)

end

lemma timespec_le [simp]: "(s :: timespec) \<le> t \<longleftrightarrow>
    tv_sec s < tv_sec t \<or> tv_sec s = tv_sec t \<and> tv_nsec s \<le> tv_nsec t"
  by (auto simp: less_eq_timespec_ext_def)

datatype event =
    Ev_Spin
  | Ev_Pipe int int
  | Ev_Cloexec int
  | Ev_Fork int
  | Ev_Dup2 int int
  | Ev_Execl string "string list"
  | Ev_Close int
  | Ev_Write int string
  | Ev_Setscheduler int int int
  | Ev_Wait int
  | Ev_Waitpid int int
  | Ev_Gettime timespec
  | Ev_Myprint string
  | Ev_Stdout string
  | Ev_Stderr string

record os =
  pipe_fds :: "event list \<Rightarrow> (int \<times> int) option"
  fork_ret :: "event list \<Rightarrow> int"
  execl_ok :: "event list \<Rightarrow> bool"
  setscheduler_ret :: "event list \<Rightarrow> int \<Rightarrow> int \<Rightarrow> int"
  wait_ret :: "event list \<Rightarrow> int"
  waitpid_ret :: "event list \<Rightarrow> int \<Rightarrow> int"
  clock_now :: "event list \<Rightarrow> timespec"
  own_pid :: int

record process =
  sys :: os
  stdin :: string
  stdin_open :: bool
  trace :: "event list"

abbreviation log_event :: "event \<Rightarrow> process \<Rightarrow> process" where
  "log_event e w \<equiv> w\<lparr>trace := trace w @ [e]\<rparr>"

definition emit :: "event \<Rightarrow> (process, unit) prog" where
  "emit e = (\<lambda>w. Some (Ret (), log_event e w))"

text \<open>A call whose result comes from the operating system.\<close>

definition syscall :: "(os \<Rightarrow> event list \<Rightarrow> 'a) \<Rightarrow> ('a \<Rightarrow> event) \<Rightarrow> (process, 'a) prog" where
  "syscall result record_as = (\<lambda>w. let r = result (sys w) (trace w) in
     Some (Ret r, log_event (record_as r) w))"

definition sys_fork :: "(process, int) prog" where
  "sys_fork = syscall fork_ret Ev_Fork"

definition sys_setscheduler :: "int \<Rightarrow> int \<Rightarrow> (process, int) prog" where
  "sys_setscheduler p prio = syscall (\<lambda>os h. setscheduler_ret os h p prio) (Ev_Setscheduler p prio)"

definition sys_wait :: "(process, int) prog" where
  "sys_wait = syscall wait_ret Ev_Wait"

definition sys_waitpid :: "int \<Rightarrow> (process, int) prog" where
  "sys_waitpid p = syscall (\<lambda>os h. waitpid_ret os h p) (Ev_Waitpid p)"

definition sys_gettime :: "(process, timespec) prog" where
  "sys_gettime = syscall clock_now Ev_Gettime"

definition sys_myprint :: "string \<Rightarrow> (process, unit) prog" where
  "sys_myprint s = emit (Ev_Myprint s)"

definition sys_write :: "int \<Rightarrow> string \<Rightarrow> (process, unit) prog" where
  "sys_write f s = emit (Ev_Write f s)"

definition sys_close :: "int \<Rightarrow> (process, unit) prog" where
  "sys_close f = emit (Ev_Close f)"

definition set_cloexec :: "int \<Rightarrow> (process, unit) prog" where
  "set_cloexec f = emit (Ev_Cloexec f)"

definition sys_dup2 :: "int \<Rightarrow> int \<Rightarrow> (process, unit) prog" where
  "sys_dup2 f g = emit (Ev_Dup2 f g)"

definition spin :: "(process, unit) prog" where
  "spin = emit Ev_Spin"

definition eprint :: "string \<Rightarrow> (process, unit) prog" where
  "eprint s = emit (Ev_Stderr s)"

definition print :: "string \<Rightarrow> (process, unit) prog" where
  "print s = emit (Ev_Stdout s)"

definition getpid :: "(process, int) prog" where
  "getpid = (\<lambda>w. Some (Ret (own_pid (sys w)), w))"

definition exit_with :: "int \<Rightarrow> (process, 'a) prog" where
  "exit_with c = halt (Exited c)"

text \<open>A failed \<open>pipe\<close> leaves the two descriptors of the caller's array indeterminate.\<close>

definition sys_pipe :: "(process, int \<times> int) prog" where
  "sys_pipe = (\<lambda>w. case pipe_fds (sys w) (trace w) of
       None \<Rightarrow> undef Uninitialised w
     | Some (r, s) \<Rightarrow> Some (Ret (r, s), log_event (Ev_Pipe r s) w))"

text \<open>A successful \<open>execl\<close> does not return; a failed one returns \<open>-1\<close>.\<close>

definition sys_execl :: "string \<Rightarrow> string list \<Rightarrow> (process, int) prog" where
  "sys_execl path argv = (\<lambda>w. if execl_ok (sys w) (trace w)
     then Some (Halt (Execed path argv), log_event (Ev_Execl path argv) w)
     else Some (Ret (-1), log_event (Ev_Execl path argv) w))"

text \<open>
  \<open>scanf\<close> as the schedulers call it, without looking at its result: a failed conversion leaves
  the target indeterminate, and every target is read later. A \<open>%d\<close> out of range is undefined, and
  so is a word that does not fit its buffer. The input of a scheduler is a text that ends (a file).
\<close>

definition scanf_d :: "(process, int) prog" where
  "scanf_d = (\<lambda>w. case scan_d (stdin w) of
       Scan_Int v r \<Rightarrow> checked v (w\<lparr>stdin := r\<rparr>)
     | _ \<Rightarrow> undef Uninitialised w)"

definition scanf_s :: "nat \<Rightarrow> (process, string) prog" where
  "scanf_s cap = (\<lambda>w. case scan_s (stdin w) of
       Some (s, r) \<Rightarrow> (if length s < cap then return s else undef Buffer_Overrun) (w\<lparr>stdin := r\<rparr>)
     | None \<Rightarrow> undef Uninitialised w)"

text \<open>
  \<open>scanf("%d", &x)\<close> with its result, as the job processes call it: 1 and the value, 0, or \<open>EOF\<close> (\<open>-1\<close>). It looks
  at the byte behind the number; where there is none yet and the pipe is open the call blocks, and does not
  return unless something more is written (\<open>None\<close>).
\<close>

definition blocks :: "process \<Rightarrow> string \<Rightarrow> bool" where
  "blocks w r = (stdin_open w \<and> r = [])"

definition scanf_d_ret :: "(process, int \<times> int option) prog" where
  "scanf_d_ret = (\<lambda>w. case scan_d (stdin w) of
       Scan_Int v r \<Rightarrow> if blocks w r then None else bind (checked v) (\<lambda>v. return (1, Some v)) (w\<lparr>stdin := r\<rparr>)
     | Scan_Fail r \<Rightarrow> if blocks w r then None else Some (Ret (0, None), w\<lparr>stdin := r\<rparr>)
     | Scan_EOF \<Rightarrow> if blocks w [] then None else Some (Ret (-1, None), w\<lparr>stdin := []\<rparr>))"

section \<open>Symbolic execution of system calls\<close>

lemma wp_emit [wp_rules]: "wp (emit e) Q E w = Q () (log_event e w)"
  by (simp add: wp_def emit_def)

lemma wp_syscall: "wp (syscall r f) Q E w =
    Q (r (sys w) (trace w)) (log_event (f (r (sys w) (trace w))) w)"
  by (simp add: wp_def syscall_def Let_def)

lemma wp_exit_with [wp_rules]: "wp (exit_with c) Q E w = E (Exited c) w"
  by (simp add: exit_with_def wp_rules)

lemma wp_getpid [wp_rules]: "wp getpid Q E w = Q (own_pid (sys w)) w"
  by (simp add: getpid_def wp_def)

lemmas wp_sys_plain [wp_rules] =
  wp_emit [where e = "Ev_Myprint s" for s, folded sys_myprint_def]
  wp_emit [where e = "Ev_Write f s" for f s, folded sys_write_def]
  wp_emit [where e = "Ev_Close f" for f, folded sys_close_def]
  wp_emit [where e = "Ev_Cloexec f" for f, folded set_cloexec_def]
  wp_emit [where e = "Ev_Dup2 f g" for f g, folded sys_dup2_def]
  wp_emit [where e = "Ev_Spin", folded spin_def]
  wp_emit [where e = "Ev_Stderr s" for s, folded eprint_def]
  wp_emit [where e = "Ev_Stdout s" for s, folded print_def]

lemmas wp_sys_oracle [wp_rules] =
  wp_syscall [where r = fork_ret and f = Ev_Fork, folded sys_fork_def]
  wp_syscall [where r = wait_ret and f = Ev_Wait, folded sys_wait_def]
  wp_syscall [where r = clock_now and f = Ev_Gettime, folded sys_gettime_def]

lemma wp_sys_setscheduler [wp_rules]: "wp (sys_setscheduler p prio) Q E w =
    Q (setscheduler_ret (sys w) (trace w) p prio)
      (log_event (Ev_Setscheduler p prio (setscheduler_ret (sys w) (trace w) p prio)) w)"
  by (simp add: sys_setscheduler_def wp_syscall)

lemma wp_sys_waitpid [wp_rules]: "wp (sys_waitpid p) Q E w =
    Q (waitpid_ret (sys w) (trace w) p) (log_event (Ev_Waitpid p (waitpid_ret (sys w) (trace w) p)) w)"
  by (simp add: sys_waitpid_def wp_syscall)

lemma wp_sys_pipe [wp_rules]: "wp sys_pipe Q E w =
    (case pipe_fds (sys w) (trace w) of
       None \<Rightarrow> E (Undefined Uninitialised) w
     | Some p \<Rightarrow> Q p (log_event (Ev_Pipe (fst p) (snd p)) w))"
  by (auto simp: wp_def sys_pipe_def undef_def halt_def split: option.split)

lemma wp_sys_execl [wp_rules]: "wp (sys_execl path argv) Q E w =
    (if execl_ok (sys w) (trace w) then E (Execed path argv) (log_event (Ev_Execl path argv) w)
     else Q (-1) (log_event (Ev_Execl path argv) w))"
  by (simp add: wp_def sys_execl_def)

lemma wp_scanf_d: "scan_d (stdin w) = Scan_Int v r \<Longrightarrow> INT_MIN \<le> v \<Longrightarrow> v \<le> INT_MAX \<Longrightarrow>
    wp scanf_d Q E w = Q v (w\<lparr>stdin := r\<rparr>)"
  by (simp add: wp_def scanf_d_def checked_def return_def)

lemma wp_scanf_s: "scan_s (stdin w) = Some (s, r) \<Longrightarrow> length s < cap \<Longrightarrow>
    wp (scanf_s cap) Q E w = Q s (w\<lparr>stdin := r\<rparr>)"
  by (simp add: wp_def scanf_s_def return_def)

section \<open>What the operating system is relied on for\<close>

text \<open>The descriptors a trace has open: a new pipe's are none of them.\<close>

fun open_step :: "int set \<Rightarrow> event \<Rightarrow> int set" where
  "open_step S (Ev_Pipe r s) = insert r (insert s S)"
| "open_step S (Ev_Close f) = S - {f}"
| "open_step S _ = S"

definition open_fds :: "event list \<Rightarrow> int set" where
  "open_fds h = foldl open_step {0, 1, 2} h"

lemma open_fds_snoc [simp]: "open_fds (h @ [e]) = open_step (open_fds h) e"
  by (simp add: open_fds_def)

text \<open>
  The documented behaviour of a system with resources to spare: calls succeed, \<open>fork\<close> returns a
  process id in the parent, \<open>pipe\<close> two new descriptors, \<open>gettime\<close> a normalised time.
\<close>

definition os_ok :: "os \<Rightarrow> bool" where
  "os_ok os =
    ((\<forall>h. \<exists>r s. pipe_fds os h = Some (r, s) \<and> r \<noteq> s \<and> r \<notin> open_fds h \<and> s \<notin> open_fds h) \<and>
     (\<forall>h. 0 < fork_ret os h \<and> fork_ret os h \<le> INT_MAX) \<and>
     (\<forall>h p prio. setscheduler_ret os h p prio = 0) \<and>
     (\<forall>h. 0 \<le> tv_sec (clock_now os h) \<and> tv_sec (clock_now os h) < 10 ^ 18 \<and>
          0 \<le> tv_nsec (clock_now os h) \<and> tv_nsec (clock_now os h) < 10 ^ 9) \<and>
     (\<forall>h p. 0 \<le> waitpid_ret os h p))"

lemma os_ok_fork: "os_ok os \<Longrightarrow> 0 < fork_ret os h \<and> fork_ret os h \<le> INT_MAX"
  and os_ok_setscheduler: "os_ok os \<Longrightarrow> setscheduler_ret os h p prio = 0"
  and os_ok_waitpid: "os_ok os \<Longrightarrow> 0 \<le> waitpid_ret os h p"
  by (simp_all add: os_ok_def)

lemma os_ok_pipe:
  "os_ok os \<Longrightarrow> \<exists>r s. pipe_fds os h = Some (r, s) \<and> r \<noteq> s \<and> r \<notin> open_fds h \<and> s \<notin> open_fds h"
  by (simp add: os_ok_def)

definition time_ok :: "timespec \<Rightarrow> bool" where
  "time_ok t = (0 \<le> tv_sec t \<and> tv_sec t < 10 ^ 18 \<and> 0 \<le> tv_nsec t \<and> tv_nsec t < 10 ^ 9)"

lemma os_ok_time: "os_ok os \<Longrightarrow> time_ok (clock_now os h)"
  by (simp add: os_ok_def time_ok_def)

section \<open>Reading schedules off a trace\<close>

text \<open>What a child spins for when it is sent the text \<open>s\<close>.\<close>

definition units :: "string \<Rightarrow> int" where
  "units s = (case scan_d s of Scan_Int v _ \<Rightarrow> max 0 v | _ \<Rightarrow> 0)"

fun duration :: "event \<Rightarrow> int" where
  "duration Ev_Spin = 1"
| "duration (Ev_Write f s) = units s"
| "duration _ = 0"

definition elapsed :: "event list \<Rightarrow> int" where
  "elapsed h = sum_list (map duration h)"

fun amount :: "int \<Rightarrow> event \<Rightarrow> int" where
  "amount f (Ev_Write g s) = (if g = f then units s else 0)"
| "amount f _ = 0"

definition sent :: "int \<Rightarrow> event list \<Rightarrow> int" where
  "sent f h = sum_list (map (amount f) h)"

fun writer :: "int \<Rightarrow> event \<Rightarrow> int" where
  "writer f (Ev_Write g s) = g"
| "writer f _ = f"

definition last_fd :: "event list \<Rightarrow> int" where
  "last_fd h = foldl writer (-1) h"

text \<open>The texts written to one pipe, the amounts they stand for, and what its reader reads.\<close>

fun written :: "int \<Rightarrow> event \<Rightarrow> string list" where
  "written f (Ev_Write g s) = (if g = f then [s] else [])"
| "written f _ = []"

definition writes :: "int \<Rightarrow> event list \<Rightarrow> string list" where
  "writes f h = concat (map (written f) h)"

definition chunks :: "int \<Rightarrow> event list \<Rightarrow> int list" where
  "chunks f h = map units (writes f h)"

definition pipe_input :: "int \<Rightarrow> event list \<Rightarrow> string" where
  "pipe_input f h = concat (writes f h)"

definition every :: "(event list \<Rightarrow> event \<Rightarrow> bool) \<Rightarrow> event list \<Rightarrow> bool" where
  "every P h = (\<forall>i < length h. P (take i h) (h ! i))"

definition collect :: "(event list \<Rightarrow> event \<Rightarrow> 'b list) \<Rightarrow> event list \<Rightarrow> 'b list" where
  "collect f h = concat (map (\<lambda>i. f (take i h) (h ! i)) [0..<length h])"

lemma trace_nil [simp]:
  "elapsed [] = 0" "sent f [] = 0" "last_fd [] = -1" "writes f [] = []" "chunks f [] = []"
  "every P []" "collect g [] = []"
  by (simp_all add: elapsed_def sent_def last_fd_def writes_def chunks_def every_def collect_def)

lemma trace_snoc [simp]:
  "elapsed (h @ [e]) = elapsed h + duration e"
  "sent f (h @ [e]) = sent f h + amount f e"
  "last_fd (h @ [e]) = writer (last_fd h) e"
  "writes f (h @ [e]) = writes f h @ written f e"
  "chunks f (h @ [e]) = chunks f h @ map units (written f e)"
  by (simp_all add: elapsed_def sent_def last_fd_def writes_def chunks_def)

lemma every_snoc [simp]: "every P (h @ [e]) = (every P h \<and> P h e)"
  by (auto simp: every_def nth_append less_Suc_eq)

lemma collect_snoc [simp]: "collect f (h @ [e]) = collect f h @ f h e"
proof -
  have "map (\<lambda>i. f (take i (h @ [e])) ((h @ [e]) ! i)) [0..<length h] =
      map (\<lambda>i. f (take i h) (h ! i)) [0..<length h]"
    by (rule map_cong) (simp_all add: nth_append)
  then have "collect f (h @ [e]) = collect f h @ f (take (length h) (h @ [e])) e"
    by (simp only: collect_def length_append_singleton upt_Suc_append map_append concat_append
        list.map concat.simps append_Nil2 nth_append_length le0)
  then show ?thesis by simp
qed

text \<open>The form in which \<open>fifo.c\<close>, \<open>sjf.c\<close> and \<open>psjf.c\<close> send an amount.\<close>

definition chunk_text :: "int \<Rightarrow> string" where
  "chunk_text c = show_int c @ '' ''"

lemma sent_chunks: "sent f h = sum_list (chunks f h)"
proof (induction h rule: rev_induct)
  case (snoc e h)
  then show ?case by (cases e) simp_all
qed simp

lemma every_conj: "every (\<lambda>h e. P h e \<and> Q h e) h = (every P h \<and> every Q h)"
  by (auto simp: every_def)

lemma every_mono: "every P h \<Longrightarrow> (\<And>pre e. P pre e \<Longrightarrow> Q pre e) \<Longrightarrow> every Q h"
  by (auto simp: every_def)

lemma units_nonneg [simp]: "0 \<le> units s"
  by (simp add: units_def split: scanned.split)

lemma amount_nonneg [simp]: "0 \<le> amount f e"
  by (cases e) simp_all

lemma duration_nonneg [simp]: "0 \<le> duration e"
  by (cases e) simp_all

lemma sent_nonneg [simp]: "0 \<le> sent f h"
  by (induction h rule: rev_induct) (simp_all add: add_nonneg_nonneg)

lemma elapsed_nonneg [simp]: "0 \<le> elapsed h"
  by (induction h rule: rev_induct) (simp_all add: add_nonneg_nonneg)

lemma units_show_int [simp]: "units (show_int v @ '' '') = max 0 v"
  by (simp add: units_def scan_d_show_int)

lemma units_pad_blank [simp]: "units (pad_blank n (show_int v) @ '' '') = max 0 v"
  by (simp add: units_def scan_d_pad_blank)

text \<open>The pipes of a process, in the order in which it made them.\<close>

fun pipe_of :: "event \<Rightarrow> (int \<times> int) list" where
  "pipe_of (Ev_Pipe r s) = [(r, s)]"
| "pipe_of _ = []"

definition pipes :: "event list \<Rightarrow> (int \<times> int) list" where
  "pipes h = concat (map pipe_of h)"

lemma pipes_nil [simp]: "pipes [] = []"
  and pipes_snoc [simp]: "pipes (h @ [e]) = pipes h @ pipe_of e"
  by (simp_all add: pipes_def)

text \<open>Each wait of the parent, with the pipe it last wrote to and the time.\<close>

definition completions :: "event list \<Rightarrow> (int \<times> int) list" where
  "completions = collect (\<lambda>h e. case e of
       Ev_Wait _ \<Rightarrow> [(last_fd h, elapsed h)]
     | Ev_Waitpid _ _ \<Rightarrow> [(last_fd h, elapsed h)]
     | _ \<Rightarrow> [])"

lemma completions_nil [simp]: "completions [] = []"
  by (simp add: completions_def)

lemma completions_snoc [simp]: "completions (h @ [e]) = completions h @ (case e of
       Ev_Wait _ \<Rightarrow> [(last_fd h, elapsed h)]
     | Ev_Waitpid _ _ \<Rightarrow> [(last_fd h, elapsed h)]
     | _ \<Rightarrow> [])"
  by (simp add: completions_def)

end
