(* ===== verification/Print_Time.thy ===== *)
theory Print_Time
  imports Syscalls
begin

text \<open>
  \<open>prj1/printtime.h\<close>: the line that each scheduler hands to system call 314 when a job is done,
  built in a buffer of 100 bytes. Missing times (\<open>None\<close>) are memory the code never wrote.
\<close>

definition newline :: string where
  "newline = [CHR 0x0A]"

definition result_line :: "int \<Rightarrow> timespec \<Rightarrow> timespec \<Rightarrow> string" where
  "result_line pid t0 t1 =
     ''[Project1] '' @ show_int pid @ '' '' @
     show_int (tv_sec t0) @ ''.'' @ show_int_zero 9 (tv_nsec t0) @ '' '' @
     show_int (tv_sec t1) @ ''.'' @ show_int_zero 9 (tv_nsec t1) @ newline"

definition print_result :: "int \<Rightarrow> timespec option \<Rightarrow> timespec option \<Rightarrow> (process, unit) prog" where
  "print_result pid ts0 ts1 = (case ts0 of
       None \<Rightarrow> undef Uninitialised
     | Some t0 \<Rightarrow> (case ts1 of
         None \<Rightarrow> undef Uninitialised
       | Some t1 \<Rightarrow> bind (sprintf 100 (result_line pid t0 t1)) sys_myprint))"

lemma length_show_nat_le: "n < 10 ^ k \<Longrightarrow> 0 < k \<Longrightarrow> length (show_nat n) \<le> k"
  by (rule length_show_nat)

lemma length_show_sec: "0 \<le> v \<Longrightarrow> v < 10 ^ 18 \<Longrightarrow> length (show_int v) \<le> 18"
  using length_show_nat [of "nat v" 18] by (simp add: show_int_def nat_less_iff)

lemma length_show_nsec: "0 \<le> v \<Longrightarrow> v < 10 ^ 9 \<Longrightarrow> length (show_int_zero 9 v) = 9"
  using length_show_nat [of "nat v" 9] by (simp add: show_int_zero_def nat_less_iff)

lemma length_result_line:
  assumes "INT_MIN \<le> pid" "pid \<le> INT_MAX" "time_ok t0" "time_ok t1"
  shows "length (result_line pid t0 t1) \<le> 81"
  using assms length_show_int [of pid] length_show_sec [of "tv_sec t0"] length_show_sec [of "tv_sec t1"]
  by (simp add: result_line_def newline_def time_ok_def length_show_nsec)

lemma print_result_ok:
  assumes "INT_MIN \<le> pid" "pid \<le> INT_MAX" "time_ok t0" "time_ok t1"
  shows "wp (print_result pid (Some t0) (Some t1)) Q E w =
    Q () (log_event (Ev_Myprint (result_line pid t0 t1)) w)"
  using length_result_line [OF assms] by (simp add: print_result_def wp_rules)

end
