(* ===== verification/Fifo_Code.thy ===== *)
theory Fifo_Code
  imports Print_Time
begin

text \<open>
  \<open>prj1/fifo.c\<close>, function by function: the array of jobs, reading it, forking the jobs that become
  ready, deciding and assigning the next slice of time. Memory that \<open>malloc\<close> returns is
  indeterminate: the fields of a job that \<open>readFile\<close> does not write (\<open>pid\<close>, \<open>time\<close>) are \<open>None\<close>
  until they are assigned.
\<close>

record DATA =
  pid :: "int option"
  fd :: "int \<times> int"
  name :: string
  ready_time :: int
  execution_time :: int
  time0 :: "timespec option"
  time1 :: "timespec option"
  flag :: int

definition cmp :: "DATA \<Rightarrow> DATA \<Rightarrow> int" where
  "cmp aa bb =
    (if ready_time aa > ready_time bb then 1
     else if ready_time aa < ready_time bb then -1
     else 0)"

definition malloc_DATA :: "nat \<Rightarrow> DATA list" where
  "malloc_DATA N = replicate N \<lparr>pid = None, fd = (0, 0), name = [], ready_time = 0,
     execution_time = 0, time0 = None, time1 = None, flag = 0\<rparr>"

definition readJob :: "nat \<Rightarrow> DATA list \<Rightarrow> (process, DATA list) prog" where
  "readJob i scheduler =
     bind (scanf_s 32) (\<lambda>nm.
     bind scanf_d (\<lambda>ready.
     bind scanf_d (\<lambda>exec.
     bind sys_pipe (\<lambda>fds.
     andThen (set_cloexec (fst fds))
     (andThen (set_cloexec (snd fds))
     (bind (at scheduler i) (\<lambda>d.
     return (scheduler[i := d\<lparr>name := nm, ready_time := ready, execution_time := exec,
       fd := fds, flag := 1\<rparr>]))))))))"

definition readFile :: "nat \<Rightarrow> DATA list \<Rightarrow> (process, DATA list) prog" where
  "readFile N scheduler = forM [0..<N] readJob scheduler"

definition forkJob :: "DATA list \<times> nat \<Rightarrow> (process, DATA list \<times> nat) prog" where
  "forkJob = (\<lambda>(scheduler, nextforfork).
     bind sys_fork (\<lambda>p.
     bind (at scheduler nextforfork) (\<lambda>d.
     let scheduler = scheduler[nextforfork := d\<lparr>pid := Some p\<rparr>] in
     if p < 0 then andThen (eprint (''fork error'' @ newline)) (exit_with 1)
     else if p = 0 then
       bind (sprintf 100 (show_int (execution_time d))) (\<lambda>buffer.
       andThen (sys_dup2 (fst (fd d)) 0)
       (bind (sys_execl ''./child'' [''child'', name d, buffer]) (\<lambda>r.
        if r < 0 then andThen (eprint (''exec error'' @ newline)) (exit_with 2)
        else return (scheduler, nextforfork))))
     else andThen (sys_close (fst (fd d))) (return (scheduler, nextforfork + 1)))))"

definition executeFork :: "DATA list \<Rightarrow> nat \<Rightarrow> int \<Rightarrow> nat \<Rightarrow> (process, DATA list \<times> nat) prog" where
  "executeFork scheduler nextforfork clock N =
     whileM (\<lambda>(scheduler, nextforfork). nextforfork < N \<and> clock = ready_time (scheduler ! nextforfork))
       forkJob (scheduler, nextforfork)"

definition decideTime :: "DATA list \<Rightarrow> nat \<Rightarrow> nat \<Rightarrow> nat \<Rightarrow> int \<Rightarrow> (process, int) prog" where
  "decideTime scheduler N nextforfork Index clock =
     (if nextforfork = N then bind (at scheduler Index) (\<lambda>d. return (execution_time d))
      else
        bind (at scheduler nextforfork) (\<lambda>n.
        bind (sub_i (ready_time n) clock) (\<lambda>time1.
        bind (at scheduler Index) (\<lambda>d.
        let time2 = execution_time d in
        return (if time1 < time2 then time1 else time2)))))"

definition waitLoop :: "DATA list \<Rightarrow> nat \<Rightarrow> nat \<Rightarrow> nat \<Rightarrow> int \<Rightarrow> (process, int) prog" where
  "waitLoop scheduler N nextforfork Index clock =
     whileM (\<lambda>clock. nextforfork < N \<and> Index = nextforfork \<and> clock < ready_time (scheduler ! nextforfork))
       (\<lambda>clock. andThen spin (add_i clock 1)) clock"

definition assign :: "DATA list \<Rightarrow> nat \<Rightarrow> nat \<Rightarrow> nat \<Rightarrow> int \<Rightarrow> (process, DATA list \<times> nat \<times> int) prog" where
  "assign scheduler N nextforfork Index clock =
     bind (decideTime scheduler N nextforfork Index clock) (\<lambda>time.
     bind (sprintf 100 (show_int time @ '' '')) (\<lambda>buffer.
     bind (at scheduler Index) (\<lambda>d.
     andThen (sys_write (snd (fd d)) buffer)
     (case pid d of None \<Rightarrow> undef Uninitialised | Some p \<Rightarrow>
     bind (sys_setscheduler p 99) (\<lambda>r.
     if r < 0 then andThen (eprint (''sched_setscheduler error'' @ newline)) (exit_with 3)
     else
       bind (add_i clock time) (\<lambda>clock.
       bind (sub_i (execution_time d) time) (\<lambda>left.
       if left = 0 then
         bind sys_wait (\<lambda>_.
         bind sys_gettime (\<lambda>t.
         return (scheduler[Index := d\<lparr>execution_time := left, time1 := Some t\<rparr>], Index + 1, clock)))
       else return (scheduler[Index := d\<lparr>execution_time := left\<rparr>], Index, clock))))))))"

definition startJob :: "DATA list \<Rightarrow> nat \<Rightarrow> nat \<Rightarrow> (process, DATA list) prog" where
  "startJob scheduler Index nextforfork =
     bind (at scheduler Index) (\<lambda>d.
     if flag d \<noteq> 0 then bind sys_gettime (\<lambda>t. return (scheduler[Index := d\<lparr>time0 := Some t, flag := 0\<rparr>]))
     else return scheduler)"

definition FIFO_round :: "nat \<Rightarrow> DATA list \<times> nat \<times> nat \<times> int \<Rightarrow>
    (process, DATA list \<times> nat \<times> nat \<times> int) prog" where
  "FIFO_round N = (\<lambda>(scheduler, Index, nextforfork, clock).
     bind (waitLoop scheduler N nextforfork Index clock) (\<lambda>clock.
     bind (executeFork scheduler nextforfork clock N) (\<lambda>(scheduler, nextforfork).
     bind (startJob scheduler Index nextforfork) (\<lambda>scheduler.
     bind (assign scheduler N nextforfork Index clock) (\<lambda>(scheduler, Index, clock).
     return (scheduler, Index, nextforfork, clock))))))"

definition printJob :: "DATA list \<Rightarrow> nat \<Rightarrow> unit \<Rightarrow> (process, unit) prog" where
  "printJob scheduler i _ =
     bind (at scheduler i) (\<lambda>d.
     case pid d of None \<Rightarrow> undef Uninitialised | Some p \<Rightarrow> print_result p (time0 d) (time1 d))"

text \<open>
  A negative \<open>N\<close> would reach \<open>malloc\<close> and \<open>qsort\<close> as a huge \<open>size_t\<close>: \<open>Bad_Size\<close>.
\<close>

definition FIFO :: "(process, int) prog" where
  "FIFO =
     bind (sys_setscheduler 0 98) (\<lambda>_.
     bind scanf_d (\<lambda>n.
     if n < 0 then undef Bad_Size
     else let N = nat n in
       bind (readFile N (malloc_DATA N)) (\<lambda>scheduler.
       bind (whileM (\<lambda>(scheduler, Index, nextforfork, clock). Index < N) (FIFO_round N)
              (qsort cmp scheduler, 0, 0, 0)) (\<lambda>(scheduler, Index, nextforfork, clock).
       andThen (forM [0..<N] (printJob scheduler) ())
       (return 0)))))"

end
