(* ===== verification/Child.thy ===== *)
theory Child
  imports Print_Time
begin

text \<open>
  \<open>prj1/child.c\<close>: a job. It reads amounts of time from its standard input (the pipe of the
  scheduler), spins for each, and after each lowers its own priority to 97 to give the processor
  back. It exits with 0 once it has spun for its execution time, with 2 when its input ends first; while the
  scheduler has the pipe open and has written too little it waits. It is started with both arguments.
\<close>

section \<open>The program\<close>

definition msg_eof :: "int \<Rightarrow> string \<Rightarrow> string" where
  "msg_eof pid arg1 = ''children'' @ show_int pid @ '': '' @ arg1 @ '' read EOF or error'' @ newline"

definition msg_sched :: "int \<Rightarrow> string \<Rightarrow> string" where
  "msg_sched pid arg1 = ''children'' @ show_int pid @ '': '' @ arg1 @ '' set sched err'' @ newline"

definition msg_done :: "int \<Rightarrow> string \<Rightarrow> string" where
  "msg_done pid arg1 = arg1 @ '' '' @ show_int pid @ newline"

primrec burn :: "nat \<Rightarrow> int \<Rightarrow> (process, int) prog" where
  "burn 0 execution_time = return execution_time"
| "burn (Suc j) execution_time =
     andThen spin (bind (sub_i execution_time 1) (\<lambda>execution_time. burn j execution_time))"

definition child_round :: "string \<Rightarrow> int \<Rightarrow> int \<Rightarrow> (process, int) prog" where
  "child_round arg1 pid execution_time =
     bind scanf_d_ret (\<lambda>(ret, x).
     if ret = -1 \<or> ret = 0 then
       andThen (eprint (msg_eof pid arg1)) (exit_with 2)
     else case x of None \<Rightarrow> undef Uninitialised | Some x \<Rightarrow>
       bind (burn (nat x) execution_time) (\<lambda>execution_time.
       if execution_time \<le> 0 then
         andThen (print (msg_done pid arg1)) (exit_with 0)
       else
         bind (sys_setscheduler 0 97) (\<lambda>r.
         if r < 0 then
           andThen (eprint (msg_sched pid arg1)) (exit_with 1)
         else return execution_time)))"

definition child_main :: "string \<Rightarrow> string \<Rightarrow> (process, int) prog" where
  "child_main arg1 arg2 =
     bind getpid (\<lambda>pid.
     bind (atoi arg2) (\<lambda>execution_time.
     andThen (whileM (\<lambda>_. True) (child_round arg1 pid) execution_time)
     (return 0)))"

section \<open>One round\<close>

lemma wp_burn:
  assumes "INT_MIN \<le> e - int n" "e \<le> INT_MAX"
  shows "wp (burn n e) Q E w = Q (e - int n) (w\<lparr>trace := trace w @ replicate n Ev_Spin\<rparr>)"
  using assms
proof (induction n arbitrary: e w)
  case (Suc n)
  then show ?case
    by (simp add: wp_rules algebra_simps)
qed (simp add: wp_rules)

lemma elapsed_append [simp]: "elapsed (h @ h') = elapsed h + elapsed h'"
  by (simp add: elapsed_def)

lemma elapsed_single [simp]: "elapsed [e] = duration e"
  by (simp add: elapsed_def)

lemma elapsed_spins [simp]: "elapsed (replicate n Ev_Spin) = int n"
  by (simp add: elapsed_def sum_list_replicate)

text \<open>
  The input holds exactly the numbers \<open>cs\<close>, as \<open>%d\<close> reads them one after the other; on a pipe that is open (\<open>op\<close>)
  each has a byte behind it, so that reading it does not block.
\<close>

fun reads :: "bool \<Rightarrow> string \<Rightarrow> int list \<Rightarrow> bool" where
  "reads op s [] = (scan_d s = Scan_EOF)"
| "reads op s (c # cs) = (case scan_d s of Scan_Int v r \<Rightarrow> v = c \<and> (op \<longrightarrow> r \<noteq> []) \<and> reads op r cs | _ \<Rightarrow> False)"

lemma reads_Cons: "reads op s (c # cs) \<longleftrightarrow> (\<exists>r. scan_d s = Scan_Int c r \<and> (op \<longrightarrow> r \<noteq> []) \<and> reads op r cs)"
  by (auto split: scanned.split)

declare reads.simps(2) [simp del]

lemma reads_blank [simp]: "reads op (CHR '' '' # s) cs = reads op s cs"
  by (cases cs) (simp_all add: reads_Cons)

lemma wp_scanf_d_ret_int:
  "scan_d (stdin w) = Scan_Int c r \<Longrightarrow> \<not> blocks w r \<Longrightarrow> INT_MIN \<le> c \<Longrightarrow> c \<le> INT_MAX \<Longrightarrow>
    wp scanf_d_ret Q E w = Q (1, Some c) (w\<lparr>stdin := r\<rparr>)"
  by (simp add: wp_def scanf_d_ret_def bind_def checked_def return_def)

lemma wp_scanf_d_ret_eof:
  "scan_d (stdin w) = Scan_EOF \<Longrightarrow> \<not> stdin_open w \<Longrightarrow> wp scanf_d_ret Q E w = Q (-1, None) (w\<lparr>stdin := []\<rparr>)"
  by (simp add: wp_def scanf_d_ret_def blocks_def)

text \<open>A chunk that completes the job ends the child; any other lowers its priority.\<close>

lemma child_round_last:
  assumes "scan_d (stdin w) = Scan_Int c r" "\<not> blocks w r" "0 \<le> c" "c \<le> INT_MAX" "0 \<le> e" "e \<le> c"
  shows "wp (child_round name p e) Q E w = E (Exited 0)
    (w\<lparr>stdin := r, trace := trace w @ replicate (nat c) Ev_Spin @
        [Ev_Stdout (msg_done p name)]\<rparr>)"
  using assms by (simp add: child_round_def wp_rules wp_scanf_d_ret_int wp_burn)

lemma child_round_more:
  assumes "scan_d (stdin w) = Scan_Int c r" "\<not> blocks w r" "0 \<le> c" "c < e" "e \<le> INT_MAX" "os_ok (sys w)"
  shows "wp (child_round name p e) Q E w = Q (e - c)
    (w\<lparr>stdin := r, trace := trace w @ replicate (nat c) Ev_Spin @
       [Ev_Setscheduler 0 97 (setscheduler_ret (sys w) (trace w @ replicate (nat c) Ev_Spin) 0 97)]\<rparr>)"
  using assms os_ok_setscheduler [OF assms(6), of "trace w @ replicate (nat c) Ev_Spin" 0 97]
  by (simp add: child_round_def wp_rules wp_scanf_d_ret_int wp_burn)

lemma child_round_eof:
  assumes "scan_d (stdin w) = Scan_EOF" "\<not> stdin_open w"
  shows "wp (child_round name p e) Q E w = E (Exited 2) (w\<lparr>stdin := [],
    trace := trace w @ [Ev_Stderr (msg_eof p name)]\<rparr>)"
  using assms by (simp add: child_round_def wp_rules wp_scanf_d_ret_eof)

lemma wp_forever:
  "wp (whileM (\<lambda>_. True) c s) Q E w = wp (c s) (\<lambda>s'. wp (whileM (\<lambda>_. True) c s') Q E) E w"
  by (subst whileM_step) (simp_all add: wp_bind)

section \<open>Whole runs\<close>

text \<open>What a child whose whole input is \<open>cs\<close> does, if \<open>cs\<close> is enough.\<close>

lemma child_loop_completes:
  assumes "cs \<noteq> []" "\<And>c. c \<in> set cs \<Longrightarrow> 0 \<le> c \<and> c \<le> INT_MAX"
    and "length cs = 1 \<or> sum_list (butlast cs) < e" "e \<le> sum_list cs" "0 \<le> e" "e \<le> INT_MAX"
    and "os_ok (sys w)" "reads (stdin_open w) (stdin w) cs"
  shows "wp (whileM (\<lambda>_. True) (child_round name p) e) (\<lambda>_ _. False)
    (\<lambda>s w'. s = Exited 0 \<and> reads (stdin_open w) (stdin w') [] \<and> elapsed (trace w') = elapsed (trace w) + sum_list cs \<and>
       last (trace w') = Ev_Stdout (msg_done p name)) w"
  using assms
proof (induction cs arbitrary: e w)
  case (Cons c cs)
  obtain r where scan: "scan_d (stdin w) = Scan_Int c r" "\<not> blocks w r" and r: "reads (stdin_open w) r cs"
    using Cons.prems(8) by (auto simp: reads_Cons blocks_def)
  have c: "0 \<le> c" "c \<le> INT_MAX" using Cons.prems(2) [of c] by auto
  show ?case
  proof (cases "cs = []")
    case True
    with Cons.prems(4,5) c scan r show ?thesis
      by (subst wp_forever, subst child_round_last) auto
  next
    case False
    have "0 \<le> sum_list (butlast cs)"
      using Cons.prems(2) by (intro sum_list_nonneg) (auto dest: in_set_butlastD)
    with False Cons.prems have "sum_list (butlast cs) < e - c" "e - c \<le> sum_list cs" "c < e"
      by auto
    moreover have ec: "e - c \<le> INT_MAX" using c(1) Cons.prems(6) by linarith
    ultimately show ?thesis using False Cons.prems c r
      by (subst wp_forever, subst child_round_more [OF scan])
        (auto intro!: wp_mono [OF Cons.IH [OF _ _ _ _ _ ec]])
  qed
qed simp

end
