(* ===== verification/Schedules.thy ===== *)
theory Schedules
  imports Child
begin

text \<open>
  Abstract specifications of a schedule. A \<open>job\<close> is one line of the workload together with the
  two descriptors of its pipe. \<open>obeys run_ok jobs\<close> is the check of one event of a trace that all
  the schedulers share: idle only when every arrived job is done, admit a job exactly at its ready
  time, give a job only time it still needs, wait only for a child that is about to exit. The
  parameter \<open>run_ok\<close> is the policy: which job may get the processor now.

  The last section connects a trace with \<open>child.c\<close>: when the parent waits, the child that it wrote
  to last has just what it needs to exit with status 0.
\<close>

record job =
  jname :: string
  jrd :: int
  jwr :: int
  jready :: int
  jexec :: int

text \<open>A workload as it is written: name, ready time and execution time of each job.\<close>

type_synonym workload = "(string \<times> int \<times> int) list"

definition jobs_of :: "workload \<Rightarrow> event list \<Rightarrow> job list" where
  "jobs_of ws h = map2 (\<lambda>(n, r, e) (a, b). \<lparr>jname = n, jrd = a, jwr = b, jready = r, jexec = e\<rparr>) ws (pipes h)"

definition arrived :: "event list \<Rightarrow> job \<Rightarrow> bool" where
  "arrived h j = (jready j \<le> elapsed h)"

definition finished :: "event list \<Rightarrow> job \<Rightarrow> bool" where
  "finished h j = (sent (jwr j) h = jexec j)"

definition started :: "event list \<Rightarrow> job \<Rightarrow> bool" where
  "started h j = (chunks (jwr j) h \<noteq> [])"

definition job_left :: "event list \<Rightarrow> job \<Rightarrow> int" where
  "job_left h j = jexec j - sent (jwr j) h"

definition is_chunk :: "string \<Rightarrow> int \<Rightarrow> bool" where
  "is_chunk s c = (0 \<le> c \<and> c \<le> INT_MAX \<and>
     (s = chunk_text c \<or> s = pad_blank 12 (show_int c) @ '' ''))"

type_synonym policy = "job list \<Rightarrow> event list \<Rightarrow> job \<Rightarrow> int \<Rightarrow> bool"

definition may_write :: "policy \<Rightarrow> job list \<Rightarrow> event list \<Rightarrow> int \<Rightarrow> string \<Rightarrow> job \<Rightarrow> bool" where
  "may_write run_ok jobs h f s j =
     (jwr j = f \<and> is_chunk s (units s) \<and> arrived h j \<and>
      sent f h + units s \<le> jexec j \<and> (\<not> started h j \<or> \<not> finished h j) \<and> run_ok jobs h j (units s))"

definition may_wait :: "event list \<Rightarrow> job \<Rightarrow> bool" where
  "may_wait h j = (jwr j = last_fd h \<and> started h j \<and> finished h j)"

fun obeys :: "policy \<Rightarrow> job list \<Rightarrow> event list \<Rightarrow> event \<Rightarrow> bool" where
  "obeys run_ok jobs h Ev_Spin = (\<forall>j \<in> set jobs. arrived h j \<longrightarrow> finished h j)"
| "obeys run_ok jobs h (Ev_Close f) = (\<forall>j \<in> set jobs. jrd j = f \<longrightarrow> jready j = elapsed h)"
| "obeys run_ok jobs h (Ev_Write f s) = (\<exists>j \<in> set jobs. may_write run_ok jobs h f s j)"
| "obeys run_ok jobs h (Ev_Wait r) = (\<exists>j \<in> set jobs. may_wait h j)"
| "obeys run_ok jobs h (Ev_Waitpid p r) = (\<exists>j \<in> set jobs. may_wait h j)"
| "obeys run_ok jobs h _ = True"

definition workload_ok :: "job list \<Rightarrow> bool" where
  "workload_ok jobs = (distinct (map jwr jobs) \<and> distinct (map jrd jobs) \<and>
     (\<forall>j \<in> set jobs. 0 \<le> jready j \<and> 0 \<le> jexec j \<and>
        jready j + sum_list (map jexec jobs) \<le> INT_MAX))"

lemma workload_okD:
  assumes "workload_ok jobs" and "j \<in> set jobs"
  shows "0 \<le> jready j" "0 \<le> jexec j" "jready j + sum_list (map jexec jobs) \<le> INT_MAX"
  using assms by (auto simp: workload_ok_def)

lemma distinct_map_eqD: "distinct (map f xs) \<Longrightarrow> x \<in> set xs \<Longrightarrow> y \<in> set xs \<Longrightarrow> f x = f y \<Longrightarrow> x = y"
  by (auto simp: distinct_map inj_on_def)

lemma workload_ok_unique:
  "workload_ok jobs \<Longrightarrow> j \<in> set jobs \<Longrightarrow> k \<in> set jobs \<Longrightarrow> jwr j = jwr k \<Longrightarrow> j = k"
  "workload_ok jobs \<Longrightarrow> j \<in> set jobs \<Longrightarrow> k \<in> set jobs \<Longrightarrow> jrd j = jrd k \<Longrightarrow> j = k"
  by (auto simp: workload_ok_def dest: distinct_map_eqD)

lemma elem_le_sum_list:
  fixes f :: "'a \<Rightarrow> int"
  assumes "x \<in> set xs" "\<And>y. y \<in> set xs \<Longrightarrow> 0 \<le> f y"
  shows "f x \<le> sum_list (map f xs)"
proof -
  obtain ys zs where "xs = ys @ x # zs" using split_list [OF assms(1)] by blast
  moreover from this have "0 \<le> sum_list (map f ys)" "0 \<le> sum_list (map f zs)"
    using assms(2) by (auto intro!: sum_list_nonneg)
  ultimately show ?thesis by simp
qed

lemma workload_ok_exec:
  assumes "workload_ok jobs" "j \<in> set jobs"
  shows "jexec j \<le> sum_list (map jexec jobs)" "jexec j \<le> INT_MAX" "jready j \<le> INT_MAX"
proof -
  show "jexec j \<le> sum_list (map jexec jobs)"
    using assms by (intro elem_le_sum_list) (auto dest: workload_okD(2))
  then show "jexec j \<le> INT_MAX" "jready j \<le> INT_MAX"
    using workload_okD [OF assms] by auto
qed

lemma is_chunk_text [simp]: "0 \<le> c \<Longrightarrow> c \<le> INT_MAX \<Longrightarrow> is_chunk (chunk_text c) c"
  by (simp add: is_chunk_def)

lemma units_chunk_text [simp]: "0 \<le> c \<Longrightarrow> units (chunk_text c) = c"
  by (simp add: chunk_text_def)

section \<open>A job that the parent waits for\<close>

lemma scan_is_chunk:
  assumes "is_chunk s c" shows "scan_d (s @ r) = Scan_Int c (CHR '' '' # r)"
  using assms scan_d_show_int [of "CHR '' '' # r" c] scan_d_pad_blank [of "CHR '' '' # r" 12 c]
  by (auto simp: is_chunk_def chunk_text_def)

lemma reads_concat: "list_all2 is_chunk ts cs \<Longrightarrow> reads op (concat ts) cs"
proof (induction ts arbitrary: cs)
  case (Cons t ts)
  then obtain c cs' where "cs = c # cs'" "is_chunk t c" "list_all2 is_chunk ts cs'"
    by (auto simp: list_all2_Cons1)
  with Cons.IH show ?case
    by (simp add: reads_Cons scan_is_chunk)
qed simp

text \<open>
  Along a trace that obeys a policy, the writes to a job's pipe are amounts it still needs: before
  each of them but the first the job is unfinished, and they never exceed its execution time.
\<close>

definition fed_well :: "event list \<Rightarrow> job \<Rightarrow> bool" where
  "fed_well h j =
     (list_all2 is_chunk (writes (jwr j) h) (chunks (jwr j) h) \<and>
      sent (jwr j) h \<le> jexec j \<and>
      (length (chunks (jwr j) h) \<le> 1 \<or> sum_list (butlast (chunks (jwr j) h)) < jexec j))"

lemma obeys_fed_well:
  assumes "workload_ok jobs" "j \<in> set jobs" "every (obeys run_ok jobs) h"
  shows "fed_well h j"
  using assms(3)
proof (induction h rule: rev_induct)
  case Nil
  then show ?case using assms workload_okD(2) by (simp add: fed_well_def)
next
  case (snoc e h)
  then have IH: "fed_well h j" and e: "obeys run_ok jobs h e" by simp_all
  show ?case
  proof (cases "\<exists>s. e = Ev_Write (jwr j) s")
    case False
    then have "written (jwr j) e = []" "amount (jwr j) e = 0" by (cases e; auto)+
    with IH show ?thesis by (simp add: fed_well_def)
  next
    case True
    then obtain s where s: "e = Ev_Write (jwr j) s" by blast
    with e obtain k where "k \<in> set jobs" "may_write run_ok jobs h (jwr j) s k" by auto
    then have "may_write run_ok jobs h (jwr j) s j"
      using assms workload_ok_unique(1) [of jobs k j] by (simp add: may_write_def)
    with IH s show ?thesis
      by (auto simp: fed_well_def may_write_def started_def finished_def sent_chunks [symmetric]
          intro!: list_all2_appendI)
  qed
qed

text \<open>
  A child of that job, run by itself on the text the parent has put into its pipe so far, exits
  with 0 and has read all of it; with less it would still be waiting for input.
\<close>

lemma fed_child_runs:
  assumes fed: "fed_well h j" and exec: "0 \<le> jexec j" "jexec j \<le> INT_MAX"
    and fin: "started h j" "finished h j"
    and w: "os_ok (sys w)" "stdin w = pipe_input (jwr j) h"
  shows "wp (child_main (jname j) (show_int (jexec j))) (\<lambda>_ _. False)
    (\<lambda>s w'. s = Exited 0 \<and> reads (stdin_open w) (stdin w') [] \<and>
       elapsed (trace w') = elapsed (trace w) + jexec j) w"
proof -
  let ?cs = "chunks (jwr j) h"
  have sum: "sum_list ?cs = jexec j" and ne: "?cs \<noteq> []"
    using fin by (simp_all add: finished_def started_def sent_chunks)
  have bounds: "0 \<le> c \<and> c \<le> INT_MAX" if "c \<in> set ?cs" for c
    using fed that by (auto simp: fed_well_def list_all2_conv_all_nth in_set_conv_nth is_chunk_def)
  have "reads (stdin_open w) (stdin w) ?cs"
    using fed w by (simp add: fed_well_def pipe_input_def reads_concat)
  moreover have "length ?cs = 1 \<or> sum_list (butlast ?cs) < jexec j"
    using fed ne by (cases ?cs) (auto simp: fed_well_def)
  ultimately have "wp (whileM (\<lambda>_. True) (child_round (jname j) (own_pid (sys w))) (jexec j)) (\<lambda>_ _. False)
      (\<lambda>s w'. s = Exited 0 \<and> reads (stdin_open w) (stdin w') [] \<and> elapsed (trace w') = elapsed (trace w) + sum_list ?cs \<and>
         last (trace w') = Ev_Stdout (msg_done (own_pid (sys w)) (jname j))) w"
    using ne bounds sum exec w(1) by (intro child_loop_completes) auto
  moreover have "atoi (show_int (jexec j)) = (return (jexec j) :: (process, int) prog)" using exec by (intro atoi_show_int) auto
  ultimately show ?thesis
    using sum by (auto simp: child_main_def wp_rules elim: wp_mono)
qed

text \<open>
  \<open>child_exits j h\<close>: after the trace \<open>h\<close>, a process that runs \<open>child.c\<close> with the arguments of the
  job and the text written to its pipe so far as its input exits with 0, and takes the job's time. This holds
  whether or not the pipe is still open; on an open pipe it says that the text is enough not to block.
\<close>

definition child_exits :: "job \<Rightarrow> event list \<Rightarrow> bool" where
  "child_exits j h = (\<forall>c. os_ok (sys c) \<longrightarrow> stdin c = pipe_input (jwr j) h \<longrightarrow>
     (\<exists>c'. child_main (jname j) (show_int (jexec j)) c = Some (Halt (Exited 0), c') \<and>
        elapsed (trace c') = elapsed (trace c) + jexec j))"

fun is_wait :: "event \<Rightarrow> bool" where
  "is_wait (Ev_Wait r) = True"
| "is_wait (Ev_Waitpid p r) = True"
| "is_wait _ = False"

fun_cases is_waitE: "is_wait e"

lemma fed_child_exits:
  assumes "fed_well h j" "0 \<le> jexec j" "jexec j \<le> INT_MAX" "started h j" "finished h j"
  shows "child_exits j h"
  using fed_child_runs [OF assms] unfolding child_exits_def wp_halts by blast

lemma waits_child_exits:
  assumes "workload_ok jobs" "j \<in> set jobs" "every (obeys run_ok jobs) h" "may_wait h j"
  shows "child_exits j h"
  using fed_child_exits [OF obeys_fed_well [OF assms(1-3)] workload_okD(2) [OF assms(1,2)]
      workload_ok_exec(2) [OF assms(1,2)]] assms(4) by (simp add: may_wait_def)

lemma every_prefix: "every P h \<Longrightarrow> i \<le> length h \<Longrightarrow> every P (take i h)"
  by (auto simp: every_def min_def)

lemma obeys_children_exit:
  assumes "workload_ok jobs" "every (obeys run_ok jobs) h"
  shows "every (\<lambda>h e. is_wait e \<longrightarrow> (\<exists>j \<in> set jobs. jwr j = last_fd h \<and> child_exits j h)) h"
  unfolding every_def
proof (intro allI impI)
  fix i assume i: "i < length h" and wait: "is_wait (h ! i)"
  have "obeys run_ok jobs (take i h) (h ! i)" using assms(2) i by (simp add: every_def)
  with wait obtain j where j: "j \<in> set jobs" "may_wait (take i h) j" by (elim is_waitE) auto
  then have "child_exits j (take i h)"
    using waits_child_exits [OF assms(1) j(1) every_prefix [OF assms(2)]] i by simp
  then show "\<exists>j \<in> set jobs. jwr j = last_fd (take i h) \<and> child_exits j (take i h)"
    using j by (auto simp: may_wait_def)
qed

text \<open>A time that the code has recorded.\<close>

definition recorded :: "timespec option \<Rightarrow> bool" where
  "recorded t = (\<exists>v. t = Some v \<and> time_ok v)"

section \<open>What a printed line records\<close>

text \<open>
  Two events that follow each other in a trace, with what came before them. The three instances say
  where the numbers of a result line come from: the fork whose parent then closes the read end of
  the job's pipe, the clock read just before the first write to that pipe, the clock read right
  after the wait that follows the last write.
\<close>

definition in_turn :: "(event list \<Rightarrow> event \<Rightarrow> event \<Rightarrow> bool) \<Rightarrow> event list \<Rightarrow> bool" where
  "in_turn P h = (\<exists>i < length h - 1. P (take i h) (h ! i) (h ! Suc i))"

lemma in_turn_new: "P h e e' \<Longrightarrow> in_turn P (h @ [e, e'])"
  by (auto simp: in_turn_def nth_append intro!: exI [of _ "length h"])

lemma in_turn_more: "in_turn P h \<Longrightarrow> in_turn P (h @ g)"
  by (force simp: in_turn_def nth_append)

definition forked_as :: "event list \<Rightarrow> int \<Rightarrow> int \<Rightarrow> bool" where
  "forked_as h r p = in_turn (\<lambda>_ e e'. e = Ev_Fork p \<and> e' = Ev_Close r) h"

definition started_at :: "event list \<Rightarrow> int \<Rightarrow> timespec \<Rightarrow> bool" where
  "started_at h f t = in_turn (\<lambda>g e e'. e = Ev_Gettime t \<and> chunks f g = [] \<and> written f e' \<noteq> []) h"

definition ended_at :: "event list \<Rightarrow> int \<Rightarrow> timespec \<Rightarrow> bool" where
  "ended_at h f t = in_turn (\<lambda>g e e'. is_wait e \<and> last_fd g = f \<and> chunks f g \<noteq> [] \<and> e' = Ev_Gettime t) h"

lemma stamps_more:
  "forked_as h r p \<Longrightarrow> forked_as (h @ g) r p" "started_at h f t \<Longrightarrow> started_at (h @ g) f t"
  "ended_at h f t \<Longrightarrow> ended_at (h @ g) f t"
  by (simp_all add: forked_as_def started_at_def ended_at_def in_turn_more)

text \<open>The line of a job: process id, start and end as the trace has them.\<close>

definition line_of_job :: "event list \<Rightarrow> job \<Rightarrow> string \<Rightarrow> bool" where
  "line_of_job h j l = (\<exists>p t0 t1. l = result_line p t0 t1 \<and> forked_as h (jrd j) p \<and>
     started_at h (jwr j) t0 \<and> ended_at h (jwr j) t1)"

lemma line_of_job_more: "line_of_job h j l \<Longrightarrow> line_of_job (h @ g) j l"
  unfolding line_of_job_def by (blast intro: stamps_more)

text \<open>Before its first slice the start of a job has just been read from the clock.\<close>

definition stamped :: "event list \<Rightarrow> int \<Rightarrow> timespec option \<Rightarrow> bool" where
  "stamped h f t0 = (chunks f h = [] \<longrightarrow>
     (\<exists>g t. h = g @ [Ev_Gettime t] \<and> chunks f g = [] \<and> t0 = Some t))"

lemma stamped_write:
  assumes "stamped h f t0" "chunks f h \<noteq> [] \<Longrightarrow> started_at h f (the t0)"
  shows "started_at (h @ [Ev_Write f x]) f (the t0)"
proof (cases "chunks f h = []")
  case True
  with assms(1) obtain g t where "h = g @ [Ev_Gettime t]" "chunks f g = []" "t0 = Some t"
    by (auto simp: stamped_def)
  then show ?thesis by (simp add: started_at_def in_turn_new)
qed (use assms(2) in \<open>simp add: stamps_more\<close>)

text \<open>The clock is read right after a wait.\<close>

lemma ended_at_new: "is_wait e \<Longrightarrow> chunks (last_fd h) h \<noteq> [] \<Longrightarrow> ended_at ((h @ [e]) @ [Ev_Gettime t]) (last_fd h) t"
  by (simp add: ended_at_def in_turn_new)

text \<open>The process ids of the forks and the printed lines of a trace, in order.\<close>

fun forked_pid :: "event \<Rightarrow> int list" where
  "forked_pid (Ev_Fork p) = [p]"
| "forked_pid _ = []"

fun printed_line :: "event \<Rightarrow> string list" where
  "printed_line (Ev_Myprint l) = [l]"
| "printed_line _ = []"

definition fork_pids :: "event list \<Rightarrow> int list" where
  "fork_pids h = concat (map forked_pid h)"

definition printed :: "event list \<Rightarrow> string list" where
  "printed h = concat (map printed_line h)"

lemma fork_pids_append [simp]: "fork_pids (h @ g) = fork_pids h @ fork_pids g"
  and printed_append [simp]: "printed (h @ g) = printed h @ printed g"
  and fork_pids_one [simp]: "fork_pids (e # h) = forked_pid e @ fork_pids h" "fork_pids [] = []"
  and printed_one [simp]: "printed (e # h) = printed_line e @ printed h" "printed [] = []"
  by (simp_all add: fork_pids_def printed_def)

definition nth_fork :: "event list \<Rightarrow> nat \<Rightarrow> int \<Rightarrow> bool" where
  "nth_fork h i p = (i < length (fork_pids h) \<and> fork_pids h ! i = p)"

lemma nth_fork_more: "nth_fork h i p \<Longrightarrow> nth_fork (h @ g) i p"
  by (simp add: nth_fork_def nth_append)

text \<open>The line of the job that was forked as the \<open>i\<close>-th.\<close>

definition line_of_nth :: "event list \<Rightarrow> nat \<Rightarrow> int \<Rightarrow> string \<Rightarrow> bool" where
  "line_of_nth h i f l = (\<exists>p t0 t1. l = result_line p t0 t1 \<and> nth_fork h i p \<and>
     started_at h f t0 \<and> ended_at h f t1)"

lemma line_of_nth_more: "line_of_nth h i f l \<Longrightarrow> line_of_nth (h @ g) i f l"
  unfolding line_of_nth_def by (blast intro: stamps_more nth_fork_more)

lemma lines_more:
  assumes "list_all2 (\<lambda>i. line_of_nth h i (f i)) D ls" "\<And>i. i \<in> set D \<Longrightarrow> f' i = f i"
  shows "list_all2 (\<lambda>i. line_of_nth (h @ g) i (f' i)) D ls"
  using assms(1) by (rule list.rel_mono_strong) (simp add: assms(2) line_of_nth_more)

end
