(* ===== verification/Batch_Engine.thy ===== *)
theory Batch_Engine
  imports Fifo_Code Schedules
begin

text \<open>
  The proof engine that \<open>fifo.c\<close> and \<open>sjf.c\<close> share. Both keep one array of jobs with two
  indices into it (the running job and the next one to fork) and differ in how a job is chosen.
  The locale \<open>batch_policy\<close> is the contract of a choice; inside it, one round of the main loop is
  shown to keep the invariant \<open>batch_inv\<close> and to make progress.
\<close>

section \<open>Jobs behind the array\<close>

definition job_of :: "event list \<Rightarrow> DATA \<Rightarrow> job" where
  "job_of h d = \<lparr>jname = name d, jrd = fst (fd d), jwr = snd (fd d), jready = ready_time d,
     jexec = execution_time d + sent (snd (fd d)) h\<rparr>"

definition view :: "DATA \<Rightarrow> int \<times> int \<times> int" where
  "view d = (snd (fd d), ready_time d, execution_time d)"

lemma job_of_simps [simp]:
  "jname (job_of h d) = name d" "jrd (job_of h d) = fst (fd d)" "jwr (job_of h d) = snd (fd d)"
  "jready (job_of h d) = ready_time d" "jexec (job_of h d) = execution_time d + sent (snd (fd d)) h"
  by (simp_all add: job_of_def)

text \<open>What the code keeps true of the job at position \<open>i\<close>.\<close>

definition slot :: "nat \<Rightarrow> nat \<Rightarrow> int \<Rightarrow> event list \<Rightarrow> nat \<Rightarrow> DATA \<Rightarrow> bool" where
  "slot I nff c h i d =
    (0 \<le> execution_time d \<and> flag d \<in> {0, 1} \<and>
     (i < nff \<longrightarrow> ready_time d \<le> c \<and>
        (\<exists>p. pid d = Some p \<and> 0 < p \<and> p \<le> INT_MAX \<and> forked_as h (fst (fd d)) p)) \<and>
     (nff \<le> i \<longrightarrow> c \<le> ready_time d) \<and>
     (i < I \<longrightarrow> execution_time d = 0 \<and> chunks (snd (fd d)) h \<noteq> [] \<and> recorded (time0 d) \<and>
        recorded (time1 d) \<and> ended_at h (snd (fd d)) (the (time1 d))) \<and>
     (i = I \<longrightarrow> flag d = 0 \<longrightarrow> i < nff \<and> recorded (time0 d) \<and>
        (0 < execution_time d \<or> chunks (snd (fd d)) h = [])) \<and>
     (I < i \<longrightarrow> flag d = 1) \<and>
     (I \<le> i \<longrightarrow> flag d = 1 \<longrightarrow> chunks (snd (fd d)) h = []) \<and>
     (chunks (snd (fd d)) h \<noteq> [] \<longrightarrow> started_at h (snd (fd d)) (the (time0 d))))"

definition batch_inv :: "policy \<Rightarrow> ((int \<times> int \<times> int) list \<Rightarrow> nat \<Rightarrow> int \<Rightarrow> (int \<times> int) list \<Rightarrow> bool) \<Rightarrow>
    job list \<Rightarrow> DATA list \<Rightarrow> nat \<Rightarrow> nat \<Rightarrow> int \<Rightarrow> process \<Rightarrow> bool" where
  "batch_inv run_ok extra jobs s I nff c w =
    (os_ok (sys w) \<and> workload_ok jobs \<and> mset (map (job_of (trace w)) s) = mset jobs \<and>
     I \<le> nff \<and> nff \<le> length s \<and>
     c = elapsed (trace w) \<and> 0 \<le> c \<and> c + sum_list (map execution_time s) \<le> INT_MAX \<and>
     sorted (map ready_time (drop nff s)) \<and>
     (\<forall>i < length s. slot I nff c (trace w) i (s ! i)) \<and>
     every (obeys run_ok jobs) (trace w) \<and>
     extra (map view s) I c (completions (trace w)) \<and>
     map fst (completions (trace w)) = map (\<lambda>d. snd (fd d)) (take I s) \<and> printed (trace w) = [] \<and>
     pipes (trace w) = map (\<lambda>j. (jrd j, jwr j)) jobs)"

lemma batch_invD:
  assumes "batch_inv run_ok extra jobs s I nff c w"
  shows "os_ok (sys w)" "workload_ok jobs" "mset (map (job_of (trace w)) s) = mset jobs"
    "I \<le> nff" "nff \<le> length s" "c = elapsed (trace w)" "0 \<le> c"
    "c + sum_list (map execution_time s) \<le> INT_MAX" "sorted (map ready_time (drop nff s))"
    "\<And>i. i < length s \<Longrightarrow> slot I nff c (trace w) i (s ! i)" "every (obeys run_ok jobs) (trace w)"
    "extra (map view s) I c (completions (trace w))"
    "pipes (trace w) = map (\<lambda>j. (jrd j, jwr j)) jobs"
    "map fst (completions (trace w)) = map (\<lambda>d. snd (fd d)) (take I s)" "printed (trace w) = []"
  using assms by (auto simp: batch_inv_def)

lemma slotD:
  assumes "slot I nff c h i d"
  shows "0 \<le> execution_time d" "i < nff \<Longrightarrow> ready_time d \<le> c"
    "i < nff \<Longrightarrow> \<exists>p. pid d = Some p \<and> 0 < p \<and> p \<le> INT_MAX" "nff \<le> i \<Longrightarrow> c \<le> ready_time d"
    "i < I \<Longrightarrow> execution_time d = 0" "I < i \<Longrightarrow> flag d = 1"
    "flag d = 0 \<or> flag d = 1" "I \<le> i \<Longrightarrow> flag d = 1 \<Longrightarrow> chunks (snd (fd d)) h = []"
    "i < I \<Longrightarrow> chunks (snd (fd d)) h \<noteq> []"
    "i < nff \<Longrightarrow> forked_as h (fst (fd d)) (the (pid d))"
    "i < I \<Longrightarrow> ended_at h (snd (fd d)) (the (time1 d))"
    "chunks (snd (fd d)) h \<noteq> [] \<Longrightarrow> started_at h (snd (fd d)) (the (time0 d))"
  using assms by (auto simp: slot_def)

text \<open>At the head of a round, the current job has its start recorded only if it was written to.\<close>

definition begun :: "DATA list \<Rightarrow> nat \<Rightarrow> event list \<Rightarrow> bool" where
  "begun s I h = (I < length s \<longrightarrow> flag (s ! I) = 0 \<longrightarrow> chunks (snd (fd (s ! I))) h \<noteq> [])"

text \<open>Every job of the workload is at one position of the array, and no two share a pipe.\<close>

lemma batch_job_index:
  assumes "batch_inv run_ok extra jobs s I nff c w" "j \<in> set jobs"
  shows "\<exists>i < length s. job_of (trace w) (s ! i) = j"
proof -
  have "set (map (job_of (trace w)) s) = set jobs"
    using batch_invD(3) [OF assms(1)] by (rule mset_eq_setD)
  with assms(2) have "j \<in> job_of (trace w) ` set s" by simp
  then show ?thesis by (auto simp: in_set_conv_nth)
qed

lemma batch_index_job:
  assumes "batch_inv run_ok extra jobs s I nff c w" "i < length s"
  shows "job_of (trace w) (s ! i) \<in> set jobs"
proof -
  have "set (map (job_of (trace w)) s) = set jobs"
    using batch_invD(3) [OF assms(1)] by (rule mset_eq_setD)
  with assms(2) show ?thesis by (metis image_eqI list.set_map nth_mem)
qed

lemma batch_distinct_fds:
  assumes "batch_inv run_ok extra jobs s I nff c w"
  shows "distinct (map (\<lambda>d. snd (fd d)) s)" "distinct (map (\<lambda>d. fst (fd d)) s)"
proof -
  have m: "mset (map jwr (map (job_of (trace w)) s)) = mset (map jwr jobs)"
    "mset (map jrd (map (job_of (trace w)) s)) = mset (map jrd jobs)"
    using batch_invD(3) [OF assms] by (metis mset_map)+
  have d: "distinct (map jwr jobs)" "distinct (map jrd jobs)"
    using batch_invD(2) [OF assms] by (simp_all add: workload_ok_def)
  show "distinct (map (\<lambda>d. snd (fd d)) s)"
    using m(1) d(1) mset_eq_imp_distinct_iff [OF m(1)] by (simp add: comp_def)
  show "distinct (map (\<lambda>d. fst (fd d)) s)"
    using m(2) d(2) mset_eq_imp_distinct_iff [OF m(2)] by (simp add: comp_def)
qed

lemma batch_ready_bound:
  assumes "batch_inv run_ok extra jobs s I nff c w" "i < length s"
  shows "0 \<le> ready_time (s ! i)" "ready_time (s ! i) + sum_list (map execution_time s) \<le> INT_MAX"
    "execution_time (s ! i) \<le> INT_MAX"
proof -
  let ?j = "job_of (trace w) (s ! i)"
  have j: "?j \<in> set jobs" and ok: "workload_ok jobs"
    using batch_index_job [OF assms] batch_invD(2) [OF assms(1)] .
  have "mset (map jexec (map (job_of (trace w)) s)) = mset (map jexec jobs)"
    using batch_invD(3) [OF assms(1)] by (metis mset_map)
  then have "sum_list (map jexec jobs) = sum_list (map jexec (map (job_of (trace w)) s))"
    by (metis sum_mset_sum_list)
  also have "\<dots> \<ge> sum_list (map execution_time s)"
    unfolding map_map comp_def by (rule sum_list_mono) simp
  finally show "ready_time (s ! i) + sum_list (map execution_time s) \<le> INT_MAX"
    using workload_okD(3) [OF ok j] by simp
  show "0 \<le> ready_time (s ! i)" using workload_okD(1) [OF ok j] by simp
  show "execution_time (s ! i) \<le> INT_MAX"
    using workload_ok_exec(2) [OF ok j] sent_nonneg [of "snd (fd (s ! i))" "trace w"]
    unfolding job_of_simps by linarith
qed

lemma sorted_tail_nth:
  "sorted (map f (drop n s)) \<Longrightarrow> n \<le> i \<Longrightarrow> i < length s \<Longrightarrow> f (s ! n) \<le> f (s ! i)"
  using sorted_nth_mono [of "map f (drop n s)" 0 "i - n"] by simp

text \<open>Jobs that have not arrived are exactly those still to be forked.\<close>

lemma batch_arrived_index:
  assumes inv: "batch_inv run_ok extra jobs s I nff c w"
    and later: "nff < length s \<Longrightarrow> c < ready_time (s ! nff)"
    and "i < length s" "arrived (trace w) (job_of (trace w) (s ! i))"
  shows "i < nff"
proof (rule ccontr)
  assume "\<not> i < nff"
  then have "ready_time (s ! nff) \<le> ready_time (s ! i)"
    using assms(3) sorted_tail_nth [OF batch_invD(9) [OF inv], of i] by simp
  moreover have "nff < length s" using \<open>\<not> i < nff\<close> assms(3) by simp
  ultimately show False
    using later assms(4) batch_invD(6) [OF inv] by (simp add: arrived_def)
qed

lemma batch_done_below:
  assumes "batch_inv run_ok extra jobs s I nff c w" "i < I" "i < length s"
  shows "finished (trace w) (job_of (trace w) (s ! i))"
  using slotD(5) [OF batch_invD(10) [OF assms(1,3)] assms(2)] by (simp add: finished_def)

lemma map_update_same: "i < length s \<Longrightarrow> f d = f (s ! i) \<Longrightarrow> map f (s[i := d]) = map f s"
  by (simp add: map_update list_update_same_conv)

lemma sum_list_replace:
  fixes xs :: "int list"
  shows "i < length xs \<Longrightarrow> sum_list (xs[i := x]) = sum_list xs + x - xs ! i"
proof (induction xs arbitrary: i)
  case (Cons y ys)
  then show ?case by (cases i) auto
qed simp

lemma sorted_drop_Suc: "sorted (map f (drop n s)) \<Longrightarrow> sorted (map f (drop (Suc n) s))"
  by (cases "n < length s") (auto simp: Cons_nth_drop_Suc [symmetric])

section \<open>Events that move no job\<close>

text \<open>An event that neither takes time nor writes leaves the jobs, the clock and the chunks alone.\<close>

definition quiet :: "event \<Rightarrow> bool" where
  "quiet e = (duration e = 0 \<and> (\<forall>f. written f e = []) \<and> (\<forall>f. amount f e = 0) \<and> pipe_of e = [] \<and>
     (case e of Ev_Wait _ \<Rightarrow> False | Ev_Waitpid _ _ \<Rightarrow> False | _ \<Rightarrow> True))"

lemma quiet_events [simp]:
  "quiet (Ev_Fork p)" "quiet (Ev_Close f)" "quiet (Ev_Gettime t)" "quiet (Ev_Setscheduler p q r)"
  by (simp_all add: quiet_def)

lemma job_of_same: "(\<And>f. amount f e = 0) \<Longrightarrow> job_of (h @ [e]) = job_of h"
  by (rule ext) (simp add: job_of_def)

lemma slot_same: "(\<And>f. written f e = []) \<Longrightarrow> slot I nff c h i d \<Longrightarrow> slot I nff c (h @ [e]) i d"
  by (auto simp: slot_def stamps_more)

lemma quietD:
  assumes "quiet e"
  shows "duration e = 0" "written f e = []" "amount f e = 0" "completions (h @ [e]) = completions h"
    "pipe_of e = []"
    "job_of (h @ [e]) = job_of h" "slot I nff c h i d \<Longrightarrow> slot I nff c (h @ [e]) i d"
  using assms by (auto simp: quiet_def job_of_same slot_same split: event.splits)

lemma batch_inv_quiet:
  assumes "batch_inv run_ok extra jobs s I nff c w" "quiet e" "obeys run_ok jobs (trace w) e" "printed_line e = []"
  shows "batch_inv run_ok extra jobs s I nff c (log_event e w)"
  using assms by (auto simp: batch_inv_def quietD simp del: completions_snoc)

section \<open>The contract of a choice\<close>

text \<open>
  \<open>pick\<close> is the source's code that picks the job to run and records its start; \<open>select\<close> is the
  rearrangement it makes, of the jobs that are ready only, and never of one that has started.
  \<open>asg\<close> hands the next slice to the chosen job. \<open>run_ok\<close> is what the choice promises, and
  \<open>extra\<close> a fact about array, clock and completions that the policy wants kept along.
\<close>

definition slice :: "DATA list \<Rightarrow> nat \<Rightarrow> nat \<Rightarrow> int \<Rightarrow> int" where
  "slice s nff I c =
    (if nff = length s then execution_time (s ! I)
     else min (ready_time (s ! nff) - c) (execution_time (s ! I)))"

definition after_assign :: "process \<Rightarrow> DATA list \<Rightarrow> nat \<Rightarrow> nat \<Rightarrow> int \<Rightarrow> int \<Rightarrow>
    (DATA list \<times> nat \<times> int) \<times> process" where
  "after_assign w s nff I c p =
    (let d = s ! I; t = slice s nff I c;
         w1 = log_event (Ev_Write (snd (fd d)) (chunk_text t)) w;
         w2 = log_event (Ev_Setscheduler p 99 0) w1
     in if execution_time d = t
        then let w3 = log_event (Ev_Wait (wait_ret (sys w2) (trace w2))) w2;
                 now = clock_now (sys w3) (trace w3)
             in ((s[I := d\<lparr>execution_time := 0, time1 := Some now\<rparr>], I + 1, c + t),
                 log_event (Ev_Gettime now) w3)
        else ((s[I := d\<lparr>execution_time := execution_time d - t\<rparr>], I, c + t), w2))"

text \<open>Both programs' \<open>assign\<close> is the following function when the system calls succeed.\<close>

lemma wp_decideTime:
  assumes "I < nff" "nff \<le> length s" "0 \<le> c" "nff < length s \<Longrightarrow> c \<le> ready_time (s ! nff) \<and> ready_time (s ! nff) \<le> INT_MAX"
  shows "wp (decideTime s (length s) nff I c) Q E w = Q (slice s nff I c) w"
  using assms by (auto simp: decideTime_def wp_rules slice_def min_def Let_def)

lemma slice_bounds:
  "0 \<le> execution_time (s ! I) \<Longrightarrow> (nff < length s \<Longrightarrow> c \<le> ready_time (s ! nff)) \<Longrightarrow> nff \<le> length s \<Longrightarrow>
    0 \<le> slice s nff I c \<and> slice s nff I c \<le> execution_time (s ! I)"
  by (auto simp: slice_def)

lemma length_chunk_text: "0 \<le> c \<Longrightarrow> c \<le> INT_MAX \<Longrightarrow> length (show_int c @ '' '') < 100"
  using length_show_int [of c] by simp

lemma wp_assign:
  assumes "I < nff" "nff \<le> length s" "os_ok (sys w)" "pid (s ! I) = Some p"
    and "0 \<le> execution_time (s ! I)" "0 \<le> c" "c + execution_time (s ! I) \<le> INT_MAX"
    and "nff < length s \<Longrightarrow> c \<le> ready_time (s ! nff) \<and> ready_time (s ! nff) \<le> INT_MAX"
  shows "wp (assign s (length s) nff I c) Q E w =
    Q (fst (after_assign w s nff I c p)) (snd (after_assign w s nff I c p))"
proof -
  define t where "t = slice s nff I c"
  have t: "0 \<le> t" "t \<le> execution_time (s ! I)"
    using slice_bounds [of s I nff c] assms by (auto simp: t_def)
  then have len: "length (show_int t) < 99"
    using length_show_int [of t] assms by simp
  show ?thesis
    using assms t len os_ok_setscheduler [OF assms(3)]
    by (simp add: assign_def wp_rules wp_decideTime after_assign_def t_def [symmetric] Let_def chunk_text_def)
qed

text \<open>The round of both main loops, over their choice and their assignment.\<close>

definition batch_round :: "(DATA list \<Rightarrow> nat \<Rightarrow> nat \<Rightarrow> (process, DATA list) prog) \<Rightarrow>
    (DATA list \<Rightarrow> nat \<Rightarrow> nat \<Rightarrow> nat \<Rightarrow> int \<Rightarrow> (process, DATA list \<times> nat \<times> int) prog) \<Rightarrow>
    nat \<Rightarrow> DATA list \<times> nat \<times> nat \<times> int \<Rightarrow> (process, DATA list \<times> nat \<times> nat \<times> int) prog" where
  "batch_round pick asg N = (\<lambda>(s, I, nff, c).
     bind (waitLoop s N nff I c) (\<lambda>c.
     bind (executeFork s nff c N) (\<lambda>(s, nff).
     bind (pick s I nff) (\<lambda>s.
     bind (asg s N nff I c) (\<lambda>(s, I, c).
     return (s, I, nff, c))))))"

text \<open>What a round lowers: jobs to finish, jobs to fork, and whether a fork is due now.\<close>

definition rank :: "DATA list \<times> nat \<times> nat \<times> int \<Rightarrow> nat" where
  "rank = (\<lambda>(s, I, nff, c). 2 * (length s - I) + 2 * (length s - nff) +
     (if nff < length s \<and> c = ready_time (s ! nff) then 0 else 1))"

locale batch_policy =
  fixes pick :: "DATA list \<Rightarrow> nat \<Rightarrow> nat \<Rightarrow> (process, DATA list) prog"
    and asg :: "DATA list \<Rightarrow> nat \<Rightarrow> nat \<Rightarrow> nat \<Rightarrow> int \<Rightarrow> (process, DATA list \<times> nat \<times> int) prog"
    and select :: "DATA list \<Rightarrow> nat \<Rightarrow> nat \<Rightarrow> DATA list"
    and run_ok :: policy
    and extra :: "(int \<times> int \<times> int) list \<Rightarrow> nat \<Rightarrow> int \<Rightarrow> (int \<times> int) list \<Rightarrow> bool"
  assumes pick_wp: "I < nff \<Longrightarrow> nff \<le> length s \<Longrightarrow> wp (pick s I nff) Q E w =
      (if flag (s ! I) = 0 then Q (select s I nff) w
       else let t = clock_now (sys w) (trace w) in
         Q ((select s I nff)[I := (select s I nff ! I)\<lparr>time0 := Some t, flag := 0\<rparr>])
           (log_event (Ev_Gettime t) w))"
    and asg_wp: "I < nff \<Longrightarrow> nff \<le> length s \<Longrightarrow> os_ok (sys w) \<Longrightarrow> pid (s ! I) = Some p \<Longrightarrow>
      0 \<le> execution_time (s ! I) \<Longrightarrow> 0 \<le> c \<Longrightarrow> c + execution_time (s ! I) \<le> INT_MAX \<Longrightarrow>
      (nff < length s \<Longrightarrow> c \<le> ready_time (s ! nff) \<and> ready_time (s ! nff) \<le> INT_MAX) \<Longrightarrow>
      wp (asg s (length s) nff I c) R E w =
        R (fst (after_assign w s nff I c p)) (snd (after_assign w s nff I c p))"
    and select_mset: "I < nff \<Longrightarrow> nff \<le> length s \<Longrightarrow> mset (select s I nff) = mset s"
    and select_outside: "I < nff \<Longrightarrow> nff \<le> length s \<Longrightarrow> i < I \<or> nff \<le> i \<Longrightarrow> i < length s \<Longrightarrow>
      select s I nff ! i = s ! i"
    and select_inside: "I < nff \<Longrightarrow> nff \<le> length s \<Longrightarrow> I \<le> i \<Longrightarrow> i < nff \<Longrightarrow>
      \<exists>k. I \<le> k \<and> k < nff \<and> select s I nff ! i = s ! k"
    and select_running: "I < nff \<Longrightarrow> nff \<le> length s \<Longrightarrow> flag (s ! I) = 0 \<Longrightarrow>
      select s I nff ! I = s ! I \<and>
      (\<forall>i. I < i \<longrightarrow> i < nff \<longrightarrow> (\<exists>k. I < k \<and> k < nff \<and> select s I nff ! i = s ! k))"
    and select_run_ok: "batch_inv run_ok extra jobs s I nff c w \<Longrightarrow> I < nff \<Longrightarrow>
      (nff < length s \<Longrightarrow> c < ready_time (s ! nff)) \<Longrightarrow> begun s I (trace w) \<Longrightarrow>
      run_ok jobs (trace w) (job_of (trace w) (select s I nff ! I)) t"
    and run_ok_quiet: "quiet ev \<Longrightarrow> run_ok jobs (h @ [ev]) j t = run_ok jobs h j t"
    and extra_select: "extra (map view s) I c C \<Longrightarrow> I < nff \<Longrightarrow> nff \<le> length s \<Longrightarrow>
      extra (map view (select s I nff)) I c C"
    and extra_idle: "extra v I c C \<Longrightarrow> I < length v \<Longrightarrow> c < fst (snd (v ! I)) \<Longrightarrow> extra v I (c + 1) C"
    and extra_run: "extra v I c C \<Longrightarrow> I < length v \<Longrightarrow> v ! I = (f, r, e) \<Longrightarrow> r \<le> c \<Longrightarrow> 0 \<le> t \<Longrightarrow> t < e \<Longrightarrow>
      extra (v[I := (f, r, e - t)]) I (c + t) C"
    and extra_done: "extra v I c C \<Longrightarrow> I < length v \<Longrightarrow> v ! I = (f, r, e) \<Longrightarrow> r \<le> c \<Longrightarrow> 0 \<le> e \<Longrightarrow>
      extra (v[I := (f, r, 0)]) (I + 1) (c + e) (C @ [(f, c + e)])"
begin

abbreviation inv :: "job list \<Rightarrow> DATA list \<Rightarrow> nat \<Rightarrow> nat \<Rightarrow> int \<Rightarrow> process \<Rightarrow> bool" where
  "inv \<equiv> batch_inv run_ok extra"

text \<open>Waiting for the next job to become ready.\<close>

lemma spin_keeps:
  assumes inv: "inv jobs s I nff c w" and idle: "I = nff" "nff < length s" "c < ready_time (s ! nff)"
  shows "inv jobs s I nff (c + 1) (log_event Ev_Spin w)" "c + 1 \<le> INT_MAX"
proof -
  have sum: "0 \<le> sum_list (map execution_time s)"
    using slotD(1) [OF batch_invD(10) [OF inv]] by (intro sum_list_nonneg) (auto simp: in_set_conv_nth)
  have bound: "ready_time (s ! nff) + sum_list (map execution_time s) \<le> INT_MAX"
    using batch_ready_bound(2) [OF inv idle(2)] .
  have "\<forall>j \<in> set jobs. arrived (trace w) j \<longrightarrow> finished (trace w) j"
    using batch_job_index [OF inv] batch_arrived_index [OF inv idle(3)] batch_done_below [OF inv] idle(1)
    by metis
  then have "obeys run_ok jobs (trace w) Ev_Spin" by simp
  moreover have "slot I nff (c + 1) (trace w) i (s ! i)" if "i < length s" for i
    using batch_invD(10) [OF inv that] idle that sorted_tail_nth [OF batch_invD(9) [OF inv], of i]
    by (auto simp: slot_def)
  moreover have "extra (map view s) I (c + 1) (completions (trace w))"
    using extra_idle [OF batch_invD(12) [OF inv]] idle by (simp add: view_def)
  ultimately show "inv jobs s I nff (c + 1) (log_event Ev_Spin w)"
    using batch_invD [OF inv] idle bound by (simp add: batch_inv_def job_of_same slot_same)
  show "c + 1 \<le> INT_MAX" using idle bound sum by linarith
qed

lemma waitLoop_keeps:
  assumes "inv jobs s I nff c w" "I < length s"
  shows "wp (waitLoop s (length s) nff I c) (\<lambda>c' w'. inv jobs s I nff c' w' \<and> c \<le> c' \<and>
    begun s I (trace w') = begun s I (trace w) \<and> (if I = nff then c' = ready_time (s ! I) else c' = c)) never w"
  unfolding waitLoop_def
proof (rule wp_whileM [where I = "\<lambda>c' w'. inv jobs s I nff c' w' \<and> c \<le> c' \<and> begun s I (trace w') = begun s I (trace w) \<and> (I \<noteq> nff \<longrightarrow> c' = c)"
      and \<mu> = "\<lambda>c' w'. nat (ready_time (s ! nff) - c')"])
  show "inv jobs s I nff c w \<and> c \<le> c \<and> begun s I (trace w) = begun s I (trace w) \<and> (I \<noteq> nff \<longrightarrow> c = c)" using assms by simp
next
  fix c' w'
  assume I: "inv jobs s I nff c' w' \<and> c \<le> c' \<and> begun s I (trace w') = begun s I (trace w) \<and> (I \<noteq> nff \<longrightarrow> c' = c)"
    and b: "nff < length s \<and> I = nff \<and> c' < ready_time (s ! nff)"
  have "0 \<le> c'" using batch_invD(7) I by blast
  with I b spin_keeps [of jobs s I nff c' w']
  show "wp (andThen spin (add_i c' 1)) (\<lambda>c'' w''. (inv jobs s I nff c'' w'' \<and> c \<le> c'' \<and> begun s I (trace w'') = begun s I (trace w) \<and> (I \<noteq> nff \<longrightarrow> c'' = c)) \<and>
      nat (ready_time (s ! nff) - c'') < nat (ready_time (s ! nff) - c')) never w'"
    by (auto simp: wp_rules begun_def)
next
  fix c' w'
  assume I: "inv jobs s I nff c' w' \<and> c \<le> c' \<and> begun s I (trace w') = begun s I (trace w) \<and> (I \<noteq> nff \<longrightarrow> c' = c)"
    and b: "\<not> (nff < length s \<and> I = nff \<and> c' < ready_time (s ! nff))"
  then show "inv jobs s I nff c' w' \<and> c \<le> c' \<and> begun s I (trace w') = begun s I (trace w) \<and> (if I = nff then c' = ready_time (s ! I) else c' = c)"
    using assms slotD(4) [OF batch_invD(10) [of run_ok extra jobs s I nff c' w' I]] by force
qed

text \<open>Forking the jobs whose time has come.\<close>

lemma admit_keeps:
  assumes inv: "inv jobs s I nff c w" and nxt: "nff < length s" "c = ready_time (s ! nff)"
    and p: "0 < p" "p \<le> INT_MAX" "forked_as (trace w) (fst (fd (s ! nff))) p"
  shows "inv jobs (s[nff := (s ! nff)\<lparr>pid := Some p\<rparr>]) I (nff + 1) c w"
proof -
  let ?s = "s[nff := (s ! nff)\<lparr>pid := Some p\<rparr>]"
  have same: "map (job_of (trace w)) ?s = map (job_of (trace w)) s" "map view ?s = map view s"
    "map execution_time ?s = map execution_time s" "take I ?s = take I s"
    using nxt(1) batch_invD(4) [OF inv] by (simp_all add: map_update_same job_of_def view_def)
  have "slot I (nff + 1) c (trace w) i (?s ! i)" if "i < length s" for i
    using batch_invD(10) [OF inv that] batch_invD(4) [OF inv] nxt p that
    by (cases "i = nff") (auto simp: slot_def)
  then show ?thesis
    using batch_invD [OF inv] nxt(1) unfolding batch_inv_def same
    by (auto simp: sorted_drop_Suc)
qed

lemma forkJob_keeps:
  assumes inv: "inv jobs s I nff c w" and nxt: "nff < length s" "c = ready_time (s ! nff)"
  shows "wp (forkJob (s, nff)) (\<lambda>(s', n') w'. n' = nff + 1 \<and> length s' = length s \<and>
    begun s' I (trace w') = begun s I (trace w) \<and> inv jobs s' I n' c w') never w"
proof -
  define p where "p = fork_ret (sys w) (trace w)"
  define d where "d = s ! nff"
  have p: "0 < p" "p \<le> INT_MAX"
    using os_ok_fork [OF batch_invD(1) [OF inv]] by (simp_all add: p_def)
  let ?w = "log_event (Ev_Fork p) w"
  have inv': "inv jobs s I nff c ?w"
    using inv by (rule batch_inv_quiet) simp_all
  have "jready j = elapsed (trace ?w)" if j: "j \<in> set jobs" "jrd j = fst (fd d)" for j
  proof -
    have "job_of (trace w) d = j"
      using batch_index_job [OF inv nxt(1)] j workload_ok_unique(2) [OF batch_invD(2) [OF inv]]
      by (simp add: d_def)
    then show ?thesis using nxt batch_invD(6) [OF inv] by (auto simp: d_def)
  qed
  then have "inv jobs s I nff c (log_event (Ev_Close (fst (fd d))) ?w)"
    by (intro batch_inv_quiet [OF inv']) auto
  then have "inv jobs (s[nff := d\<lparr>pid := Some p\<rparr>]) I (nff + 1) c (log_event (Ev_Close (fst (fd d))) ?w)"
    unfolding d_def by (rule admit_keeps [OF _ nxt p]) (simp add: forked_as_def in_turn_new)
  moreover have "begun (s[nff := d\<lparr>pid := Some p\<rparr>]) I (trace w @ [Ev_Fork p, Ev_Close (fst (fd d))]) = begun s I (trace w)"
    using trace_snoc(5) [of "snd (fd (s ! I))" "trace w @ [Ev_Fork p]" "Ev_Close (fst (fd d))"]
    by (cases "I = nff") (auto simp: begun_def d_def)
  ultimately show ?thesis
    using nxt p by (simp add: forkJob_def wp_rules p_def [symmetric] d_def [symmetric])
qed

lemma executeFork_keeps:
  assumes "inv jobs s I nff c w" "I < length s" "I = nff \<Longrightarrow> c = ready_time (s ! I)"
  shows "wp (executeFork s nff c (length s)) (\<lambda>v w'. case v of (s', n') \<Rightarrow> length s' = length s \<and> inv jobs s' I n' c w' \<and>
    begun s' I (trace w') = begun s I (trace w) \<and> I < n' \<and> nff \<le> n' \<and> (n' < length s \<longrightarrow> c < ready_time (s' ! n')) \<and>
    (nff < length s \<longrightarrow> c = ready_time (s ! nff) \<longrightarrow> nff < n')) never w"
  unfolding executeFork_def
proof (rule wp_whileM [where I = "\<lambda>v w'. case v of (s', n') \<Rightarrow> length s' = length s \<and> inv jobs s' I n' c w' \<and>
      begun s' I (trace w') = begun s I (trace w) \<and> nff \<le> n' \<and> (n' = nff \<longrightarrow> s' = s)" and \<mu> = "\<lambda>v w'. length s - snd v"])
  show "case (s, nff) of (s', n') \<Rightarrow> length s' = length s \<and> inv jobs s' I n' c w \<and> begun s' I (trace w) = begun s I (trace w) \<and> nff \<le> n' \<and> (n' = nff \<longrightarrow> s' = s)"
    using assms by simp
next
  fix v w'
  assume "case v of (s', n') \<Rightarrow> length s' = length s \<and> inv jobs s' I n' c w' \<and> begun s' I (trace w') = begun s I (trace w) \<and> nff \<le> n' \<and> (n' = nff \<longrightarrow> s' = s)"
    and "case v of (s', n') \<Rightarrow> n' < length s \<and> c = ready_time (s' ! n')"
  then obtain s' n' where v: "v = (s', n')" "length s' = length s" "inv jobs s' I n' c w'" "nff \<le> n'" "begun s' I (trace w') = begun s I (trace w)"
      and nxt: "n' < length s'" "c = ready_time (s' ! n')" by auto
  show "wp (forkJob v) (\<lambda>v' w''. (case v' of (s', n') \<Rightarrow> length s' = length s \<and> inv jobs s' I n' c w'' \<and>
      begun s' I (trace w'') = begun s I (trace w) \<and> nff \<le> n' \<and> (n' = nff \<longrightarrow> s' = s)) \<and>
      length s - snd v' < length s - snd v) never w'"
    using v nxt by (auto intro!: wp_mono [OF forkJob_keeps [OF v(3) nxt]])
next
  fix v w'
  assume "case v of (s', n') \<Rightarrow> length s' = length s \<and> inv jobs s' I n' c w' \<and> begun s' I (trace w') = begun s I (trace w) \<and> nff \<le> n' \<and> (n' = nff \<longrightarrow> s' = s)"
    and "\<not> (case v of (s', n') \<Rightarrow> n' < length s \<and> c = ready_time (s' ! n'))"
  then obtain s' n' where v: "v = (s', n')" "length s' = length s" "inv jobs s' I n' c w'" "nff \<le> n'" "begun s' I (trace w') = begun s I (trace w)"
      and same: "n' = nff \<longrightarrow> s' = s" and stop: "n' < length s \<Longrightarrow> c \<noteq> ready_time (s' ! n')" by auto
  have le: "n' < length s \<Longrightarrow> c \<le> ready_time (s' ! n')"
    using slotD(4) [OF batch_invD(10) [OF v(3)], of n'] v(2) by simp
  have "I < n'"
    using batch_invD(4) [OF v(3)] batch_invD(4) [OF assms(1)] v(4) same stop assms(2,3)
    by (cases "I = n'") auto
  with v same stop le show "case v of (s', n') \<Rightarrow> length s' = length s \<and> inv jobs s' I n' c w' \<and>
      begun s' I (trace w') = begun s I (trace w) \<and> I < n' \<and> nff \<le> n' \<and>
      (n' < length s \<longrightarrow> c < ready_time (s' ! n')) \<and>
      (nff < length s \<longrightarrow> c = ready_time (s ! nff) \<longrightarrow> nff < n')"
    by (force simp: less_le)
qed

text \<open>Choosing a job and recording its start.\<close>

lemma select_length: "I < nff \<Longrightarrow> nff \<le> length s \<Longrightarrow> length (select s I nff) = length s"
  by (rule mset_eq_length) (rule select_mset)

lemma select_drop: "I < nff \<Longrightarrow> nff \<le> length s \<Longrightarrow> drop nff (select s I nff) = drop nff s"
  by (rule nth_equalityI) (simp_all add: select_length select_outside)

lemma select_take: "I < nff \<Longrightarrow> nff \<le> length s \<Longrightarrow> take I (select s I nff) = take I s"
  by (rule nth_equalityI) (simp_all add: select_length select_outside)

lemma select_slot:
  assumes inv: "inv jobs s I nff c w" and I: "I < nff" and i: "i < length s"
  shows "slot I nff c (trace w) i (select s I nff ! i)"
proof (cases "i < I \<or> nff \<le> i")
  case True
  then show ?thesis
    using select_outside [OF I batch_invD(5) [OF inv] True i] batch_invD(10) [OF inv i] by simp
next
  case False
  note slot = batch_invD(10) [OF inv] and len = batch_invD(5) [OF inv]
  consider (running) "flag (s ! I) = 0" "i = I" | (other) "flag (s ! I) = 0" "I < i" | (fresh) "flag (s ! I) = 1"
    using False slotD(7) [OF slot [of I]] I len by (cases "i = I") force+
  then show ?thesis
  proof cases
    case running
    then show ?thesis using select_running [OF I len] slot [of I] I len by auto
  next
    case other
    then obtain k where k: "I < k" "k < nff" "select s I nff ! i = s ! k"
      using select_running [OF I len] False by auto
    with other False slot [of k] len show ?thesis by (auto simp: slot_def)
  next
    case fresh
    obtain k where k: "I \<le> k" "k < nff" "select s I nff ! i = s ! k"
      using select_inside [OF I len, of i] False by (auto simp: not_le not_less)
    moreover have "flag (s ! k) = 1" using fresh k slotD(6) [OF slot [of k]] len by (cases "k = I") auto
    ultimately show ?thesis using False slot [of k] len by (auto simp: slot_def)
  qed
qed

lemma select_keeps:
  assumes inv: "inv jobs s I nff c w" and I: "I < nff"
  shows "inv jobs (select s I nff) I nff c w"
proof -
  note len = batch_invD(5) [OF inv]
  have "mset (map f (select s I nff)) = mset (map f s)" for f :: "DATA \<Rightarrow> int"
    using select_mset [OF I len] by simp
  then have "sum_list (map execution_time (select s I nff)) = sum_list (map execution_time s)"
    by (metis sum_mset_sum_list)
  moreover have "mset (map (job_of (trace w)) (select s I nff)) = mset (map (job_of (trace w)) s)"
    using select_mset [OF I len] by simp
  ultimately show ?thesis
    using batch_invD [OF inv] select_slot [OF inv I] extra_select [OF batch_invD(12) [OF inv] I len]
    unfolding batch_inv_def by (simp add: select_length [OF I len] select_drop [OF I len] select_take [OF I len])
qed

lemma start_keeps:
  assumes inv: "inv jobs s I nff c w" and I: "I < nff" "flag (s ! I) \<noteq> 0" and t: "time_ok t"
  shows "inv jobs (s[I := (s ! I)\<lparr>time0 := Some t, flag := 0\<rparr>]) I nff c w"
proof -
  let ?s = "s[I := (s ! I)\<lparr>time0 := Some t, flag := 0\<rparr>]"
  have len: "I < length s" using I batch_invD(5) [OF inv] by simp
  have same: "map (job_of (trace w)) ?s = map (job_of (trace w)) s" "map view ?s = map view s"
    "map execution_time ?s = map execution_time s" "drop nff ?s = drop nff s" "take I ?s = take I s"
    using I len by (simp_all add: map_update_same job_of_def view_def)
  have "slot I nff c (trace w) i (?s ! i)" if "i < length s" for i
    using batch_invD(10) [OF inv that] I t that
    by (cases "i = I") (auto simp: slot_def recorded_def)
  then show ?thesis
    using batch_invD [OF inv] unfolding batch_inv_def same by simp
qed

lemma pick_keeps:
  assumes inv: "inv jobs s I nff c w" and I: "I < nff" and later: "nff < length s \<Longrightarrow> c < ready_time (s ! nff)"
    and begun: "begun s I (trace w)"
  shows "wp (pick s I nff) (\<lambda>s' w'. inv jobs s' I nff c w' \<and> flag (s' ! I) = 0 \<and> length s' = length s \<and>
    stamped (trace w') (snd (fd (s' ! I))) (time0 (s' ! I)) \<and> (nff < length s \<longrightarrow> s' ! nff = s ! nff) \<and> (\<forall>t. run_ok jobs (trace w') (job_of (trace w') (s' ! I)) t)) never w"
proof -
  note len = batch_invD(5) [OF inv]
  let ?s = "select s I nff"
  have sel: "inv jobs ?s I nff c w" "length ?s = length s" "nff < length s \<Longrightarrow> ?s ! nff = s ! nff"
    using select_keeps [OF inv I] select_length [OF I len] select_outside [OF I len] by auto
  have run: "\<forall>t. run_ok jobs (trace w) (job_of (trace w) (?s ! I)) t"
    using select_run_ok [OF inv I later begun] by blast
  show ?thesis
  proof (cases "flag (s ! I) = 0")
    case True
    moreover from True have "stamped (trace w) (snd (fd (s ! I))) (time0 (s ! I))" using begun I len by (simp add: begun_def stamped_def)
    ultimately show ?thesis using sel run select_running [OF I len] by (simp add: pick_wp [OF I len])
  next
    case False
    have fresh: "flag (?s ! I) \<noteq> 0"
    proof -
      obtain k where k: "I \<le> k" "k < nff" "?s ! I = s ! k"
        using select_inside [OF I len, of I] I by auto
      then show ?thesis
        using False slotD(6) [OF batch_invD(10) [OF inv, of k]] len by (cases "k = I") auto
    qed
    define t where "t = clock_now (sys w) (trace w)"
    let ?s' = "?s[I := (?s ! I)\<lparr>time0 := Some t, flag := 0\<rparr>]"
    have t: "time_ok t" using os_ok_time [OF batch_invD(1) [OF inv]] by (simp add: t_def)
    have "inv jobs ?s I nff c (log_event (Ev_Gettime t) w)"
      by (rule batch_inv_quiet [OF sel(1)]) simp_all
    then have "inv jobs ?s' I nff c (log_event (Ev_Gettime t) w)"
      by (rule start_keeps [OF _ I fresh t])
    moreover have "flag (?s ! I) = 1" "I < length ?s"
      using fresh slotD(7) [OF batch_invD(10) [OF sel(1), of I]] I len sel(2) by auto
    then have "chunks (snd (fd (?s ! I))) (trace w) = []"
      using slotD(8) [OF batch_invD(10) [OF sel(1), of I]] by simp
    then have "stamped (trace w @ [Ev_Gettime t]) (snd (fd (?s' ! I))) (time0 (?s' ! I))"
      using I len sel(2) by (simp add: stamped_def)
    moreover have "\<forall>t'. run_ok jobs (trace w @ [Ev_Gettime t]) (job_of (trace w @ [Ev_Gettime t]) (?s' ! I)) t'"
      using I len sel(2) run by (simp add: job_of_def run_ok_quiet)
    ultimately show ?thesis
      using False I len sel by (simp add: pick_wp [OF I len] t_def [symmetric] Let_def)
  qed
qed

text \<open>Giving the chosen job its slice.\<close>

lemma write_obeys:
  assumes inv: "inv jobs s I nff c w" and I: "I < nff" "flag (s ! I) = 0"
    and run: "\<forall>t. run_ok jobs (trace w) (job_of (trace w) (s ! I)) t"
    and t: "0 \<le> t" "t \<le> execution_time (s ! I)"
  shows "obeys run_ok jobs (trace w) (Ev_Write (snd (fd (s ! I))) (chunk_text t))"
proof -
  have len: "I < length s" using I batch_invD(5) [OF inv] by simp
  note slot = batch_invD(10) [OF inv len]
  let ?j = "job_of (trace w) (s ! I)"
  have "t \<le> INT_MAX" using batch_ready_bound(3) [OF inv len] t by simp
  moreover have "arrived (trace w) ?j"
    using slotD(2) [OF slot I(1)] batch_invD(6) [OF inv] by (simp add: arrived_def)
  moreover have "\<not> started (trace w) ?j \<or> \<not> finished (trace w) ?j"
    using slot I by (auto simp: slot_def started_def finished_def)
  ultimately have "may_write run_ok jobs (trace w) (snd (fd (s ! I))) (chunk_text t) ?j"
    using t run by (simp add: may_write_def)
  then show ?thesis using batch_index_job [OF inv len] by auto
qed

lemma jobs_after_write:
  assumes inv: "inv jobs s I nff c w" and I: "I < length s" and t: "0 \<le> t"
    and d: "execution_time d = execution_time (s ! I) - t" "fd d = fd (s ! I)" "name d = name (s ! I)"
      "ready_time d = ready_time (s ! I)"
  shows "map (job_of (trace w @ [Ev_Write (snd (fd (s ! I))) (chunk_text t)])) (s[I := d]) =
    map (job_of (trace w)) s"
proof (rule nth_equalityI)
  fix i assume "i < length (map (job_of (trace w @ [Ev_Write (snd (fd (s ! I))) (chunk_text t)])) (s[I := d]))"
  then have i: "i < length s" by simp
  show "map (job_of (trace w @ [Ev_Write (snd (fd (s ! I))) (chunk_text t)])) (s[I := d]) ! i =
      map (job_of (trace w)) s ! i"
  proof (cases "i = I")
    case True
    then show ?thesis using i d t by (simp add: job_of_def)
  next
    case False
    then have "snd (fd (s ! i)) \<noteq> snd (fd (s ! I))"
      using batch_distinct_fds(1) [OF inv] i I by (auto simp: distinct_conv_nth)
    then show ?thesis using False i by (simp add: job_of_def)
  qed
qed simp

lemma slots_after_write:
  assumes inv: "inv jobs s I nff c w" and I: "I < nff" and i: "i < length s" "i \<noteq> I"
    and t: "0 \<le> t" "nff < length s \<Longrightarrow> c + t \<le> ready_time (s ! nff)"
  shows "slot I nff (c + t) (trace w @ [Ev_Write (snd (fd (s ! I))) (chunk_text t)]) i (s ! i)"
    and "slot (I + 1) nff (c + t) (trace w @ [Ev_Write (snd (fd (s ! I))) (chunk_text t)]) i (s ! i)"
proof -
  have "snd (fd (s ! I)) \<noteq> snd (fd (s ! i))"
    using batch_distinct_fds(1) [OF inv] i I batch_invD(5) [OF inv] by (auto simp: distinct_conv_nth)
  moreover have "nff \<le> i \<Longrightarrow> c + t \<le> ready_time (s ! i)"
    using t(2) i sorted_tail_nth [OF batch_invD(9) [OF inv], of i] by force
  ultimately show
    "slot I nff (c + t) (trace w @ [Ev_Write (snd (fd (s ! I))) (chunk_text t)]) i (s ! i)"
    "slot (I + 1) nff (c + t) (trace w @ [Ev_Write (snd (fd (s ! I))) (chunk_text t)]) i (s ! i)"
    using batch_invD(10) [OF inv i(1)] t(1) i(2) by (auto simp: slot_def stamps_more)
qed

lemma sum_after_write:
  "I < length s \<Longrightarrow> execution_time d = execution_time (s ! I) - t \<Longrightarrow>
    sum_list (map execution_time (s[I := d])) = sum_list (map execution_time s) - t"
  by (simp add: map_update sum_list_replace)

lemma partial_keeps:
  assumes inv: "inv jobs s I nff c w" and I: "I < nff" "flag (s ! I) = 0"
    and run: "\<forall>t. run_ok jobs (trace w) (job_of (trace w) (s ! I)) t"
    and t: "0 \<le> t" "t < execution_time (s ! I)" "nff < length s \<Longrightarrow> c + t \<le> ready_time (s ! nff)"
    and st: "stamped (trace w) (snd (fd (s ! I))) (time0 (s ! I))"
  shows "inv jobs (s[I := (s ! I)\<lparr>execution_time := execution_time (s ! I) - t\<rparr>]) I nff (c + t)
    (log_event (Ev_Write (snd (fd (s ! I))) (chunk_text t)) w)" (is "inv jobs ?s I nff _ ?w")
proof -
  have len: "I < length s" using I batch_invD(5) [OF inv] by simp
  note D = batch_invD [OF inv]
  have jobs: "map (job_of (trace ?w)) ?s = map (job_of (trace w)) s"
    using jobs_after_write [OF inv len t(1)] by simp
  have sum: "sum_list (map execution_time ?s) = sum_list (map execution_time s) - t"
    using len by (intro sum_after_write) simp_all
  have rest: "drop nff ?s = drop nff s" "take I ?s = take I s" using I by simp_all
  note start = stamped_write [OF st slotD(12) [OF D(10) [OF len]]]
  have "slot I nff (c + t) (trace ?w) i (?s ! i)" if "i < length s" for i
    using slots_after_write(1) [OF inv I(1) that _ t(1,3)] D(10) [OF that] t I len start
    by (cases "i = I") (auto simp: slot_def stamps_more)
  moreover have "extra (map view ?s) I (c + t) (completions (trace ?w))"
    using extra_run [OF D(12), of "snd (fd (s ! I))" "ready_time (s ! I)" "execution_time (s ! I)" t]
      slotD(2) [OF D(10) [OF len] I(1)] len t by (simp add: view_def map_update)
  moreover have "obeys run_ok jobs (trace w) (Ev_Write (snd (fd (s ! I))) (chunk_text t))"
    using write_obeys [OF inv I run t(1)] t by simp
  ultimately show ?thesis
    using D(1-9,11,13,14,15) t unfolding batch_inv_def jobs sum rest by simp
qed

lemma done_keeps:
  assumes inv: "inv jobs s I nff c w" and I: "I < nff" "flag (s ! I) = 0"
    and run: "\<forall>t. run_ok jobs (trace w) (job_of (trace w) (s ! I)) t"
    and t: "t = execution_time (s ! I)" "nff < length s \<Longrightarrow> c + t \<le> ready_time (s ! nff)"
    and now: "time_ok now" and st: "stamped (trace w) (snd (fd (s ! I))) (time0 (s ! I))"
    and w': "w' = log_event (Ev_Gettime now) (log_event (Ev_Wait r) (log_event (Ev_Setscheduler p 99 x)
      (log_event (Ev_Write (snd (fd (s ! I))) (chunk_text t)) w)))"
  shows "inv jobs (s[I := (s ! I)\<lparr>execution_time := 0, time1 := Some now\<rparr>]) (I + 1) nff (c + t) w'"
    (is "inv jobs ?s _ nff _ _")
proof -
  have len: "I < length s" using I batch_invD(5) [OF inv] by simp
  note D = batch_invD [OF inv]
  have t0: "0 \<le> t" using slotD(1) [OF D(10) [OF len]] t by simp
  let ?w1 = "log_event (Ev_Write (snd (fd (s ! I))) (chunk_text t)) w"
  have jobs: "map (job_of (trace ?w1)) ?s = map (job_of (trace w)) s"
    using jobs_after_write [OF inv len t0] t by simp
  have same: "job_of (trace w') = job_of (trace ?w1)" by (simp add: w' job_of_same del: append_assoc)
  have later: "trace w' = trace ?w1 @ [Ev_Setscheduler p 99 x, Ev_Wait r, Ev_Gettime now]"
    "trace w' = trace w @ [Ev_Write (snd (fd (s ! I))) (chunk_text t), Ev_Setscheduler p 99 x, Ev_Wait r, Ev_Gettime now]"
    by (simp_all add: w')
  have forked: "forked_as (trace w') f q" if "forked_as (trace w) f q" for f q
    unfolding later(2) using that by (rule stamps_more)
  have ended: "ended_at (trace w') (snd (fd (s ! I))) now"
    using ended_at_new [of "Ev_Wait r" "trace (log_event (Ev_Setscheduler p 99 x) ?w1)" now]
    unfolding w' by (simp del: append_assoc)
  have "started_at (trace ?w1) (snd (fd (s ! I))) (the (time0 (s ! I)))"
    using stamped_write [OF st slotD(12) [OF D(10) [OF len]], of "chunk_text t"] by simp
  then have start: "started_at (trace w') (snd (fd (s ! I))) (the (time0 (s ! I)))"
    unfolding later(1) by (rule stamps_more)
  have sum: "sum_list (map execution_time ?s) = sum_list (map execution_time s) - t"
    using len t by (intro sum_after_write) simp_all
  have rest: "drop nff ?s = drop nff s" using I by simp
  have order: "map (\<lambda>d. snd (fd d)) (take (I + 1) ?s) = map (\<lambda>d. snd (fd d)) (take I s) @ [snd (fd (s ! I))]"
    using len by (simp add: take_Suc_conv_app_nth)
  have chunked: "chunks f (trace w') = chunks f (trace ?w1)" for f by (simp add: w' del: append_assoc)
  have "slot (I + 1) nff (c + t) (trace w') i (?s ! i)" if "i < length s" for i
  proof (cases "i = I")
    case True
    then show ?thesis
      using D(10) [OF that] t0 I len now ended start
      by (auto simp: slot_def recorded_def chunked intro: forked)
  next
    case False
    then have "slot (I + 1) nff (c + t) (trace ?w1) i (s ! i)"
      using slots_after_write(2) [OF inv I(1) that _ t0 t(2)] by simp
    then show ?thesis using False by (simp add: w' slot_same del: append_assoc)
  qed
  moreover have "extra (map view ?s) (I + 1) (c + t) (completions (trace w'))"
    using extra_done [OF D(12), of "snd (fd (s ! I))" "ready_time (s ! I)" "execution_time (s ! I)"]
      slotD(2) [OF D(10) [OF len] I(1)] len t t0 D(6) by (simp add: w' view_def map_update del: append_assoc)
  moreover have "obeys run_ok jobs (trace w) (Ev_Write (snd (fd (s ! I))) (chunk_text t))"
    using write_obeys [OF inv I run t0] t by simp
  moreover have "obeys run_ok jobs (trace (log_event (Ev_Setscheduler p 99 x) ?w1)) (Ev_Wait r)"
  proof -
    have "may_wait (trace (log_event (Ev_Setscheduler p 99 x) ?w1)) (job_of (trace w) (s ! I))"
      using t t0 by (simp add: may_wait_def started_def finished_def del: append_assoc)
    then show ?thesis using batch_index_job [OF inv len] by auto
  qed
  ultimately show ?thesis
    using D(1-9,11,13,14,15) I t0 unfolding batch_inv_def same jobs sum rest order
    by (simp add: w' del: append_assoc)
qed

lemma begun_write:
  "flag d = 0 \<longrightarrow> snd (fd d) = f \<Longrightarrow> begun (s[I := d]) I (h @ [Ev_Write f x, e])"
  by (cases "I < length s") (auto simp: begun_def chunks_def writes_def)

lemma begun_next:
  assumes "inv jobs s I nff c w" "I < nff"
  shows "begun (s[I := d]) (I + 1) h"
  using slotD(6) [OF batch_invD(10) [OF assms(1), of "I + 1"]] by (auto simp: begun_def)

lemma asg_keeps:
  assumes inv: "inv jobs s I nff c w" and I: "I < nff" "flag (s ! I) = 0"
    and later: "nff < length s \<Longrightarrow> c < ready_time (s ! nff)"
    and run: "\<forall>t. run_ok jobs (trace w) (job_of (trace w) (s ! I)) t"
    and st: "stamped (trace w) (snd (fd (s ! I))) (time0 (s ! I))"
  shows "wp (asg s (length s) nff I c) (\<lambda>(s', I', c') w'. inv jobs s' I' nff c' w' \<and> length s' = length s \<and>
    begun s' I' (trace w') \<and> (I' = I + 1 \<or> I' = I \<and> nff < length s \<and> c' = ready_time (s' ! nff))) never w"
proof -
  note D = batch_invD [OF inv]
  have len: "I < length s" using I D(5) by simp
  note slot = D(10) [OF len]
  obtain p where p: "pid (s ! I) = Some p" using slotD(3) [OF slot I(1)] by auto
  define t where "t = slice s nff I c"
  have exec: "0 \<le> execution_time (s ! I)" using slotD(1) [OF slot] .
  have t: "0 \<le> t" "t \<le> execution_time (s ! I)" "nff < length s \<Longrightarrow> c + t \<le> ready_time (s ! nff)"
    "t < execution_time (s ! I) \<Longrightarrow> nff < length s \<and> c + t = ready_time (s ! nff)"
    using later exec D(5) by (auto simp: t_def slice_def min_def split: if_splits)
  have le: "execution_time (s ! I) \<le> sum_list (map execution_time s)"
    using len slotD(1) [OF D(10)] by (intro elem_le_sum_list) (auto simp: in_set_conv_nth)
  have bound: "ready_time (s ! nff) \<le> INT_MAX" if "nff < length s"
    using batch_ready_bound(2) [OF inv that] le exec by linarith
  have asg: "wp (asg s (length s) nff I c) R never w =
      R (fst (after_assign w s nff I c p)) (snd (after_assign w s nff I c p))" for R
    using I(1) D(1,5,7,8) p exec le later bound by (intro asg_wp) (auto simp: less_imp_le)
  show ?thesis
  proof (cases "execution_time (s ! I) = t")
    case False
    then have less: "t < execution_time (s ! I)" using t by simp
    have "inv jobs (s[I := (s ! I)\<lparr>execution_time := execution_time (s ! I) - t\<rparr>]) I nff (c + t)
        (log_event (Ev_Setscheduler p 99 0) (log_event (Ev_Write (snd (fd (s ! I))) (chunk_text t)) w))"
      by (rule batch_inv_quiet [OF partial_keeps [OF inv I run t(1) less t(3) st]]) simp_all
    then show ?thesis
      using False t I by (simp add: begun_write asg after_assign_def t_def [symmetric] Let_def)
  next
    case True
    let ?w3 = "log_event (Ev_Wait (wait_ret (sys w) (trace w @ [Ev_Write (snd (fd (s ! I))) (chunk_text t)] @
        [Ev_Setscheduler p 99 0]))) (log_event (Ev_Setscheduler p 99 0)
        (log_event (Ev_Write (snd (fd (s ! I))) (chunk_text t)) w))"
    let ?now = "clock_now (sys w) (trace ?w3)"
    have "inv jobs (s[I := (s ! I)\<lparr>execution_time := 0, time1 := Some ?now\<rparr>]) (I + 1) nff (c + t)
        (log_event (Ev_Gettime ?now) ?w3)"
      using True t os_ok_time [OF D(1)] by (intro done_keeps [OF inv I run _ t(3) _ st]) auto
    then show ?thesis
      using True begun_next [OF inv I(1)] by (simp add: asg after_assign_def t_def [symmetric] Let_def)
  qed
qed

text \<open>A round keeps the invariant and lowers the rank; so the main loop ends, with every job done.\<close>

abbreviation batch_state :: "job list \<Rightarrow> nat \<Rightarrow> DATA list \<times> nat \<times> nat \<times> int \<Rightarrow> process \<Rightarrow> bool" where
  "batch_state jobs N v w \<equiv> (case v of (s, I, nff, c) \<Rightarrow> inv jobs s I nff c w \<and> begun s I (trace w) \<and> length s = N)"

lemma run_picked:
  assumes begun: "begun s I (trace w)" and "inv jobs s I n c w" "I < n" "n < length s \<Longrightarrow> c < ready_time (s ! n)" "N = length s"
    and "rank (s, I, n, c) \<le> k" "nff < N \<Longrightarrow> due \<Longrightarrow> nff < n" "nff \<le> n"
    and "k0 = 2 * (N - I) + 2 * (N - nff) + (if nff < N \<and> due then 0 else 1)"
  shows "wp (bind (pick s I n) (\<lambda>s. bind (asg s N n I c) (\<lambda>(s, I, c). return (s, I, n, c))))
    (\<lambda>v w'. batch_state jobs N v w' \<and> rank v < k0) never w"
  unfolding wp_bind
proof (rule wp_mono [OF pick_keeps [OF assms(2-4) begun]])
  fix s' w'
  assume "inv jobs s' I n c w' \<and> flag (s' ! I) = 0 \<and> length s' = length s \<and>
      stamped (trace w') (snd (fd (s' ! I))) (time0 (s' ! I)) \<and> (n < length s \<longrightarrow> s' ! n = s ! n) \<and> (\<forall>t. run_ok jobs (trace w') (job_of (trace w') (s' ! I)) t)"
  then have s': "inv jobs s' I n c w'" "flag (s' ! I) = 0" "N = length s'"
      "n < length s' \<Longrightarrow> c < ready_time (s' ! n)"
      "\<forall>t. run_ok jobs (trace w') (job_of (trace w') (s' ! I)) t" "stamped (trace w') (snd (fd (s' ! I))) (time0 (s' ! I))"
    using assms(4,5) by auto
  have "I < N" "n \<le> N" using assms(3) s'(3) batch_invD(5) [OF s'(1)] by auto
  then show "wp (asg s' N n I c) (\<lambda>a. wp (case a of (s, I, c) \<Rightarrow> return (s, I, n, c))
      (\<lambda>v w'. batch_state jobs N v w' \<and> rank v < k0) never) never w'"
    using s'(3) assms(7-9)
    by (auto intro!: wp_mono [OF asg_keeps [OF s'(1) assms(3) s'(2,4,5,6)]] simp: wp_rules rank_def)
qed simp

lemma batch_round_keeps:
  assumes inv: "inv jobs s I nff c w" and I: "I < N" and N: "N = length s"
    and begun: "begun s I (trace w)"
  shows "wp (batch_round pick asg N (s, I, nff, c))
    (\<lambda>v w'. batch_state jobs N v w' \<and> rank v < rank (s, I, nff, c)) never w"
  unfolding batch_round_def prod.case wp_bind N
proof (rule wp_mono [OF waitLoop_keeps [OF inv I [unfolded N]]])
  fix c1 w1
  assume "inv jobs s I nff c1 w1 \<and> c \<le> c1 \<and> begun s I (trace w1) = begun s I (trace w) \<and>
      (if I = nff then c1 = ready_time (s ! I) else c1 = c)"
  then have c1: "inv jobs s I nff c1 w1" "I = nff \<Longrightarrow> c1 = ready_time (s ! I)" "I \<noteq> nff \<Longrightarrow> c1 = c"
      "begun s I (trace w1)" using begun
    by (auto split: if_splits)
  show "wp (executeFork s nff c1 (length s)) (\<lambda>a. wp (case a of (s', nff) \<Rightarrow> bind (pick s' I nff)
      (\<lambda>s'. bind (asg s' (length s) nff I c1) (\<lambda>(s, I, c). return (s, I, nff, c))))
      (\<lambda>v w'. batch_state jobs (length s) v w' \<and> rank v < rank (s, I, nff, c)) never) never w1"
  proof (rule wp_mono [OF executeFork_keeps [OF c1(1) I [unfolded N] c1(2)]])
    fix v w2
    assume "case v of (s', n') \<Rightarrow> length s' = length s \<and> inv jobs s' I n' c1 w2 \<and>
        begun s' I (trace w2) = begun s I (trace w1) \<and> I < n' \<and> nff \<le> n' \<and> (n' < length s \<longrightarrow> c1 < ready_time (s' ! n')) \<and>
        (nff < length s \<longrightarrow> c1 = ready_time (s ! nff) \<longrightarrow> nff < n')"
    then obtain s' n' where v: "v = (s', n')" "length s' = length s" "inv jobs s' I n' c1 w2" "I < n'" "nff \<le> n'"
        "n' < length s' \<Longrightarrow> c1 < ready_time (s' ! n')"
        "nff < length s \<Longrightarrow> c1 = ready_time (s ! nff) \<Longrightarrow> nff < n'" "begun s' I (trace w2)"
      using c1(4) by auto
    have due: "nff < length s \<Longrightarrow> c = ready_time (s ! nff) \<Longrightarrow> nff < n'"
      using v(7) c1(2,3) by (cases "I = nff") auto
    show "wp (case v of (s', nff) \<Rightarrow> bind (pick s' I nff)
        (\<lambda>s'. bind (asg s' (length s) nff I c1) (\<lambda>(s, I, c). return (s, I, nff, c))))
        (\<lambda>v w'. batch_state jobs (length s) v w' \<and> rank v < rank (s, I, nff, c)) never w2"
      unfolding v(1) prod.case
      by (rule run_picked [OF v(8,3,4,6) v(2) [symmetric] order_refl due v(5)]) (simp_all add: rank_def)
  qed simp
qed simp

lemma batch_loop:
  assumes "inv jobs s I nff c w" "N = length s" "begun s I (trace w)"
  shows "wp (whileM (\<lambda>(s, I, nff, c). I < N) (batch_round pick asg N) (s, I, nff, c))
    (\<lambda>v w'. case v of (s', I', nff', c') \<Rightarrow> inv jobs s' I' nff' c' w' \<and> length s' = N \<and> I' = N) never w"
proof (rule wp_whileM [where I = "batch_state jobs N" and \<mu> = "\<lambda>v _. rank v"])
  show "batch_state jobs N (s, I, nff, c) w" using assms by simp
next
  fix v w' assume "batch_state jobs N v w'" "case v of (s, I, nff, c) \<Rightarrow> I < N"
  then show "wp (batch_round pick asg N v) (\<lambda>v' w''. batch_state jobs N v' w'' \<and> rank v' < rank v) never w'"
    by (cases v) (auto intro!: batch_round_keeps)
next
  fix v w' assume "batch_state jobs N v w'" "\<not> (case v of (s, I, nff, c) \<Rightarrow> I < N)"
  then show "case v of (s', I', nff', c') \<Rightarrow> inv jobs s' I' nff' c' w' \<and> length s' = N \<and> I' = N"
    using batch_invD(4,5) [of run_ok extra jobs "fst v" "fst (snd v)" "fst (snd (snd v))" "snd (snd (snd v))" w']
    by (cases v) auto
qed

end

end
