(* ===== verification/Workload.thy ===== *)
theory Workload
  imports Batch_Engine
begin

text \<open>
  The input of the schedulers and the state it is read into. \<open>reads_jobs\<close> says what the \<open>scanf\<close>
  calls find in a text, \<open>show_workload\<close> is the format of the files under \<open>prj1/OS_PJ1_Test\<close>.
  After \<open>readFile\<close> and the sort by ready time, the invariant of the main loop holds.
\<close>

fun reads_jobs :: "string \<Rightarrow> workload \<Rightarrow> bool" where
  "reads_jobs s [] = True"
| "reads_jobs s ((n, r, e) # ws) = (case scan_s s of
     None \<Rightarrow> False
   | Some (n', s1) \<Rightarrow> n' = n \<and> (case scan_d s1 of
       Scan_Int r' s2 \<Rightarrow> r' = r \<and> (case scan_d s2 of
         Scan_Int e' s3 \<Rightarrow> e' = e \<and> reads_jobs s3 ws
       | _ \<Rightarrow> False)
     | _ \<Rightarrow> False))"

definition reads_workload :: "string \<Rightarrow> workload \<Rightarrow> bool" where
  "reads_workload s ws = (case scan_d s of
     Scan_Int v r \<Rightarrow> v = int (length ws) \<and> reads_jobs r ws
   | _ \<Rightarrow> False)"

lemma reads_jobs_Cons: "reads_jobs s ((n, r, e) # ws) \<longleftrightarrow>
    (\<exists>s1 s2 s3. scan_s s = Some (n, s1) \<and> scan_d s1 = Scan_Int r s2 \<and> scan_d s2 = Scan_Int e s3 \<and> reads_jobs s3 ws)"
  by (auto split: option.splits scanned.splits)

declare reads_jobs.simps(2) [simp del]

lemma reads_workload_iff: "reads_workload s ws \<longleftrightarrow>
    (\<exists>r. scan_d s = Scan_Int (int (length ws)) r \<and> reads_jobs r ws)"
  by (auto simp: reads_workload_def split: scanned.split)

text \<open>Workloads that fit the C types: short names, times whose sum is an \<open>int\<close>.\<close>

definition fits :: "nat \<Rightarrow> workload \<Rightarrow> bool" where
  "fits cap ws = (int (length ws) \<le> INT_MAX \<and>
     (\<forall>(n, r, e) \<in> set ws. length n < cap \<and> 0 \<le> r \<and> 0 \<le> e \<and>
        r + sum_list (map (\<lambda>(n, r, e). e) ws) \<le> INT_MAX))"

lemma fitsD:
  assumes "fits cap ws" "(n, r, e) \<in> set ws"
  shows "length n < cap" "0 \<le> r" "0 \<le> e" "r + sum_list (map (\<lambda>(n, r, e). e) ws) \<le> INT_MAX"
    "r \<le> INT_MAX" "e \<le> INT_MAX"
proof -
  show *: "length n < cap" "0 \<le> r" "0 \<le> e" "r + sum_list (map (\<lambda>(n, r, e). e) ws) \<le> INT_MAX"
    using assms by (auto simp: fits_def)
  have "e \<le> sum_list (map (\<lambda>(n, r, e). e) ws)"
    using elem_le_sum_list [OF assms(2), of "\<lambda>(n, r, e). e"] assms(1) by (fastforce simp: fits_def)
  with * show "r \<le> INT_MAX" "e \<le> INT_MAX" by auto
qed

subsection \<open>Printed workloads are read back\<close>

definition show_job :: "string \<times> int \<times> int \<Rightarrow> string" where
  "show_job = (\<lambda>(n, r, e). n @ '' '' @ show_int r @ '' '' @ show_int e @ newline)"

definition show_workload :: "workload \<Rightarrow> string" where
  "show_workload ws = show_int (int (length ws)) @ newline @ concat (map show_job ws)"

definition words_ok :: "workload \<Rightarrow> bool" where
  "words_ok ws = (\<forall>(n, r, e) \<in> set ws. n \<noteq> [] \<and> (\<forall>c \<in> set n. \<not> is_space c))"

lemma newline_not_digit [simp]: "\<not> is_digit (CHR 0x0A)"
  by (simp add: is_digit_def)

lemma scan_d_newline [simp]: "scan_d (CHR 0x0A # s) = scan_d s"
  by (simp add: scan_d_def)

lemma reads_jobs_blank [simp]: "is_space c \<Longrightarrow> reads_jobs (c # s) ws = reads_jobs s ws"
  by (cases ws) (auto simp: reads_jobs_Cons)

lemma reads_show_jobs: "words_ok ws \<Longrightarrow> reads_jobs (concat (map show_job ws)) ws"
proof (induction ws)
  case (Cons x ws)
  obtain n r e where x: "x = (n, r, e)" by (cases x)
  let ?rest = "concat (map show_job ws)"
  have n: "n \<noteq> []" "\<And>c. c \<in> set n \<Longrightarrow> \<not> is_space c" and ws: "words_ok ws"
    using Cons.prems by (auto simp: words_ok_def x)
  have "scan_s (n @ '' '' @ show_int r @ '' '' @ show_int e @ newline @ ?rest) =
      Some (n, '' '' @ show_int r @ '' '' @ show_int e @ newline @ ?rest)"
    using n by (intro scan_s_word) auto
  moreover have "scan_d (show_int r @ '' '' @ show_int e @ newline @ ?rest) =
      Scan_Int r ('' '' @ show_int e @ newline @ ?rest)"
    by (rule scan_d_show_int) simp
  moreover have "scan_d (show_int e @ newline @ ?rest) = Scan_Int e (newline @ ?rest)"
    by (rule scan_d_show_int) (simp add: newline_def)
  ultimately show ?case
    using Cons.IH [OF ws] by (simp add: x reads_jobs_Cons show_job_def newline_def)
qed simp

lemma reads_show_workload: "words_ok ws \<Longrightarrow> reads_workload (show_workload ws) ws"
  using scan_d_show_int [of "newline @ concat (map show_job ws)" "int (length ws)"]
  by (simp add: reads_workload_iff show_workload_def newline_def reads_show_jobs)

section \<open>Reading it\<close>

text \<open>Before the first fork a trace has made pipes and set flags and priorities, nothing else.\<close>

fun preparing :: "event \<Rightarrow> bool" where
  "preparing (Ev_Pipe r s) = True"
| "preparing (Ev_Cloexec f) = True"
| "preparing (Ev_Setscheduler p q r) = True"
| "preparing _ = False"

lemma preparing_trace:
  assumes "list_all preparing h"
  shows "elapsed h = 0" "writes f h = []" "chunks f h = []" "sent f h = 0" "completions h = []"
    "every (obeys run_ok jobs) h" "fst ` set (pipes h) \<union> snd ` set (pipes h) \<subseteq> open_fds h"
  using assms
proof (induction h rule: rev_induct)
  case (snoc e h)
  { case 1 with snoc show ?case by (cases e) auto }
  { case 2 with snoc show ?case by (cases e) auto }
  { case 3 with snoc show ?case by (cases e) auto }
  { case 4 with snoc show ?case by (cases e) auto }
  { case 5 with snoc show ?case by (cases e) auto }
  { case 6 with snoc show ?case by (cases e) auto }
  { case 7 with snoc show ?case by (cases e) auto }
qed (simp_all add: open_fds_def)

definition pipes_distinct :: "event list \<Rightarrow> bool" where
  "pipes_distinct h = (distinct (map fst (pipes h)) \<and> distinct (map snd (pipes h)))"

text \<open>What \<open>readJob\<close> has stored in entry \<open>i\<close>, given the input line and the pipe it made.\<close>

definition entry_ok :: "string \<times> int \<times> int \<Rightarrow> int \<times> int \<Rightarrow> DATA \<Rightarrow> bool" where
  "entry_ok = (\<lambda>(n, r, e) p d. name d = n \<and> ready_time d = r \<and> execution_time d = e \<and> fd d = p \<and> flag d = 1)"

definition reading :: "os \<Rightarrow> workload \<Rightarrow> nat \<Rightarrow> DATA list \<Rightarrow> process \<Rightarrow> bool" where
  "reading os ws k s w = (sys w = os \<and> length s = length ws \<and> reads_jobs (stdin w) (drop k ws) \<and>
     list_all preparing (trace w) \<and> pipes_distinct (trace w) \<and> length (pipes (trace w)) = k \<and>
     (\<forall>i < k. entry_ok (ws ! i) (pipes (trace w) ! i) (s ! i)))"

lemma readJob_reads:
  assumes r: "reading os ws k s w" and k: "k < length ws" and os: "os_ok os" and ws: "fits 32 ws"
  shows "wp (readJob k s) (reading os ws (Suc k)) never w"
proof -
  obtain n r e where line: "ws ! k = (n, r, e)" by (cases "ws ! k")
  then have mem: "(n, r, e) \<in> set ws" using k nth_mem by metis
  have "drop k ws = (n, r, e) # drop (Suc k) ws" using k line by (simp add: Cons_nth_drop_Suc [symmetric])
  then obtain s1 s2 s3 where scan: "scan_s (stdin w) = Some (n, s1)" "scan_d s1 = Scan_Int r s2"
      "scan_d s2 = Scan_Int e s3" "reads_jobs s3 (drop (Suc k) ws)"
    using assms(1) by (auto simp: reading_def reads_jobs_Cons)
  obtain a b where p: "pipe_fds (sys w) (trace w) = Some (a, b)" "a \<notin> open_fds (trace w)" "b \<notin> open_fds (trace w)"
    using os_ok_pipe [OF os, of "trace w"] r by (auto simp: reading_def)
  then have "a \<notin> fst ` set (pipes (trace w))" "b \<notin> snd ` set (pipes (trace w))"
    using preparing_trace(7) [of "trace w"] r by (auto simp: reading_def)
  then show ?thesis
    using r k fitsD [OF ws mem] line scan p
    by (auto simp: readJob_def wp_rules wp_scanf_s wp_scanf_d reading_def pipes_distinct_def entry_ok_def
        nth_append less_Suc_eq nth_list_update simp del: append_assoc)
qed

lemma readFile_reads:
  assumes "reading os ws 0 s w" "os_ok os" "fits 32 ws"
  shows "wp (readFile (length ws) s) (reading os ws (length ws)) never w"
  unfolding readFile_def
  by (rule wp_forM [where I = "reading os ws"]) (use assms in \<open>auto intro: readJob_reads\<close>)

section \<open>From the input to the main loop\<close>

lemma jobs_of_maps:
  assumes "length (pipes h) = length ws"
  shows "map jwr (jobs_of ws h) = map snd (pipes h)" "map jrd (jobs_of ws h) = map fst (pipes h)"
    "map (\<lambda>j. (jname j, jready j, jexec j)) (jobs_of ws h) = ws"
    "map (\<lambda>j. (jrd j, jwr j)) (jobs_of ws h) = pipes h" "length (jobs_of ws h) = length ws"
  using assms by (auto simp: jobs_of_def intro!: nth_equalityI split: prod.split)

lemma jobs_of_cong: "pipes h = pipes h' \<Longrightarrow> jobs_of ws h = jobs_of ws h'"
  by (simp add: jobs_of_def)

lemma workload_ok_jobs_of:
  assumes "fits cap ws" "pipes_distinct h" "length (pipes h) = length ws"
  shows "workload_ok (jobs_of ws h)"
proof -
  note maps = jobs_of_maps [OF assms(3)]
  have "map jexec (jobs_of ws h) = map (\<lambda>(n, r, e). e) (map (\<lambda>j. (jname j, jready j, jexec j)) (jobs_of ws h))"
    by simp
  then have total: "sum_list (map jexec (jobs_of ws h)) = sum_list (map (\<lambda>(n, r, e). e) ws)"
    using maps(3) by simp
  have "(jname j, jready j, jexec j) \<in> set ws" if "j \<in> set (jobs_of ws h)" for j
    using that maps(3) by (metis (no_types, lifting) image_eqI list.set_map)
  then have "0 \<le> jready j \<and> 0 \<le> jexec j \<and> jready j + sum_list (map jexec (jobs_of ws h)) \<le> INT_MAX"
    if "j \<in> set (jobs_of ws h)" for j
    using fitsD(2-4) [OF assms(1)] that total by metis
  then show ?thesis
    using assms(2) unfolding workload_ok_def maps(1,2) pipes_distinct_def by blast
qed

lemma cmp_key: "key_cmp cmp ready_time"
  by (simp add: key_cmp_def cmp_def)

lemma entries_are_jobs:
  assumes "reading os ws (length ws) s w"
  shows "map (job_of (trace w)) s = jobs_of ws (trace w)"
  using assms preparing_trace(4) [of "trace w"]
  by (auto simp: reading_def entry_ok_def jobs_of_def job_of_def list_all_iff
      intro!: nth_equalityI split: prod.splits)

lemma reading_entry:
  assumes r: "reading os ws (length ws) s w" and ws: "fits 32 ws" and d: "d \<in> set s"
  shows "0 \<le> execution_time d \<and> 0 \<le> ready_time d \<and> flag d = 1"
proof -
  have len: "length s = length ws" using r by (simp add: reading_def)
  obtain i where i: "i < length ws" "d = s ! i" using d unfolding in_set_conv_nth len by blast
  obtain n x e where line: "ws ! i = (n, x, e)" by (cases "ws ! i")
  then have "(n, x, e) \<in> set ws" using nth_mem [OF i(1)] by simp
  moreover have "entry_ok (n, x, e) (pipes (trace w) ! i) d"
    using r i line [symmetric] by (simp add: reading_def)
  ultimately show ?thesis using fitsD(2,3) [OF ws] by (simp add: entry_ok_def)
qed

lemma preparing_printed: "list_all preparing h \<Longrightarrow> printed h = []"
proof (induction h)
  case (Cons e h)
  then show ?case by (cases e) simp_all
qed simp

lemma initial_inv:
  assumes r: "reading os ws (length ws) s w" and os: "os_ok os" and ws: "fits 32 ws"
    and extra: "extra (map view (qsort cmp s)) 0 0 []"
  shows "batch_inv run_ok extra (jobs_of ws (trace w)) (qsort cmp s) 0 0 0 w"
proof -
  let ?jobs = "jobs_of ws (trace w)"
  have prep: "list_all preparing (trace w)" and len: "length (pipes (trace w)) = length ws"
    and dist: "pipes_distinct (trace w)" using r by (simp_all add: reading_def)
  note quiet = preparing_trace [OF prep]
  have jobs: "map (job_of (trace w)) s = ?jobs" by (rule entries_are_jobs [OF r])
  have ok: "workload_ok ?jobs" using workload_ok_jobs_of [OF ws dist len] .
  note entries = reading_entry [OF r ws]
  have exec: "sum_list (map execution_time s) \<le> INT_MAX"
  proof (cases "ws = []")
    case True
    then show ?thesis using r by (simp add: reading_def)
  next
    case False
    then have "?jobs \<noteq> []" using jobs_of_maps(5) [OF len] by auto
    then obtain j where j: "j \<in> set ?jobs" by (cases ?jobs) auto
    have "map jexec ?jobs = map execution_time s"
      using quiet(4) unfolding jobs [symmetric] by simp
    then show ?thesis using workload_okD(1,3) [OF ok j] by simp
  qed
  have m: "mset (qsort cmp s) = mset s" by simp
  have "sum_list (map execution_time (qsort cmp s)) = sum_list (map execution_time s)"
    using m by (metis mset_map sum_mset_sum_list)
  moreover have "slot 0 0 0 (trace w) i (qsort cmp s ! i)" if "i < length (qsort cmp s)" for i
  proof -
    have "qsort cmp s ! i \<in> set s" using nth_mem [OF that] by (simp add: libc.srt_set)
    then show ?thesis using entries quiet(3) by (auto simp: slot_def)
  qed
  moreover have "mset (map (job_of (trace w)) (qsort cmp s)) = mset ?jobs"
    unfolding jobs [symmetric] by simp
  ultimately show ?thesis
    using r os ok exec extra quiet(1,5,6) libc.orders [OF cmp_key] jobs_of_maps(4) [OF len] preparing_printed [OF prep]
    unfolding batch_inv_def by (simp add: reading_def)
qed

lemma initial_begun:
  assumes "reading os ws (length ws) s w" "fits 32 ws"
  shows "begun (qsort cmp s) 0 h"
proof -
  have "flag d = 1" if "d \<in> set (qsort cmp s)" for d
    using reading_entry [OF assms] that by (simp add: libc.srt_set)
  then show ?thesis by (auto simp: begun_def)
qed

section \<open>Printing the results\<close>

definition job_line :: "DATA \<Rightarrow> string" where
  "job_line d = result_line (the (pid d)) (the (time0 d)) (the (time1 d))"

lemma printJobs:
  assumes inv: "batch_inv run_ok extra jobs s (length s) nff c w"
  shows "wp (forM [0..<length s] (printJob s) ()) (\<lambda>_ w'.
    w' = w\<lparr>trace := trace w @ map Ev_Myprint (map job_line s)\<rparr>) never w"
proof (rule wp_forM [where I = "\<lambda>k _ w'. w' = w\<lparr>trace := trace w @ map Ev_Myprint (map job_line (take k s))\<rparr>"])
  fix k u w'
  assume k: "k < length [0..<length s]"
    and w': "w' = w\<lparr>trace := trace w @ map Ev_Myprint (map job_line (take k s))\<rparr>"
  have "k < nff" "slot (length s) nff c (trace w) k (s ! k)"
    using batch_invD(4,10) [OF inv] k by auto
  then obtain p t0 t1 where "pid (s ! k) = Some p" "0 < p" "p \<le> INT_MAX"
      "time0 (s ! k) = Some t0" "time1 (s ! k) = Some t1" "time_ok t0" "time_ok t1"
    using k by (auto simp: slot_def recorded_def)
  then show "wp (printJob s ([0..<length s] ! k) u) (\<lambda>_ w'. w' = w\<lparr>trace := trace w @
      map Ev_Myprint (map job_line (take (Suc k) s))\<rparr>) never w'"
    using k by (simp add: printJob_def wp_rules print_result_ok w' job_line_def take_Suc_conv_app_nth)
qed simp_all

lemma elapsed_prints [simp]: "elapsed (map Ev_Myprint ls) = 0"
  by (induction ls) (simp_all add: elapsed_def)

lemma prints_change_nothing:
  "elapsed (h @ map Ev_Myprint ls) = elapsed h" "sent f (h @ map Ev_Myprint ls) = sent f h"
  "chunks f (h @ map Ev_Myprint ls) = chunks f h" "pipes (h @ map Ev_Myprint ls) = pipes h"
  "completions (h @ map Ev_Myprint ls) = completions h"
  "every (obeys run_ok jobs) (h @ map Ev_Myprint ls) = every (obeys run_ok jobs) h"
  by (induction ls rule: rev_induct) (simp_all flip: append_assoc)

section \<open>The main function of both batch schedulers\<close>

definition batch_main :: "(nat \<Rightarrow> DATA list \<times> nat \<times> nat \<times> int \<Rightarrow>
    (process, DATA list \<times> nat \<times> nat \<times> int) prog) \<Rightarrow> (process, int) prog" where
  "batch_main rnd =
     bind (sys_setscheduler 0 98) (\<lambda>_.
     bind scanf_d (\<lambda>n.
     if n < 0 then undef Bad_Size
     else let N = nat n in
       bind (readFile N (malloc_DATA N)) (\<lambda>s.
       bind (whileM (\<lambda>(s, I, nff, c). I < N) (rnd N) (qsort cmp s, 0, 0, 0)) (\<lambda>(s, I, nff, c).
       andThen (forM [0..<N] (printJob s) ()) (return 0)))))"

text \<open>How a run ends: the loop's invariant at its exit, then one printed line per job.\<close>

definition batch_outcome :: "policy \<Rightarrow> ((int \<times> int \<times> int) list \<Rightarrow> nat \<Rightarrow> int \<Rightarrow> (int \<times> int) list \<Rightarrow> bool) \<Rightarrow>
    workload \<Rightarrow> process \<Rightarrow> bool" where
  "batch_outcome run_ok extra ws w' = (\<exists>s nff c w1.
     batch_inv run_ok extra (jobs_of ws (trace w1)) s (length s) nff c w1 \<and> length s = length ws \<and>
     w' = w1\<lparr>trace := trace w1 @ map Ev_Myprint (map job_line s)\<rparr>)"

lemma batch_main_run:
  assumes os: "os_ok (sys w)" and start: "trace w = []" and input: "reads_workload (stdin w) ws"
    and ws: "fits 32 ws"
    and loop: "\<And>s w1. reading (sys w) ws (length ws) s w1 \<Longrightarrow>
      wp (whileM (\<lambda>(s, I, nff, c). I < length ws) (rnd (length ws)) (qsort cmp s, 0, 0, 0))
        (\<lambda>v w'. case v of (s', I, nff, c) \<Rightarrow> length s' = length ws \<and> I = length ws \<and>
           (\<exists>x. X x (jobs_of ws (trace w1)) \<and> batch_inv run_ok (extra x) (jobs_of ws (trace w1)) s' I nff c w')) never w1"
  shows "wp (batch_main rnd) (\<lambda>r w'. r = 0 \<and> (\<exists>x. X x (jobs_of ws (trace w')) \<and> batch_outcome run_ok (extra x) ws w')) never w"
proof -
  obtain r where r: "scan_d (stdin w) = Scan_Int (int (length ws)) r" "reads_jobs r ws"
    using input by (auto simp: reads_workload_iff)
  define w0 where "w0 = w\<lparr>trace := [Ev_Setscheduler 0 98 (setscheduler_ret (sys w) [] 0 98)], stdin := r\<rparr>"
  have "reading (sys w) ws 0 (malloc_DATA (length ws)) w0"
    using r by (simp add: reading_def w0_def malloc_DATA_def pipes_distinct_def pipes_def)
  note read = readFile_reads [OF this os ws]
  have "wp (bind (readFile (length ws) (malloc_DATA (length ws))) (\<lambda>s.
       bind (whileM (\<lambda>(s, I, nff, c). I < length ws) (rnd (length ws)) (qsort cmp s, 0, 0, 0)) (\<lambda>(s, I, nff, c).
       andThen (forM [0..<length ws] (printJob s) ()) (return 0))))
     (\<lambda>r w'. r = 0 \<and> (\<exists>x. X x (jobs_of ws (trace w')) \<and> batch_outcome run_ok (extra x) ws w')) never w0"
    unfolding wp_bind
  proof (rule wp_mono [OF read])
    fix s w1 assume "reading (sys w) ws (length ws) s w1"
    from loop [OF this]
    show "wp (whileM (\<lambda>(s, I, nff, c). I < length ws) (rnd (length ws)) (qsort cmp s, 0, 0, 0))
      (\<lambda>v. wp (case v of (s, I, nff, c) \<Rightarrow> andThen (forM [0..<length ws] (printJob s) ()) (return 0))
        (\<lambda>r w'. r = 0 \<and> (\<exists>x. X x (jobs_of ws (trace w')) \<and> batch_outcome run_ok (extra x) ws w')) never) never w1"
    proof (rule wp_mono)
      fix v w2
      assume "case v of (s', I, nff, c) \<Rightarrow> length s' = length ws \<and> I = length ws \<and>
           (\<exists>x. X x (jobs_of ws (trace w1)) \<and> batch_inv run_ok (extra x) (jobs_of ws (trace w1)) s' I nff c w2)"
      then obtain s' nff c x where v: "v = (s', length ws, nff, c)" "length s' = length ws"
        and x: "X x (jobs_of ws (trace w1))"
        and inv: "batch_inv run_ok (extra x) (jobs_of ws (trace w1)) s' (length s') nff c w2"
        by (cases v) auto
      have len: "length (pipes (trace w1)) = length ws"
        using \<open>reading (sys w) ws (length ws) s w1\<close> by (simp add: reading_def)
      have jobs: "jobs_of ws (trace w1) = jobs_of ws (trace w2)"
        by (rule jobs_of_cong) (use batch_invD(13) [OF inv] jobs_of_maps(4) [OF len] in simp)
      show "wp (case v of (s, I, nff, c) \<Rightarrow> andThen (forM [0..<length ws] (printJob s) ()) (return 0))
        (\<lambda>r w'. r = 0 \<and> (\<exists>x. X x (jobs_of ws (trace w')) \<and> batch_outcome run_ok (extra x) ws w')) never w2"
        unfolding v(1) prod.case wp_andThen v(2) [symmetric]
      proof (rule wp_mono [OF printJobs [OF inv]])
        fix u w'
        assume w': "w' = w2\<lparr>trace := trace w2 @ map Ev_Myprint (map job_line s')\<rparr>"
        have "jobs_of ws (trace w') = jobs_of ws (trace w2)"
          unfolding w' by (rule jobs_of_cong) (simp del: map_map add: prints_change_nothing)
        moreover have "batch_outcome run_ok (extra x) ws w'"
          unfolding batch_outcome_def
          by (intro exI [of _ s'] exI [of _ nff] exI [of _ c] exI [of _ w2]) (use inv jobs v(2) w' in simp)
        ultimately show "wp (return 0) (\<lambda>r w'. r = 0 \<and> (\<exists>x. X x (jobs_of ws (trace w')) \<and>
            batch_outcome run_ok (extra x) ws w')) never w'"
          using x jobs by (auto simp: wp_return)
      qed simp
    qed simp
  qed simp
  then show ?thesis
    using r fits_def [of 32 ws] ws start
    by (simp add: batch_main_def wp_rules wp_scanf_d [where v = "int (length ws)" and r = r] Let_def w0_def)
qed

text \<open>What an outcome says of the trace.\<close>

lemma batch_outcome_facts:
  assumes "batch_outcome run_ok extra ws w'"
  shows "every (obeys run_ok (jobs_of ws (trace w'))) (trace w')" "workload_ok (jobs_of ws (trace w'))"
    "map (\<lambda>j. (jname j, jready j, jexec j)) (jobs_of ws (trace w')) = ws"
    "\<forall>j \<in> set (jobs_of ws (trace w')). finished (trace w') j"
    "\<exists>h ls. trace w' = h @ map Ev_Myprint ls \<and> length ls = length ws"
    "\<exists>s. length s = length ws \<and> mset (map (job_of (trace w')) s) = mset (jobs_of ws (trace w')) \<and>
       (\<forall>d \<in> set s. execution_time d = 0) \<and>
       extra (map view s) (length ws) (elapsed (trace w')) (completions (trace w'))"
proof -
  obtain s nff c w1 where inv: "batch_inv run_ok extra (jobs_of ws (trace w1)) s (length s) nff c w1"
    and len: "length s = length ws" and w': "w' = w1\<lparr>trace := trace w1 @ map Ev_Myprint (map job_line s)\<rparr>"
    using assms by (auto simp: batch_outcome_def)
  note D = batch_invD [OF inv]
  have same: "jobs_of ws (trace w') = jobs_of ws (trace w1)" "job_of (trace w') = job_of (trace w1)"
    "finished (trace w') = finished (trace w1)"
    by (auto simp: w' job_of_def finished_def fun_eq_iff prints_change_nothing simp del: map_map intro!: jobs_of_cong)
  have done_all: "execution_time d = 0" if "d \<in> set s" for d
    using that slotD(5) [OF D(10)] by (auto simp: in_set_conv_nth)
  show "every (obeys run_ok (jobs_of ws (trace w'))) (trace w')"
    unfolding same(1) using D(11) by (simp add: w' prints_change_nothing del: map_map)
  show "workload_ok (jobs_of ws (trace w'))" unfolding same(1) by (rule D(2))
  have "length (pipes (trace w1)) = length ws"
    using D(3,13) len by (metis length_map mset_eq_length)
  then show "map (\<lambda>j. (jname j, jready j, jexec j)) (jobs_of ws (trace w')) = ws"
    unfolding same(1) by (rule jobs_of_maps(3))
  show "\<forall>j \<in> set (jobs_of ws (trace w')). finished (trace w') j"
    unfolding same using batch_job_index [OF inv] batch_done_below [OF inv] by metis
  show "\<exists>h ls. trace w' = h @ map Ev_Myprint ls \<and> length ls = length ws"
    using len w' by (intro exI [of _ "trace w1"] exI [of _ "map job_line s"]) simp
  have "extra (map view s) (length ws) (elapsed (trace w')) (completions (trace w'))"
    using D(6,12) len by (simp add: w' prints_change_nothing del: map_map)
  then show "\<exists>s. length s = length ws \<and> mset (map (job_of (trace w')) s) = mset (jobs_of ws (trace w')) \<and>
       (\<forall>d \<in> set s. execution_time d = 0) \<and>
       extra (map view s) (length ws) (elapsed (trace w')) (completions (trace w'))"
    unfolding same using D(3) len done_all by (intro exI [of _ s]) blast
qed

text \<open>The printed lines: one per job, in the order in which the jobs ended, with its times.\<close>

definition prints_jobs :: "workload \<Rightarrow> event list \<Rightarrow> bool" where
  "prints_jobs ws h = (\<exists>js. mset js = mset (jobs_of ws h) \<and> map jwr js = map fst (completions h) \<and>
     list_all2 (line_of_job h) js (printed h))"

lemma slot_line:
  assumes "slot (length s) nff c h i d" "i < length s" "i < nff"
  shows "line_of_job h (job_of h d) (job_line d)"
  using slotD(9-12) [OF assms(1)] assms(2,3) unfolding line_of_job_def job_line_def by auto

lemma printed_lines [simp]: "printed (map Ev_Myprint ls) = ls"
  by (induction ls) simp_all

lemma batch_outcome_prints:
  assumes "batch_outcome run_ok extra ws w'"
  shows "prints_jobs ws (trace w')"
proof -
  obtain s nff c w1 where inv: "batch_inv run_ok extra (jobs_of ws (trace w1)) s (length s) nff c w1"
    and w': "w' = w1\<lparr>trace := trace w1 @ map Ev_Myprint (map job_line s)\<rparr>"
    using assms by (auto simp: batch_outcome_def)
  note D = batch_invD [OF inv]
  let ?js = "map (job_of (trace w1)) s"
  have "jobs_of ws (trace w') = jobs_of ws (trace w1)"
    unfolding w' by (rule jobs_of_cong) (simp del: map_map add: prints_change_nothing)
  moreover have "map jwr ?js = map fst (completions (trace w'))"
    using D(14) by (simp add: w' prints_change_nothing del: map_map) simp
  moreover have "list_all2 (line_of_job (trace w')) ?js (map job_line s)"
    using D(4) slot_line [OF D(10)] by (auto simp: list_all2_conv_all_nth w' intro!: line_of_job_more)
  moreover have "printed (trace w') = map job_line s"
    using D(15) by (simp add: w' del: map_map)
  ultimately show ?thesis unfolding prints_jobs_def using D(3) by (intro exI [of _ ?js]) simp
qed

end
