(* ===== verification/Samples.thy ===== *)
theory Samples
  imports Workload
begin

text \<open>
  A concrete operating system and input on which the hypotheses of the schedulers' theorems hold:
  system calls succeed, descriptors are handed out in increasing order, the clock counts the calls.
\<close>

fun fd_bound :: "event \<Rightarrow> int" where
  "fd_bound (Ev_Pipe r s) = max 0 r + max 0 s"
| "fd_bound _ = 0"

definition fresh_fd :: "event list \<Rightarrow> int" where
  "fresh_fd h = 3 + sum_list (map fd_bound h)"

definition sample_os :: os where
  "sample_os = \<lparr>pipe_fds = (\<lambda>h. Some (fresh_fd h, fresh_fd h + 1)), fork_ret = (\<lambda>h. 1000),
     execl_ok = (\<lambda>h. True), setscheduler_ret = (\<lambda>h p prio. 0), wait_ret = (\<lambda>h. 1000),
     waitpid_ret = (\<lambda>h p. p * p), clock_now = (\<lambda>h. \<lparr>tv_sec = 0, tv_nsec = min (int (length h)) (10 ^ 9 - 1)\<rparr>),
     own_pid = 1\<rparr>"

definition sample_jobs :: workload where
  "sample_jobs = [(''P1'', 2, 5), (''P2'', 0, 3), (''P3'', 9, 1)]"

definition sample_process :: process where
  "sample_process = \<lparr>sys = sample_os, stdin = show_workload sample_jobs, stdin_open = False, trace = []\<rparr>"

lemma fd_bound_nonneg: "0 \<le> fd_bound e"
  by (cases e) auto

lemma open_fds_below: "f \<in> open_fds h \<Longrightarrow> f < fresh_fd h"
proof (induction h rule: rev_induct)
  case (snoc e h)
  have "0 \<le> fd_bound e" "0 \<le> sum_list (map fd_bound h)"
    by (auto intro!: sum_list_nonneg fd_bound_nonneg)
  then show ?case using snoc by (cases e) (auto simp: fresh_fd_def)
qed (auto simp: open_fds_def fresh_fd_def)

lemma sample_os_ok: "os_ok sample_os"
proof -
  have "fresh_fd h \<notin> open_fds h" "fresh_fd h + 1 \<notin> open_fds h" for h
    using open_fds_below [of "fresh_fd h" h] open_fds_below [of "fresh_fd h + 1" h] by auto
  then show ?thesis by (simp add: os_ok_def sample_os_def min_less_iff_disj)
qed

lemma sample_process_ok:
  "os_ok (sys sample_process)" "trace sample_process = []"
  "reads_workload (stdin sample_process) sample_jobs" "fits 32 sample_jobs"
proof -
  have "words_ok sample_jobs" by (simp add: words_ok_def sample_jobs_def is_space_def)
  then show "reads_workload (stdin sample_process) sample_jobs"
    by (simp add: sample_process_def reads_show_workload)
qed (simp_all add: sample_process_def sample_os_ok fits_def sample_jobs_def)

lemma sample_clock: "clock_now (sys sample_process) h \<le> clock_now (sys sample_process) (h @ g)"
  by (simp add: sample_process_def sample_os_def)

text \<open>A process whose forks fail, and an array entry that is ready at time 4.\<close>

definition failing_process :: process where
  "failing_process = sample_process\<lparr>sys := sample_os\<lparr>fork_ret := \<lambda>h. -1\<rparr>\<rparr>"

definition sample_entry :: DATA where
  "sample_entry = \<lparr>pid = None, fd = (3, 4), name = ''P1'', ready_time = 4, execution_time = 7,
     time0 = None, time1 = None, flag = 1\<rparr>"

lemma failing_process_facts:
  "fork_ret (sys failing_process) h < 0" "length [sample_entry] = 1"
  "ready_time sample_entry = 4" "execution_time sample_entry = 7"
  by (simp_all add: failing_process_def sample_entry_def)

end
