(* ===== verification/Fifo.thy ===== *)
theory Fifo
  imports Samples
begin

text \<open>
  First-in first-out. The policy \<open>fifo_first\<close> (no job gets the processor while an earlier arrival is
  unfinished) and the closed form \<open>fifo_ends\<close> of all completion times, both shown of every run of
  \<open>fifo.c\<close> on a workload that fits the C types; and the error exits of its system calls.
\<close>

section \<open>Specification\<close>

definition fifo_first :: policy where
  "fifo_first jobs h j t = (\<forall>k \<in> set jobs. jready k < jready j \<longrightarrow> finished h k)"

text \<open>Each job starts when it is ready and the one before it is done, and then runs to its end.\<close>

fun fifo_ends :: "int \<Rightarrow> (int \<times> int \<times> int) list \<Rightarrow> (int \<times> int) list" where
  "fifo_ends c [] = []"
| "fifo_ends c ((f, r, e) # v) = (f, max c r + e) # fifo_ends (max c r + e) v"

definition fifo_plan :: "(int \<times> int) list \<Rightarrow> (int \<times> int \<times> int) list \<Rightarrow> nat \<Rightarrow> int \<Rightarrow> (int \<times> int) list \<Rightarrow> bool" where
  "fifo_plan plan v I c done_at = (sorted (map (\<lambda>(f, r, e). r) v) \<and> done_at @ fifo_ends c (drop I v) = plan)"

section \<open>The contract\<close>

lemma wp_startJob:
  "I < nff \<Longrightarrow> nff \<le> length s \<Longrightarrow> wp (startJob s I nff) Q E w =
    (if flag (s ! I) = 0 then Q s w
     else let t = clock_now (sys w) (trace w) in
       Q (s[I := (s ! I)\<lparr>time0 := Some t, flag := 0\<rparr>]) (log_event (Ev_Gettime t) w))"
  by (simp add: startJob_def wp_rules Let_def)

lemma view_ready: "map (\<lambda>(f, r, e). r) (map view s) = map ready_time s"
  by (simp add: view_def)

lemma fifo_earlier_done:
  assumes inv: "batch_inv run_ok (fifo_plan plan) jobs s I nff c w" and I: "I < nff"
  shows "fifo_first jobs (trace w) (job_of (trace w) (s ! I)) t"
  unfolding fifo_first_def
proof (intro ballI impI)
  fix k assume k: "k \<in> set jobs" and earlier: "jready k < jready (job_of (trace w) (s ! I))"
  obtain i where i: "i < length s" "job_of (trace w) (s ! i) = k"
    using batch_job_index [OF inv k] by blast
  have "sorted (map ready_time s)"
    using batch_invD(12) [OF inv] unfolding fifo_plan_def view_ready by simp
  moreover have "I < length s" using I batch_invD(5) [OF inv] by simp
  ultimately have "i < I"
    using sorted_nth_mono [of "map ready_time s" I i] i earlier by (force simp: not_less)
  then show "finished (trace w) k" using batch_done_below [OF inv _ i(1)] i(2) by simp
qed

lemma plan_step:
  "I < length v \<Longrightarrow> v ! I = (f, r, e) \<Longrightarrow>
    fifo_ends c (drop I v) = (f, max c r + e) # fifo_ends (max c r + e) (drop (Suc I) v)"
  by (simp add: Cons_nth_drop_Suc [symmetric])

lemma sorted_ready_update:
  "v ! I = (f, r, e) \<Longrightarrow> map (\<lambda>(f, r, e). r) (v[I := (f, r, e')]) = map (\<lambda>(f, r, e). r) v"
  by (cases "I < length v") (simp_all add: map_update list_update_same_conv list_update_beyond)

lemma run_ok_quiet_fifo: "quiet e \<Longrightarrow> fifo_first jobs (h @ [e]) j t = fifo_first jobs h j t"
  by (simp add: fifo_first_def finished_def quietD)

interpretation fifo: batch_policy startJob assign "\<lambda>s I nff. s" fifo_first "fifo_plan plan" for plan
proof
  show "fifo_plan plan v I (c + 1) C" if "fifo_plan plan v I c C" "I < length v" "c < fst (snd (v ! I))" for v I c C
    using that plan_step [OF that(2), of "fst (v ! I)" "fst (snd (v ! I))" "snd (snd (v ! I))"]
    by (auto simp: fifo_plan_def max_def)
  show "fifo_plan plan (v[I := (f, r, e - t)]) I (c + t) C"
    if "fifo_plan plan v I c C" "I < length v" "v ! I = (f, r, e)" "r \<le> c" "0 \<le> t" "t < e" for v I c C f r e t
  proof -
    have "fifo_ends (c + t) (drop I (v[I := (f, r, e - t)])) = fifo_ends c (drop I v)"
      using that plan_step [of I v f r e c] plan_step [of I "v[I := (f, r, e - t)]" f r "e - t" "c + t"] by simp
    then show ?thesis using that(1,3) by (simp add: fifo_plan_def sorted_ready_update)
  qed
  show "fifo_plan plan (v[I := (f, r, 0)]) (I + 1) (c + e) (C @ [(f, c + e)])"
    if "fifo_plan plan v I c C" "I < length v" "v ! I = (f, r, e)" "r \<le> c" "0 \<le> e" for v I c C f r e
    using that plan_step [of I v f r e c] by (simp add: fifo_plan_def sorted_ready_update)
qed (auto simp: wp_startJob wp_assign Let_def intro: fifo_earlier_done run_ok_quiet_fifo [THEN iffD1]
    run_ok_quiet_fifo [THEN iffD2])

section \<open>Runs of the program\<close>

lemma FIFO_round_batch: "FIFO_round N = batch_round startJob assign N"
  by (simp add: FIFO_round_def batch_round_def)

lemma FIFO_batch: "FIFO = batch_main FIFO_round"
  by (simp add: FIFO_def batch_main_def Let_def)

text \<open>The plan of a workload: some order of its jobs by ready time, and when each of them ends.\<close>

definition fifo_order :: "(int \<times> int) list \<Rightarrow> job list \<Rightarrow> bool" where
  "fifo_order plan jobs = (\<exists>js. mset js = mset jobs \<and> sorted (map jready js) \<and>
     plan = fifo_ends 0 (map (\<lambda>j. (jwr j, jready j, jexec j)) js))"

lemma fifo_loop:
  assumes r: "reading os ws (length ws) s w1" and os: "os_ok os" and ws: "fits 32 ws"
  shows "wp (whileM (\<lambda>(s, I, nff, c). I < length ws) (FIFO_round (length ws)) (qsort cmp s, 0, 0, 0))
    (\<lambda>v w'. case v of (s', I, nff, c) \<Rightarrow> length s' = length ws \<and> I = length ws \<and>
       (\<exists>plan. fifo_order plan (jobs_of ws (trace w1)) \<and>
          batch_inv fifo_first (fifo_plan plan) (jobs_of ws (trace w1)) s' I nff c w')) never w1"
proof -
  define js where "js = map (job_of (trace w1)) (qsort cmp s)"
  define plan where "plan = fifo_ends 0 (map view (qsort cmp s))"
  have no_sends: "sent f (trace w1) = 0" for f
    using preparing_trace(4) r by (simp add: reading_def)
  have "map (\<lambda>j. (jwr j, jready j, jexec j)) js = map view (qsort cmp s)"
    by (simp add: js_def view_def no_sends)
  moreover have "mset js = mset (jobs_of ws (trace w1))"
    unfolding js_def entries_are_jobs [OF r, symmetric] by simp
  moreover have srt: "sorted (map ready_time (qsort cmp s))"
    by (rule libc.orders [OF cmp_key])
  then have "sorted (map jready js)" by (simp add: js_def comp_def)
  ultimately have "fifo_order plan (jobs_of ws (trace w1))"
    unfolding fifo_order_def plan_def by (intro exI [of _ js]) simp
  moreover have "fifo_plan plan (map view (qsort cmp s)) 0 0 []"
    using srt by (simp add: fifo_plan_def plan_def view_ready del: map_map)
  then have inv: "batch_inv fifo_first (fifo_plan plan) (jobs_of ws (trace w1)) (qsort cmp s) 0 0 0 w1"
    by (rule initial_inv [OF r os ws])
  have "length ws = length (qsort cmp s)" using r by (simp add: reading_def libc.srt_length)
  note fifo.batch_loop [OF inv this initial_begun [OF r ws]]
  ultimately show ?thesis
    unfolding FIFO_round_batch by (auto elim!: wp_mono)
qed

lemma FIFO_run:
  assumes "os_ok (sys w)" "trace w = []" "reads_workload (stdin w) ws" "fits 32 ws"
  shows "\<exists>w' plan. FIFO w = Some (Ret 0, w') \<and> fifo_order plan (jobs_of ws (trace w')) \<and>
    batch_outcome fifo_first (fifo_plan plan) ws w'"
proof -
  have "wp FIFO (\<lambda>r w'. r = 0 \<and> (\<exists>plan. fifo_order plan (jobs_of ws (trace w')) \<and>
      batch_outcome fifo_first (fifo_plan plan) ws w')) never w"
    unfolding FIFO_batch using assms(1-4)
    by (rule batch_main_run) (rule fifo_loop [OF _ assms(1,4)])
  then show ?thesis by (auto simp: wp_never_runs)
qed

section \<open>Properties\<close>

text \<open>C6: FIFO returns 0 on every workload that fits the C types; every step of its trace obeys the
  first-in first-out policy (the processor only goes to an arrived, unfinished job no earlier arrival
  of which is unfinished, it idles only when nothing is left to do, a job is forked exactly at its
  ready time), every job has been given its execution time and one line per job is printed last.\<close>
theorem FIFO_obeys_policy:
  assumes "os_ok (sys w)" "trace w = []" "reads_workload (stdin w) ws" "fits 32 ws"
  shows "\<exists>w'. FIFO w = Some (Ret 0, w') \<and>
    every (obeys fifo_first (jobs_of ws (trace w'))) (trace w') \<and>
    (\<forall>j \<in> set (jobs_of ws (trace w')). finished (trace w') j) \<and>
    map (\<lambda>j. (jname j, jready j, jexec j)) (jobs_of ws (trace w')) = ws \<and>
    (\<exists>h ls. trace w' = h @ map Ev_Myprint ls \<and> length ls = length ws)"
proof -
  obtain w' plan where run: "FIFO w = Some (Ret 0, w')" and out: "batch_outcome fifo_first (fifo_plan plan) ws w'"
    using FIFO_run [OF assms] by blast
  show ?thesis by (intro exI [of _ w'] conjI run batch_outcome_facts [OF out])
qed

lemma FIFO_obeys_policy_sample:
  "\<exists>w'. FIFO sample_process = Some (Ret 0, w') \<and>
    every (obeys fifo_first (jobs_of sample_jobs (trace w'))) (trace w') \<and>
    (\<forall>j \<in> set (jobs_of sample_jobs (trace w')). finished (trace w') j) \<and>
    map (\<lambda>j. (jname j, jready j, jexec j)) (jobs_of sample_jobs (trace w')) = sample_jobs \<and>
    (\<exists>h ls. trace w' = h @ map Ev_Myprint ls \<and> length ls = length sample_jobs)"
  by (rule FIFO_obeys_policy [OF sample_process_ok])

text \<open>C19: The parent waits for each job exactly once, in the order of ready times, and the time of
  each wait is given by the recurrence end = max previous-end ready-time + execution-time.\<close>
theorem FIFO_completion_times:
  assumes "os_ok (sys w)" "trace w = []" "reads_workload (stdin w) ws" "fits 32 ws"
  shows "\<exists>w' js. FIFO w = Some (Ret 0, w') \<and> mset js = mset (jobs_of ws (trace w')) \<and> sorted (map jready js) \<and>
    completions (trace w') = fifo_ends 0 (map (\<lambda>j. (jwr j, jready j, jexec j)) js)"
proof -
  obtain w' plan where run: "FIFO w = Some (Ret 0, w')" and order: "fifo_order plan (jobs_of ws (trace w'))"
    and out: "batch_outcome fifo_first (fifo_plan plan) ws w'" using FIFO_run [OF assms] by blast
  obtain s where "length s = length ws" "fifo_plan plan (map view s) (length ws) (elapsed (trace w')) (completions (trace w'))"
    using batch_outcome_facts(6) [OF out] by blast
  then have "completions (trace w') = plan" by (simp add: fifo_plan_def)
  with run order show ?thesis by (auto simp: fifo_order_def)
qed

lemma FIFO_completion_times_sample:
  "\<exists>w' js. FIFO sample_process = Some (Ret 0, w') \<and> mset js = mset (jobs_of sample_jobs (trace w')) \<and>
    sorted (map jready js) \<and>
    completions (trace w') = fifo_ends 0 (map (\<lambda>j. (jwr j, jready j, jexec j)) js)"
  by (rule FIFO_completion_times [OF sample_process_ok])

text \<open>C15: Whenever FIFO waits, the job it last wrote to has a child that is about to exit: \<open>child.c\<close> run on
  the job's arguments and the text written to its pipe so far exits with 0 after exactly the
  job's execution time. So no wait of the parent blocks on a starved child.\<close>
theorem FIFO_children_exit:
  assumes "os_ok (sys w)" "trace w = []" "reads_workload (stdin w) ws" "fits 32 ws"
  shows "\<exists>w'. FIFO w = Some (Ret 0, w') \<and>
    every (\<lambda>h e. is_wait e \<longrightarrow> (\<exists>j \<in> set (jobs_of ws (trace w')). jwr j = last_fd h \<and> child_exits j h)) (trace w')"
proof -
  obtain w' plan where run: "FIFO w = Some (Ret 0, w')" and out: "batch_outcome fifo_first (fifo_plan plan) ws w'"
    using FIFO_run [OF assms] by blast
  show ?thesis
    by (intro exI [of _ w'] conjI run
        obeys_children_exit [OF batch_outcome_facts(2) [OF out] batch_outcome_facts(1) [OF out]])
qed

lemma FIFO_children_exit_sample:
  "\<exists>w'. FIFO sample_process = Some (Ret 0, w') \<and>
    every (\<lambda>h e. is_wait e \<longrightarrow>
      (\<exists>j \<in> set (jobs_of sample_jobs (trace w')). jwr j = last_fd h \<and> child_exits j h)) (trace w')"
  by (rule FIFO_children_exit [OF sample_process_ok])

text \<open>C21: FIFO prints one line per job, in the order in which the jobs end. The process id on it is the
  one that the job's \<open>fork\<close> returned, its first time is the clock read just before the first write to
  the job's pipe, and its second time the clock read right after the wait that follows the last
  write to that pipe.\<close>
theorem FIFO_prints:
  assumes "os_ok (sys w)" "trace w = []" "reads_workload (stdin w) ws" "fits 32 ws"
  shows "\<exists>w' js. FIFO w = Some (Ret 0, w') \<and> mset js = mset (jobs_of ws (trace w')) \<and> map jwr js = map fst (completions (trace w')) \<and>
    list_all2 (line_of_job (trace w')) js (printed (trace w'))"
proof -
  obtain w' plan where run: "FIFO w = Some (Ret 0, w')" and out: "batch_outcome fifo_first (fifo_plan plan) ws w'"
    using FIFO_run [OF assms] by blast
  then show ?thesis using batch_outcome_prints [OF out] by (auto simp: prints_jobs_def)
qed

lemma FIFO_prints_sample:
  "\<exists>w' js. FIFO sample_process = Some (Ret 0, w') \<and> mset js = mset (jobs_of sample_jobs (trace w')) \<and> map jwr js = map fst (completions (trace w')) \<and>
    list_all2 (line_of_job (trace w')) js (printed (trace w'))"
  by (rule FIFO_prints [OF sample_process_ok])

section \<open>Failing system calls\<close>

lemma executeFork_stops:
  assumes "forkJob (s, nff) w = Some (Halt r, w')" "nff < N" "c = ready_time (s ! nff)"
  shows "executeFork s nff c N w = Some (Halt r, w')"
  using assms by (simp add: executeFork_def whileM_step bind_def)

lemma forkJob_halts:
  assumes "nff < length s" "INT_MIN \<le> execution_time (s ! nff)" "execution_time (s ! nff) \<le> INT_MAX"
    and "fork_ret (sys w) (trace w) \<le> 0"
  shows "forkJob (s, nff) w = (
    if fork_ret (sys w) (trace w) < 0
    then Some (Halt (Exited 1), w\<lparr>trace := trace w @ [Ev_Fork (fork_ret (sys w) (trace w)), Ev_Stderr (''fork error'' @ newline)]\<rparr>)
    else let args = [''child'', name (s ! nff), show_int (execution_time (s ! nff))];
             h = trace w @ [Ev_Fork 0, Ev_Dup2 (fst (fd (s ! nff))) 0]
         in if execl_ok (sys w) h then Some (Halt (Execed ''./child'' args), w\<lparr>trace := h @ [Ev_Execl ''./child'' args]\<rparr>)
            else Some (Halt (Exited 2), w\<lparr>trace := h @ [Ev_Execl ''./child'' args, Ev_Stderr (''exec error'' @ newline)]\<rparr>))"
proof -
  have "length (show_int (execution_time (s ! nff))) < 100"
    using length_show_int [of "execution_time (s ! nff)"] assms by simp
  then show ?thesis
    using assms
    by (auto simp: forkJob_def bind_def andThen_def sys_fork_def syscall_def at_def return_def Let_def eprint_def
        emit_def exit_with_def halt_def sprintf_def sys_dup2_def sys_execl_def)
qed

text \<open>C36: When a fork is due, a negative result of \<open>fork\<close> ends FIFO with status 1. In the child, standard
  input becomes the read end of the job's pipe and the process image becomes \<open>./child\<close>, whose
  second argument is text that the child's \<open>atoi\<close> reads back as the execution time; if \<open>execl\<close> fails the
  child exits with 2. None of these paths goes on scheduling.\<close>
theorem executeFork_halts:
  assumes "nff < length s" "c = ready_time (s ! nff)" "0 \<le> execution_time (s ! nff)" "execution_time (s ! nff) \<le> INT_MAX"
    and "fork_ret (sys w) (trace w) \<le> 0"
  shows "\<exists>stop h. executeFork s nff c (length s) w = Some (Halt stop, w\<lparr>trace := trace w @ h\<rparr>) \<and>
    (if fork_ret (sys w) (trace w) < 0 then stop = Exited 1
     else Ev_Dup2 (fst (fd (s ! nff))) 0 \<in> set h \<and>
       (stop = Exited 2 \<or>
        (\<exists>t. stop = Execed ''./child'' [''child'', name (s ! nff), t] \<and>
           atoi t = (return (execution_time (s ! nff)) :: (process, int) prog))))"
proof -
  let ?e = "execution_time (s ! nff)" and ?p = "fork_ret (sys w) (trace w)"
  let ?args = "[''child'', name (s ! nff), show_int ?e]" and ?d = "Ev_Dup2 (fst (fd (s ! nff))) 0"
  have "INT_MIN \<le> ?e" using assms(3) by simp
  note fork = forkJob_halts [OF assms(1) this assms(4,5)]
  consider (failed) "?p < 0" | (image) "?p = 0" "execl_ok (sys w) (trace w @ [Ev_Fork 0, ?d])"
    | (no_image) "?p = 0" "\<not> execl_ok (sys w) (trace w @ [Ev_Fork 0, ?d])"
    using assms(5) by linarith
  then show ?thesis
  proof cases
    case failed
    then show ?thesis
      by (subst executeFork_stops [OF fork [unfolded if_P [OF failed]] assms(1,2)]) auto
  next
    case image
    then have "forkJob (s, nff) w = Some (Halt (Execed ''./child'' ?args),
        w\<lparr>trace := trace w @ [Ev_Fork 0, ?d, Ev_Execl ''./child'' ?args]\<rparr>)"
      by (simp add: fork Let_def)
    from executeFork_stops [OF this assms(1,2)] image show ?thesis
      using atoi_show_int [of ?e] assms(3,4) by auto
  next
    case no_image
    then have "forkJob (s, nff) w = Some (Halt (Exited 2), w\<lparr>trace := trace w @
        [Ev_Fork 0, ?d, Ev_Execl ''./child'' ?args, Ev_Stderr (''exec error'' @ newline)]\<rparr>)"
      by (simp add: fork Let_def)
    from executeFork_stops [OF this assms(1,2)] no_image show ?thesis by auto
  qed
qed

lemma executeFork_halts_sample:
  "\<exists>h. executeFork [sample_entry] 0 4 1 failing_process =
      Some (Halt (Exited 1), failing_process\<lparr>trace := trace failing_process @ h\<rparr>)"
proof -
  note f = failing_process_facts
  have "\<exists>stop h. executeFork [sample_entry] 0 4 (length [sample_entry]) failing_process =
      Some (Halt stop, failing_process\<lparr>trace := trace failing_process @ h\<rparr>) \<and>
    (if fork_ret (sys failing_process) (trace failing_process) < 0 then stop = Exited 1
     else Ev_Dup2 (fst (fd ([sample_entry] ! 0))) 0 \<in> set h \<and>
       (stop = Exited 2 \<or>
        (\<exists>t. stop = Execed ''./child'' [''child'', name ([sample_entry] ! 0), t] \<and>
           atoi t = (return (execution_time ([sample_entry] ! 0)) :: (process, int) prog))))"
    by (rule executeFork_halts) (simp_all add: f less_imp_le)
  then show ?thesis using f(1) by (simp only: if_True f(2)) blast
qed

end
