(* ===== verification/Sjf_Code.thy ===== *)
theory Sjf_Code
  imports Fifo_Code
begin

text \<open>
  \<open>prj1/sjf.c\<close>, function by function. The file has its own copy of most functions of \<open>fifo.c\<close>
  (here with the prefix \<open>sjf_\<close>, and over the same record \<open>DATA\<close>, whose C type is the same); it differs
  in how the job to run is chosen: the ready part of the array is sorted by execution time.
\<close>

definition sjf_cmp :: "DATA \<Rightarrow> DATA \<Rightarrow> int" where
  "sjf_cmp aa bb =
    (if ready_time aa > ready_time bb then 1
     else if ready_time aa < ready_time bb then -1
     else 0)"

definition SJFcmp :: "DATA \<Rightarrow> DATA \<Rightarrow> int" where
  "SJFcmp aa bb =
    (if execution_time aa > execution_time bb then 1
     else if execution_time aa < execution_time bb then -1
     else 0)"

definition sjf_readJob :: "nat \<Rightarrow> DATA list \<Rightarrow> (process, DATA list) prog" where
  "sjf_readJob i scheduler =
     bind (scanf_s 32) (\<lambda>nm.
     bind scanf_d (\<lambda>ready.
     bind scanf_d (\<lambda>exec.
     bind sys_pipe (\<lambda>fds.
     andThen (set_cloexec (fst fds))
     (andThen (set_cloexec (snd fds))
     (bind (at scheduler i) (\<lambda>d.
     return (scheduler[i := d\<lparr>name := nm, ready_time := ready, execution_time := exec,
       fd := fds, flag := 1\<rparr>]))))))))"

definition sjf_readFile :: "nat \<Rightarrow> DATA list \<Rightarrow> (process, DATA list) prog" where
  "sjf_readFile N scheduler = forM [0..<N] sjf_readJob scheduler"

definition sjf_forkJob :: "DATA list \<times> nat \<Rightarrow> (process, DATA list \<times> nat) prog" where
  "sjf_forkJob = (\<lambda>(scheduler, nextforfork).
     bind sys_fork (\<lambda>p.
     bind (at scheduler nextforfork) (\<lambda>d.
     let scheduler = scheduler[nextforfork := d\<lparr>pid := Some p\<rparr>] in
     if p < 0 then andThen (eprint (''fork error'' @ newline)) (exit_with 1)
     else if p = 0 then
       bind (sprintf 100 (show_int (execution_time d))) (\<lambda>buffer.
       andThen (sys_dup2 (fst (fd d)) 0)
       (bind (sys_execl ''./child'' [''child'', name d, buffer]) (\<lambda>r.
        if r < 0 then andThen (eprint (''exec error'' @ newline)) (exit_with 2)
        else return (scheduler, nextforfork))))
     else andThen (sys_close (fst (fd d))) (return (scheduler, nextforfork + 1)))))"

definition sjf_executeFork :: "DATA list \<Rightarrow> nat \<Rightarrow> int \<Rightarrow> nat \<Rightarrow> (process, DATA list \<times> nat) prog" where
  "sjf_executeFork scheduler nextforfork clock N =
     whileM (\<lambda>(scheduler, nextforfork). nextforfork < N \<and> clock = ready_time (scheduler ! nextforfork))
       sjf_forkJob (scheduler, nextforfork)"

definition sjf_decideTime :: "DATA list \<Rightarrow> nat \<Rightarrow> nat \<Rightarrow> nat \<Rightarrow> int \<Rightarrow> (process, int) prog" where
  "sjf_decideTime scheduler N nextforfork Index clock =
     (if nextforfork = N then bind (at scheduler Index) (\<lambda>d. return (execution_time d))
      else
        bind (at scheduler nextforfork) (\<lambda>n.
        bind (sub_i (ready_time n) clock) (\<lambda>time1.
        bind (at scheduler Index) (\<lambda>d.
        let time2 = execution_time d in
        return (if time1 < time2 then time1 else time2)))))"

definition sjf_waitLoop :: "DATA list \<Rightarrow> nat \<Rightarrow> nat \<Rightarrow> nat \<Rightarrow> int \<Rightarrow> (process, int) prog" where
  "sjf_waitLoop scheduler N nextforfork Index clock =
     whileM (\<lambda>clock. nextforfork < N \<and> Index = nextforfork \<and> clock < ready_time (scheduler ! nextforfork))
       (\<lambda>clock. andThen spin (add_i clock 1)) clock"

definition sjf_assign :: "DATA list \<Rightarrow> nat \<Rightarrow> nat \<Rightarrow> nat \<Rightarrow> int \<Rightarrow> (process, DATA list \<times> nat \<times> int) prog" where
  "sjf_assign scheduler N nextforfork Index clock =
     bind (sjf_decideTime scheduler N nextforfork Index clock) (\<lambda>time.
     bind (sprintf 100 (show_int time @ '' '')) (\<lambda>buffer.
     bind (at scheduler Index) (\<lambda>d.
     andThen (sys_write (snd (fd d)) buffer)
     (case pid d of None \<Rightarrow> undef Uninitialised | Some p \<Rightarrow>
     bind (sys_setscheduler p 99) (\<lambda>r.
     if r \<noteq> 0 then andThen (eprint (''sched_setscheduler error'' @ newline)) (exit_with 3)
     else
       bind (add_i clock time) (\<lambda>clock.
       bind (sub_i (execution_time d) time) (\<lambda>left.
       if left = 0 then
         bind sys_wait (\<lambda>_.
         bind sys_gettime (\<lambda>t.
         return (scheduler[Index := d\<lparr>execution_time := left, time1 := Some t\<rparr>], Index + 1, clock)))
       else return (scheduler[Index := d\<lparr>execution_time := left\<rparr>], Index, clock))))))))"

text \<open>A negative number of elements reaches \<open>qsort\<close> as a huge \<open>size_t\<close>.\<close>

definition sort_segment :: "nat \<Rightarrow> int \<Rightarrow> DATA list \<Rightarrow> (process, DATA list) prog" where
  "sort_segment lo n scheduler =
     (if n < 0 \<or> int (length scheduler) < int lo + n then undef Bad_Size
      else return (qsort_at SJFcmp lo (nat n) scheduler))"

definition selectJob :: "DATA list \<Rightarrow> nat \<Rightarrow> nat \<Rightarrow> (process, DATA list) prog" where
  "selectJob scheduler Index nextforfork =
     bind (at scheduler Index) (\<lambda>d.
     if flag d \<noteq> 0 then
       bind (sort_segment Index (int nextforfork - int Index) scheduler) (\<lambda>scheduler.
       bind sys_gettime (\<lambda>t.
       bind (at scheduler Index) (\<lambda>d.
       return (scheduler[Index := d\<lparr>time0 := Some t, flag := 0\<rparr>]))))
     else sort_segment (Index + 1) (int nextforfork - int Index - 1) scheduler)"

definition SJF_round :: "nat \<Rightarrow> DATA list \<times> nat \<times> nat \<times> int \<Rightarrow>
    (process, DATA list \<times> nat \<times> nat \<times> int) prog" where
  "SJF_round N = (\<lambda>(scheduler, Index, nextforfork, clock).
     bind (sjf_waitLoop scheduler N nextforfork Index clock) (\<lambda>clock.
     bind (sjf_executeFork scheduler nextforfork clock N) (\<lambda>(scheduler, nextforfork).
     bind (selectJob scheduler Index nextforfork) (\<lambda>scheduler.
     bind (sjf_assign scheduler N nextforfork Index clock) (\<lambda>(scheduler, Index, clock).
     return (scheduler, Index, nextforfork, clock))))))"

definition sjf_printJob :: "DATA list \<Rightarrow> nat \<Rightarrow> unit \<Rightarrow> (process, unit) prog" where
  "sjf_printJob scheduler i _ =
     bind (at scheduler i) (\<lambda>d.
     case pid d of None \<Rightarrow> undef Uninitialised | Some p \<Rightarrow> print_result p (time0 d) (time1 d))"

definition SJF :: "(process, int) prog" where
  "SJF =
     bind (sys_setscheduler 0 98) (\<lambda>_.
     bind scanf_d (\<lambda>n.
     if n < 0 then undef Bad_Size
     else let N = nat n in
       bind (sjf_readFile N (malloc_DATA N)) (\<lambda>scheduler.
       bind (whileM (\<lambda>(scheduler, Index, nextforfork, clock). Index < N) (SJF_round N)
              (qsort sjf_cmp scheduler, 0, 0, 0)) (\<lambda>(scheduler, Index, nextforfork, clock).
       andThen (forM [0..<N] (sjf_printJob scheduler) ())
       (return 0)))))"

text \<open>The copied functions are those of \<open>fifo.c\<close>; \<open>fifo.c\<close> only looks for a negative result in \<open>assign\<close>.\<close>

lemma sjf_copies:
  "sjf_cmp = cmp" "sjf_readJob = readJob" "sjf_readFile = readFile" "sjf_forkJob = forkJob"
  "sjf_executeFork = executeFork" "sjf_decideTime = decideTime" "sjf_waitLoop = waitLoop"
  "sjf_printJob = printJob"
proof -
  show "sjf_cmp = cmp" by (intro ext) (simp add: sjf_cmp_def cmp_def)
  show read: "sjf_readJob = readJob" by (intro ext) (simp add: sjf_readJob_def readJob_def)
  show "sjf_readFile = readFile" by (intro ext) (simp add: sjf_readFile_def readFile_def read)
  show fork: "sjf_forkJob = forkJob" unfolding sjf_forkJob_def forkJob_def ..
  show "sjf_executeFork = executeFork" by (intro ext) (simp add: sjf_executeFork_def executeFork_def fork)
  show "sjf_decideTime = decideTime" by (intro ext) (simp add: sjf_decideTime_def decideTime_def)
  show "sjf_waitLoop = waitLoop" by (intro ext) (simp add: sjf_waitLoop_def waitLoop_def)
  show "sjf_printJob = printJob" by (intro ext) (simp add: sjf_printJob_def printJob_def)
qed

end
