(* ===== verification/Sjf.thy ===== *)
theory Sjf
  imports Sjf_Code Samples
begin

text \<open>
  Shortest job first. The policy \<open>sjf_shortest\<close>: a job that is given the processor for the first time
  is a shortest one of those that have arrived and are not done, and while a job is under way no
  other job gets the processor (no preemption).
\<close>

section \<open>Specification\<close>

definition sjf_shortest :: policy where
  "sjf_shortest jobs h j t =
    ((started h j \<or> (\<forall>k \<in> set jobs. arrived h k \<longrightarrow> \<not> (started h k \<and> finished h k) \<longrightarrow> jexec j \<le> jexec k)) \<and>
     (\<forall>k \<in> set jobs. started h k \<longrightarrow> \<not> finished h k \<longrightarrow> k = j))"

text \<open>The jobs done so far are the front of the array.\<close>

definition sjf_done :: "(int \<times> int \<times> int) list \<Rightarrow> nat \<Rightarrow> int \<Rightarrow> (int \<times> int) list \<Rightarrow> bool" where
  "sjf_done v I c C = (map fst C = map fst (take I v))"

definition sjf_select :: "DATA list \<Rightarrow> nat \<Rightarrow> nat \<Rightarrow> DATA list" where
  "sjf_select s I nff = (if flag (s ! I) = 0 then qsort_at SJFcmp (I + 1) (nff - (I + 1)) s
     else qsort_at SJFcmp I (nff - I) s)"

section \<open>The contract\<close>

lemma SJFcmp_key: "key_cmp SJFcmp execution_time"
  by (simp add: key_cmp_def SJFcmp_def)

lemma wp_sort_segment:
  "lo + n \<le> length s \<Longrightarrow> wp (sort_segment lo (int n) s) Q E w = Q (qsort_at SJFcmp lo n s) w"
  by (simp add: sort_segment_def wp_rules)

lemma sjf_select_length: "length (sjf_select s I nff) = length s"
  by (simp add: sjf_select_def)

lemma wp_selectJob:
  assumes "I < nff" "nff \<le> length s"
  shows "wp (selectJob s I nff) Q E w =
    (if flag (s ! I) = 0 then Q (sjf_select s I nff) w
     else let t = clock_now (sys w) (trace w) in
       Q ((sjf_select s I nff)[I := (sjf_select s I nff ! I)\<lparr>time0 := Some t, flag := 0\<rparr>])
         (log_event (Ev_Gettime t) w))"
  using assms wp_sort_segment [of I "nff - I" s] wp_sort_segment [of "I + 1" "nff - (I + 1)" s]
  by (auto simp: selectJob_def wp_rules sjf_select_def Let_def of_nat_diff algebra_simps)

lemma sjf_assign_fifo:
  assumes "os_ok (sys w)"
  shows "wp (sjf_assign s N nff I c) Q E w = wp (assign s N nff I c) Q E w"
  using os_ok_setscheduler [OF assms]
  by (simp add: sjf_assign_def assign_def sjf_copies wp_rules decideTime_def Let_def)

text \<open>The sorted segment lies between the two indices.\<close>

lemma sjf_select_outside:
  assumes "I < nff" "nff \<le> length s" "i < I \<or> nff \<le> i" "i < length s"
  shows "sjf_select s I nff ! i = s ! i"
  using assms by (auto simp: sjf_select_def nth_qsort_at_below nth_qsort_at_above)

lemma sjf_select_inside:
  assumes "I < nff" "nff \<le> length s" "I \<le> i" "i < nff"
  shows "\<exists>k. I \<le> k \<and> k < nff \<and> sjf_select s I nff ! i = s ! k"
proof (cases "flag (s ! I) = 0 \<and> i = I")
  case True
  then have "sjf_select s I nff ! i = s ! I" using assms by (simp add: sjf_select_def nth_qsort_at_below)
  then show ?thesis using assms by blast
next
  case False
  then show ?thesis
    using assms qsort_at_inside [of I i "nff - I" s SJFcmp] qsort_at_inside [of "I + 1" i "nff - (I + 1)" s SJFcmp]
    by (cases "flag (s ! I) = 0") (force simp: sjf_select_def)+
qed

lemma sjf_select_running:
  assumes "I < nff" "nff \<le> length s" "flag (s ! I) = 0"
  shows "sjf_select s I nff ! I = s ! I"
    and "I < i \<Longrightarrow> i < nff \<Longrightarrow> \<exists>k. I < k \<and> k < nff \<and> sjf_select s I nff ! i = s ! k"
  using assms qsort_at_inside [of "I + 1" i "nff - (I + 1)" s SJFcmp]
  by (auto simp: sjf_select_def nth_qsort_at_below Suc_le_eq)

lemma sjf_select_least:
  assumes "I < nff" "nff \<le> length s" "flag (s ! I) \<noteq> 0" "I \<le> k" "k < nff"
  shows "execution_time (sjf_select s I nff ! I) \<le> execution_time (s ! k)"
  using assms qsort_at_least [OF SJFcmp_key, of "nff - I" I s k] by (simp add: sjf_select_def)

lemma sjf_select_take:
  "I < nff \<Longrightarrow> nff \<le> length s \<Longrightarrow> take I (sjf_select s I nff) = take I s"
  by (rule nth_equalityI) (simp_all add: sjf_select_length sjf_select_outside)

lemma sjf_selected_ok:
  assumes inv: "batch_inv run_ok extra jobs s I nff c w" and I: "I < nff"
    and later: "nff < length s \<Longrightarrow> c < ready_time (s ! nff)" and begun: "begun s I (trace w)"
  shows "sjf_shortest jobs (trace w) (job_of (trace w) (sjf_select s I nff ! I)) t"
proof -
  let ?h = "trace w"
  note len = batch_invD(5) [OF inv] and slot = batch_invD(10) [OF inv]
  have I': "I < length s" using I len by simp
  have pos: "\<exists>i < length s. job_of ?h (s ! i) = k" if "k \<in> set jobs" for k
    using batch_job_index [OF inv that] .
  have below: "started ?h (job_of ?h (s ! i)) \<and> finished ?h (job_of ?h (s ! i))" if "i < I" for i
    using that batch_done_below [OF inv that] slotD(9) [OF slot that] I' by (simp add: started_def)
  have above: "\<not> started ?h (job_of ?h (s ! i))" if "I \<le> i" "i < length s" "flag (s ! i) = 1" for i
    using slotD(8) [OF slot] that by (simp add: started_def)
  show ?thesis
  proof (cases "flag (s ! I) = 0")
    case True
    have "started ?h (job_of ?h (s ! I))" using begun True I' by (simp add: begun_def started_def)
    moreover have "k = job_of ?h (s ! I)" if k: "k \<in> set jobs" "started ?h k" "\<not> finished ?h k" for k
    proof -
      obtain i where i: "i < length s" "job_of ?h (s ! i) = k" using pos k(1) by blast
      have "\<not> i < I" using below k i(2) by blast
      moreover have "\<not> I < i" using above [of i] slotD(6) [OF slot [OF i(1)]] k(2) i by auto
      ultimately show ?thesis using i by (cases i I rule: linorder_cases) auto
    qed
    ultimately show ?thesis
      using sjf_select_running(1) [OF I len True] by (simp add: sjf_shortest_def)
  next
    case False
    then have fresh: "flag (s ! i) = 1" if "I \<le> i" "i < length s" for i
      using slotD(6,7) [OF slot [OF that(2)]] that by (cases "i = I") auto
    have idle: "\<not> started ?h k \<or> finished ?h k" if k: "k \<in> set jobs" for k
      using pos [OF k] above fresh below by (meson not_less)
    have "jexec (job_of ?h (sjf_select s I nff ! I)) \<le> jexec k"
      if k: "k \<in> set jobs" "arrived ?h k" "\<not> (started ?h k \<and> finished ?h k)" for k
    proof -
      obtain i where i: "i < length s" "job_of ?h (s ! i) = k" using pos k(1) by blast
      have lo: "I \<le> i" using below k(3) i(2) by (meson not_less)
      have hi: "i < nff" using batch_arrived_index [OF inv later i(1)] k(2) i(2) by simp
      obtain m where m: "I \<le> m" "m < nff" "sjf_select s I nff ! I = s ! m"
        using sjf_select_inside [OF I len order_refl I] by blast
      have "sent (snd (fd (s ! m))) ?h = 0" "sent (snd (fd (s ! i))) ?h = 0"
        using slotD(8) [OF slot] fresh lo hi m(1,2) len by (simp_all add: sent_chunks)
      then show ?thesis
        using sjf_select_least [OF I len False lo hi] i(2) m(3) by auto
    qed
    with idle show ?thesis unfolding sjf_shortest_def by blast
  qed
qed

lemma sjf_shortest_quiet: "quiet e \<Longrightarrow> sjf_shortest jobs (h @ [e]) j t = sjf_shortest jobs h j t"
  by (simp add: sjf_shortest_def finished_def started_def arrived_def quietD)

lemma sjf_done_step: "I < length v \<Longrightarrow> v ! I = (f, x) \<Longrightarrow> map fst (take (Suc I) (v[I := (f, y)])) = map fst (take I v) @ [f]"
  by (simp add: take_Suc_conv_app_nth)

interpretation sjf: batch_policy selectJob sjf_assign sjf_select sjf_shortest sjf_done
proof
  show "sjf_done (map view (sjf_select s I nff)) I c C"
    if "sjf_done (map view s) I c C" "I < nff" "nff \<le> length s" for s I nff c C
    using that sjf_select_take [OF that(2,3)] by (simp add: sjf_done_def take_map)
  show "mset (sjf_select s I nff) = mset s" for s I nff by (simp add: sjf_select_def)
  show "sjf_select s I nff ! I = s ! I \<and>
      (\<forall>i. I < i \<longrightarrow> i < nff \<longrightarrow> (\<exists>k. I < k \<and> k < nff \<and> sjf_select s I nff ! i = s ! k))"
    if "I < nff" "nff \<le> length s" "flag (s ! I) = 0" for s I nff
    using sjf_select_running [OF that] by blast
  show "sjf_shortest jobs (trace w) (job_of (trace w) (sjf_select s I nff ! I)) t"
    if "batch_inv sjf_shortest sjf_done jobs s I nff c w" "I < nff" "nff < length s \<Longrightarrow> c < ready_time (s ! nff)"
      "begun s I (trace w)" for jobs s I nff c w t
    by (rule sjf_selected_ok [OF that])
  show "\<exists>k. I \<le> k \<and> k < nff \<and> sjf_select s I nff ! i = s ! k"
    if "I < nff" "nff \<le> length s" "I \<le> i" "i < nff" for s I nff i
    by (rule sjf_select_inside [OF that])
  show "sjf_select s I nff ! i = s ! i"
    if "I < nff" "nff \<le> length s" "i < I \<or> nff \<le> i" "i < length s" for s I nff i
    by (rule sjf_select_outside [OF that])
qed (auto simp: wp_selectJob sjf_assign_fifo wp_assign Let_def sjf_shortest_quiet sjf_done_def sjf_done_step)

section \<open>Runs of the program\<close>

lemma SJF_round_batch: "SJF_round N = batch_round selectJob sjf_assign N"
  by (simp add: SJF_round_def batch_round_def sjf_copies)

lemma SJF_batch: "SJF = batch_main SJF_round"
  unfolding SJF_def batch_main_def sjf_copies by (rule refl)

lemma sjf_loop:
  assumes r: "reading os ws (length ws) s w1" and os: "os_ok os" and ws: "fits 32 ws"
  shows "wp (whileM (\<lambda>(s, I, nff, c). I < length ws) (SJF_round (length ws)) (qsort cmp s, 0, 0, 0))
    (\<lambda>v w'. case v of (s', I, nff, c) \<Rightarrow> length s' = length ws \<and> I = length ws \<and>
       (\<exists>x. True \<and> batch_inv sjf_shortest sjf_done (jobs_of ws (trace w1)) s' I nff c w')) never w1"
proof -
  have "sjf_done (map view (qsort cmp s)) 0 0 []" by (simp add: sjf_done_def)
  then have inv: "batch_inv sjf_shortest sjf_done (jobs_of ws (trace w1)) (qsort cmp s) 0 0 0 w1"
    by (rule initial_inv [OF r os ws])
  have "length ws = length (qsort cmp s)" using r by (simp add: reading_def libc.srt_length)
  note sjf.batch_loop [OF inv this initial_begun [OF r ws]]
  then show ?thesis unfolding SJF_round_batch by (auto elim!: wp_mono)
qed

lemma SJF_run:
  assumes "os_ok (sys w)" "trace w = []" "reads_workload (stdin w) ws" "fits 32 ws"
  shows "\<exists>w'. SJF w = Some (Ret 0, w') \<and> batch_outcome sjf_shortest sjf_done ws w'"
proof -
  have "wp SJF (\<lambda>r w'. r = 0 \<and> (\<exists>x. True \<and> batch_outcome sjf_shortest sjf_done ws w')) never w"
    unfolding SJF_batch using assms(1-4)
    by (rule batch_main_run [where X = "\<lambda>_ _. True" and extra = "\<lambda>_. sjf_done"])
      (rule sjf_loop [OF _ assms(1,4)])
  then show ?thesis by (auto simp: wp_never_runs)
qed

section \<open>Properties\<close>

text \<open>C5: SJF returns 0 on every workload that fits the C types; every step of its trace obeys the
  non-preemptive shortest-job-first policy, every job has been given its execution time and one
  line per job is printed last.\<close>
theorem SJF_obeys_policy:
  assumes "os_ok (sys w)" "trace w = []" "reads_workload (stdin w) ws" "fits 32 ws"
  shows "\<exists>w'. SJF w = Some (Ret 0, w') \<and>
    every (obeys sjf_shortest (jobs_of ws (trace w'))) (trace w') \<and>
    (\<forall>j \<in> set (jobs_of ws (trace w')). finished (trace w') j) \<and>
    map (\<lambda>j. (jname j, jready j, jexec j)) (jobs_of ws (trace w')) = ws \<and>
    (\<exists>h ls. trace w' = h @ map Ev_Myprint ls \<and> length ls = length ws)"
proof -
  obtain w' where run: "SJF w = Some (Ret 0, w')" and out: "batch_outcome sjf_shortest sjf_done ws w'"
    using SJF_run [OF assms] by blast
  show ?thesis by (intro exI [of _ w'] conjI run batch_outcome_facts [OF out])
qed

lemma SJF_obeys_policy_sample:
  "\<exists>w'. SJF sample_process = Some (Ret 0, w') \<and>
    every (obeys sjf_shortest (jobs_of sample_jobs (trace w'))) (trace w') \<and>
    (\<forall>j \<in> set (jobs_of sample_jobs (trace w')). finished (trace w') j) \<and>
    map (\<lambda>j. (jname j, jready j, jexec j)) (jobs_of sample_jobs (trace w')) = sample_jobs \<and>
    (\<exists>h ls. trace w' = h @ map Ev_Myprint ls \<and> length ls = length sample_jobs)"
  by (rule SJF_obeys_policy [OF sample_process_ok])

text \<open>C18: SJF waits for every job exactly once (the pipes it last wrote to before its waits are a
  permutation of the pipes of the jobs), and whenever it waits, the child it wrote to last exits
  with 0 on the text written to its pipe so far.\<close>
theorem SJF_waits:
  assumes "os_ok (sys w)" "trace w = []" "reads_workload (stdin w) ws" "fits 32 ws"
  shows "\<exists>w'. SJF w = Some (Ret 0, w') \<and>
    mset (map fst (completions (trace w'))) = mset (map jwr (jobs_of ws (trace w'))) \<and>
    every (\<lambda>h e. is_wait e \<longrightarrow> (\<exists>j \<in> set (jobs_of ws (trace w')). jwr j = last_fd h \<and> child_exits j h)) (trace w')"
proof -
  obtain w' where run: "SJF w = Some (Ret 0, w')" and out: "batch_outcome sjf_shortest sjf_done ws w'"
    using SJF_run [OF assms] by blast
  obtain s where s: "length s = length ws" "mset (map (job_of (trace w')) s) = mset (jobs_of ws (trace w'))"
      "sjf_done (map view s) (length ws) (elapsed (trace w')) (completions (trace w'))"
    using batch_outcome_facts(6) [OF out] by blast
  have "map fst (completions (trace w')) = map jwr (map (job_of (trace w')) s)"
    using s(1,3) by (simp add: sjf_done_def view_def)
  then have "mset (map fst (completions (trace w'))) = mset (map jwr (jobs_of ws (trace w')))"
    using s(2) by (metis mset_map)
  then show ?thesis
    by (intro exI [of _ w'] conjI run
        obeys_children_exit [OF batch_outcome_facts(2) [OF out] batch_outcome_facts(1) [OF out]])
qed

lemma SJF_waits_sample:
  "\<exists>w'. SJF sample_process = Some (Ret 0, w') \<and>
    mset (map fst (completions (trace w'))) = mset (map jwr (jobs_of sample_jobs (trace w'))) \<and>
    every (\<lambda>h e. is_wait e \<longrightarrow>
      (\<exists>j \<in> set (jobs_of sample_jobs (trace w')). jwr j = last_fd h \<and> child_exits j h)) (trace w')"
  by (rule SJF_waits [OF sample_process_ok])

text \<open>C20: SJF prints one line per job, in the order in which the jobs end. The process id on it is the
  one that the job's \<open>fork\<close> returned, its first time is the clock read just before the first write to
  the job's pipe, and its second time the clock read right after the wait that follows the last
  write to that pipe.\<close>
theorem SJF_prints:
  assumes "os_ok (sys w)" "trace w = []" "reads_workload (stdin w) ws" "fits 32 ws"
  shows "\<exists>w' js. SJF w = Some (Ret 0, w') \<and> mset js = mset (jobs_of ws (trace w')) \<and> map jwr js = map fst (completions (trace w')) \<and>
    list_all2 (line_of_job (trace w')) js (printed (trace w'))"
proof -
  obtain w' where run: "SJF w = Some (Ret 0, w')" and out: "batch_outcome sjf_shortest sjf_done ws w'"
    using SJF_run [OF assms] by blast
  then show ?thesis using batch_outcome_prints [OF out] by (auto simp: prints_jobs_def)
qed

lemma SJF_prints_sample:
  "\<exists>w' js. SJF sample_process = Some (Ret 0, w') \<and> mset js = mset (jobs_of sample_jobs (trace w')) \<and> map jwr js = map fst (completions (trace w')) \<and>
    list_all2 (line_of_job (trace w')) js (printed (trace w'))"
  by (rule SJF_prints [OF sample_process_ok])

end
