(* ===== verification/Psjf_Code.thy ===== *)
theory Psjf_Code
  imports Print_Time
begin

text \<open>
  \<open>prj1/psjf.c\<close>, function by function: preemptive shortest job first. Times are \<open>unsigned int\<close> and
  wrap at 32 bits; the ready queue is an array of pointers into the array of jobs, here indices
  into \<open>Raw\<close>. \<open>Head\<close> and \<open>ElementCount\<close> are C \<open>int\<close>s. Fields of memory from \<open>malloc\<close> that are read
  before they are written (\<open>Pid\<close>, \<open>Time\<close>) are \<open>None\<close>.
\<close>

record raw_input =
  Name :: string
  ReadyTime :: "32 word"
  ExecTime :: "32 word"
  Recorded :: int
  Time0 :: "timespec option"
  Time1 :: "timespec option"
  Pipefd :: "int \<times> int"
  Pid :: "int option"

record ready_queue =
  Data :: "nat list"
  Head :: int
  ElementCount :: int

record psjf_state =
  Raw :: "raw_input list"
  ReadyQueue :: ready_queue
  TimeCounter :: "32 word"
  UnReadyCount :: int
  FinishedCount :: int

definition at_int :: "'a list \<Rightarrow> int \<Rightarrow> ('w, 'a) prog" where
  "at_int xs i = (if 0 \<le> i then at xs (nat i) else undef Out_Of_Bounds)"

definition CompareByExecTime :: "raw_input list \<Rightarrow> nat \<Rightarrow> nat \<Rightarrow> int" where
  "CompareByExecTime raw A B =
    (if ExecTime (raw ! A) < ExecTime (raw ! B) then -1
     else if ExecTime (raw ! A) > ExecTime (raw ! B) then 1
     else 0)"

definition CompareByReadyTime :: "raw_input \<Rightarrow> raw_input \<Rightarrow> int" where
  "CompareByReadyTime A B =
    (if ReadyTime A < ReadyTime B then -1
     else if ReadyTime A > ReadyTime B then 1
     else 0)"

definition WaitForNextProcess :: "32 word \<Rightarrow> (process, unit) prog" where
  "WaitForNextProcess Counter = forM [0..<nat (sint Counter)] (\<lambda>_ _. spin) ()"

definition NextDataIn :: "ready_queue \<Rightarrow> (process, nat) prog" where
  "NextDataIn Queue = at_int (Data Queue) (Head Queue + ElementCount Queue)"

definition ChangePriority :: "int \<Rightarrow> int \<Rightarrow> (process, unit) prog" where
  "ChangePriority p Priority = bind (sys_setscheduler p Priority) (\<lambda>_. return ())"

text \<open>\<open>"%d "\<close> prints the \<open>unsigned int\<close> as an \<open>int\<close>. \<open>Running\<close> is an index into \<open>Raw\<close>.\<close>

definition SendToChild :: "nat \<Rightarrow> 32 word \<Rightarrow> psjf_state \<Rightarrow> (process, psjf_state) prog" where
  "SendToChild Running ThisExecTime st =
     bind (at (Raw st) Running) (\<lambda>r.
     bind (if Recorded r = 0 then bind sys_gettime (\<lambda>t. return (r\<lparr>Time0 := Some t, Recorded := 1\<rparr>)) else return r) (\<lambda>r.
     andThen (sys_write (snd (Pipefd r)) (snprintf 128 (show_int (sint ThisExecTime) @ '' '')))
     (case Pid r of None \<Rightarrow> undef Uninitialised | Some p \<Rightarrow>
     andThen (ChangePriority p 99)
     (return (st\<lparr>Raw := (Raw st)[Running := r\<lparr>ExecTime := ExecTime r - ThisExecTime\<rparr>],
        TimeCounter := TimeCounter st + ThisExecTime\<rparr>)))))"

definition readRaw :: "nat \<Rightarrow> raw_input list \<Rightarrow> (process, raw_input list) prog" where
  "readRaw Index raw =
     bind (scanf_s 32) (\<lambda>nm.
     bind scanf_d (\<lambda>ready.
     bind scanf_d (\<lambda>exec.
     bind sys_pipe (\<lambda>fds.
     bind (at raw Index) (\<lambda>r.
     return (raw[Index := r\<lparr>Name := nm, ReadyTime := word_of_int ready, ExecTime := word_of_int exec,
       Recorded := 0, Pipefd := fds\<rparr>]))))))"

definition malloc_raw :: "nat \<Rightarrow> raw_input list" where
  "malloc_raw N = replicate N \<lparr>Name = [], ReadyTime = 0, ExecTime = 0, Recorded = 0,
     Time0 = None, Time1 = None, Pipefd = (0, 0), Pid = None\<rparr>"

text \<open>
  The job that has become ready is forked. A child whose \<open>execl\<close> fails goes on as a copy of the
  scheduler, since the code does not exit there.
\<close>

definition forkNext :: "psjf_state \<Rightarrow> nat \<Rightarrow> raw_input \<Rightarrow> (process, psjf_state) prog" where
  "forkNext st i NewProcess =
     bind sys_fork (\<lambda>ChildPid.
     if ChildPid < 0 then andThen (eprint (''fork error'' @ newline)) (exit_with 0)
     else if ChildPid \<noteq> 0 then
       return (st\<lparr>Raw := (Raw st)[i := NewProcess\<lparr>Pid := Some ChildPid\<rparr>],
         UnReadyCount := UnReadyCount st - 1,
         ReadyQueue := (ReadyQueue st)\<lparr>ElementCount := ElementCount (ReadyQueue st) + 1\<rparr>\<rparr>)
     else
       andThen (sys_dup2 (fst (Pipefd NewProcess)) 0)
       (bind (sys_execl ''./child'' [''./child'', Name NewProcess,
                snprintf 128 (show_int (sint (ExecTime NewProcess)))]) (\<lambda>r.
        if r < 0 then andThen (eprint (''exec error'' @ newline)) (return st)
        else return st)))"

definition sortQueue :: "psjf_state \<Rightarrow> (process, psjf_state) prog" where
  "sortQueue st =
     (let q = ReadyQueue st in
      if Head q < 0 \<or> ElementCount q < 0 \<or> int (length (Data q)) < Head q + ElementCount q then undef Bad_Size
      else return (st\<lparr>ReadyQueue := q\<lparr>Data :=
        qsort_at (CompareByExecTime (Raw st)) (nat (Head q)) (nat (ElementCount q)) (Data q)\<rparr>\<rparr>))"

text \<open>The end of the loop's body: the shortest job runs until it is done or the next one is ready.\<close>

definition nextBefore :: "psjf_state \<Rightarrow> 32 word \<Rightarrow> (process, 32 word option) prog" where
  "nextBefore st deadline =
     (if UnReadyCount st = 0 then return None
      else bind (NextDataIn (ReadyQueue st)) (\<lambda>i. bind (at (Raw st) i) (\<lambda>nx.
        return (if ReadyTime nx < deadline then Some (ReadyTime nx) else None))))"

definition finishHead :: "nat \<Rightarrow> psjf_state \<Rightarrow> (process, psjf_state) prog" where
  "finishHead Running st =
     bind (at (Raw st) Running) (\<lambda>r.
     case Pid r of None \<Rightarrow> undef Uninitialised | Some p \<Rightarrow>
     bind (sys_waitpid p) (\<lambda>ret.
     if ret < 0 then andThen (print (''wait error'' @ newline)) (exit_with 0)
     else
       bind sys_gettime (\<lambda>t.
       andThen (print_result p (Time0 r) (Some t))
       (return (st\<lparr>Raw := (Raw st)[Running := r\<lparr>Time1 := Some t\<rparr>],
          ReadyQueue := (ReadyQueue st)\<lparr>Head := Head (ReadyQueue st) + 1,
            ElementCount := ElementCount (ReadyQueue st) - 1\<rparr>,
          FinishedCount := FinishedCount st + 1\<rparr>)))))"

definition runHead :: "psjf_state \<Rightarrow> (process, psjf_state) prog" where
  "runHead st =
     bind (sortQueue st) (\<lambda>st.
     bind (at_int (Data (ReadyQueue st)) (Head (ReadyQueue st))) (\<lambda>Running.
     bind (at (Raw st) Running) (\<lambda>r.
     bind (nextBefore st (TimeCounter st + ExecTime r)) (\<lambda>next_ready.
     case next_ready of
       Some ready \<Rightarrow> SendToChild Running (ready - TimeCounter st) st
     | None \<Rightarrow> bind (SendToChild Running (ExecTime r) st) (\<lambda>st. finishHead Running st)))))"

definition PSJF_round :: "psjf_state \<Rightarrow> (process, psjf_state) prog" where
  "PSJF_round st =
     (if UnReadyCount st \<noteq> 0 then
        bind (NextDataIn (ReadyQueue st)) (\<lambda>i.
        bind (at (Raw st) i) (\<lambda>nx.
        if ReadyTime nx = TimeCounter st then bind (forkNext st i nx) runHead
        else if ElementCount (ReadyQueue st) = 0 then
          let WaitTime = ReadyTime nx - TimeCounter st in
          andThen (WaitForNextProcess WaitTime)
          (return (st\<lparr>TimeCounter := TimeCounter st + WaitTime\<rparr>))
        else runHead st))
      else runHead st)"

definition PSJF_start :: "raw_input list \<Rightarrow> psjf_state" where
  "PSJF_start raw =
     (let sorted_raw = qsort CompareByReadyTime raw in
      \<lparr>Raw = sorted_raw,
       ReadyQueue = \<lparr>Data = [0..<length raw], Head = 0, ElementCount = 0\<rparr>,
       TimeCounter = 0, UnReadyCount = int (length raw), FinishedCount = 0\<rparr>)"

definition PSJF :: "(process, int) prog" where
  "PSJF =
     andThen (ChangePriority 0 98)
     (bind scanf_d (\<lambda>ProcessCount.
      if ProcessCount < 0 then undef Bad_Size
      else
        bind (forM [0..<nat ProcessCount] readRaw (malloc_raw (nat ProcessCount))) (\<lambda>raw.
        bind (whileM (\<lambda>st. FinishedCount st < ProcessCount) PSJF_round (PSJF_start raw)) (\<lambda>st.
        return 0))))"

end
