(* ===== verification/Psjf.thy ===== *)
theory Psjf
  imports Psjf_Code Samples
begin

text \<open>
  Preemptive shortest job first. The policy \<open>srtf\<close>: a positive amount of time only goes to a job with
  the least remaining time of all that have arrived. The array of pointers is abstracted to three lists:
  the jobs done, the ready queue, the jobs to come.
\<close>

section \<open>Specification\<close>

definition srtf :: policy where
  "srtf jobs h j t = (0 < t \<longrightarrow>
     (\<forall>k \<in> set jobs. arrived h k \<longrightarrow> \<not> finished h k \<longrightarrow> job_left h j \<le> job_left h k))"

text \<open>The \<open>n\<close>-th fork happens at the \<open>n\<close>-th ready time.\<close>

fun is_fork :: "event \<Rightarrow> bool" where
  "is_fork (Ev_Fork p) = True"
| "is_fork _ = False"

definition forks :: "event list \<Rightarrow> nat" where
  "forks h = length (filter is_fork h)"

definition admits :: "job list \<Rightarrow> event list \<Rightarrow> event \<Rightarrow> bool" where
  "admits jobs h e = (is_fork e \<longrightarrow>
     forks h < length jobs \<and> sort (map jready jobs) ! forks h = elapsed h)"

lemma forks_pids: "length (fork_pids h) = forks h"
proof (induction h rule: rev_induct)
  case (snoc e h)
  then show ?case by (cases e) (simp_all add: forks_def)
qed (simp add: forks_def)

lemma forks_snoc [simp]: "forks (h @ [e]) = forks h + (if is_fork e then 1 else 0)"
  and forks_nil [simp]: "forks [] = 0"
  by (simp_all add: forks_def)

section \<open>The invariant\<close>

definition rjob :: "event list \<Rightarrow> raw_input \<Rightarrow> job" where
  "rjob h r = \<lparr>jname = Name r, jrd = fst (Pipefd r), jwr = snd (Pipefd r), jready = uint (ReadyTime r),
     jexec = uint (ExecTime r) + sent (snd (Pipefd r)) h\<rparr>"

lemma rjob_simps [simp]:
  "jname (rjob h r) = Name r" "jrd (rjob h r) = fst (Pipefd r)" "jwr (rjob h r) = snd (Pipefd r)"
  "jready (rjob h r) = uint (ReadyTime r)" "jexec (rjob h r) = uint (ExecTime r) + sent (snd (Pipefd r)) h"
  by (simp_all add: rjob_def)

abbreviation left_sum :: "raw_input list \<Rightarrow> int" where
  "left_sum raw \<equiv> sum_list (map (\<lambda>r. uint (ExecTime r)) raw)"

text \<open>Entry \<open>i\<close>, when the first \<open>A\<close> entries have been forked and the time is \<open>c\<close>.\<close>

definition rslot :: "nat \<Rightarrow> int \<Rightarrow> event list \<Rightarrow> nat \<Rightarrow> raw_input \<Rightarrow> bool" where
  "rslot A c h i r =
    ((i < A \<longrightarrow> uint (ReadyTime r) \<le> c \<and> (\<exists>p. Pid r = Some p \<and> 0 < p \<and> p \<le> INT_MAX \<and> nth_fork h i p)) \<and>
     (A \<le> i \<longrightarrow> c \<le> uint (ReadyTime r) \<and> chunks (snd (Pipefd r)) h = [] \<and> Recorded r = 0) \<and>
     (chunks (snd (Pipefd r)) h \<noteq> [] \<longrightarrow> started_at h (snd (Pipefd r)) (the (Time0 r))) \<and>
     (Recorded r \<noteq> 0 \<longrightarrow> recorded (Time0 r)))"

definition psjf_core :: "job list \<Rightarrow> nat \<Rightarrow> psjf_state \<Rightarrow> process \<Rightarrow> bool" where
  "psjf_core jobs A st w =
    (os_ok (sys w) \<and> workload_ok jobs \<and> mset (map (rjob (trace w)) (Raw st)) = mset jobs \<and>
     A \<le> length (Raw st) \<and> sorted (map ReadyTime (Raw st)) \<and>
     uint (TimeCounter st) = elapsed (trace w) \<and> uint (TimeCounter st) + left_sum (Raw st) \<le> INT_MAX \<and>
     (\<forall>i < length (Raw st). rslot A (elapsed (trace w)) (trace w) i (Raw st ! i)) \<and>
     every (obeys srtf jobs) (trace w) \<and> every (admits jobs) (trace w) \<and> forks (trace w) = A \<and>
     pipes (trace w) = map (\<lambda>j. (jrd j, jwr j)) jobs)"

definition psjf_queue :: "nat list \<Rightarrow> nat list \<Rightarrow> psjf_state \<Rightarrow> event list \<Rightarrow> bool" where
  "psjf_queue D L st h =
    (Data (ReadyQueue st) = D @ L @ [length D + length L..<length (Raw st)] \<and>
     Head (ReadyQueue st) = int (length D) \<and> ElementCount (ReadyQueue st) = int (length L) \<and>
     FinishedCount st = int (length D) \<and>
     UnReadyCount st = int (length (Raw st)) - int (length D + length L) \<and>
     distinct (D @ L) \<and> set (D @ L) = {0..<length D + length L} \<and>
     (\<forall>i \<in> set D. ExecTime (Raw st ! i) = 0) \<and>
     map fst (completions h) = map (\<lambda>i. snd (Pipefd (Raw st ! i))) D \<and>
     list_all2 (\<lambda>i. line_of_nth h i (snd (Pipefd (Raw st ! i)))) D (printed h))"

text \<open>
  A job in the ready queue still needs time or has not been written to, and its start is recorded just when
  it has been written to.
\<close>

definition live :: "psjf_state \<Rightarrow> event list \<Rightarrow> nat \<Rightarrow> bool" where
  "live st h i = ((0 < ExecTime (Raw st ! i) \<or> chunks (snd (Pipefd (Raw st ! i))) h = []) \<and>
     (Recorded (Raw st ! i) = 0 \<longleftrightarrow> chunks (snd (Pipefd (Raw st ! i))) h = []))"

definition psjf_inv :: "job list \<Rightarrow> nat list \<Rightarrow> nat list \<Rightarrow> psjf_state \<Rightarrow> process \<Rightarrow> bool" where
  "psjf_inv jobs D L st w =
    (psjf_core jobs (length D + length L) st w \<and> psjf_queue D L st (trace w) \<and>
     (\<forall>i \<in> set L. live st (trace w) i))"

lemma psjf_coreD:
  assumes "psjf_core jobs A st w"
  shows "os_ok (sys w)" "workload_ok jobs" "mset (map (rjob (trace w)) (Raw st)) = mset jobs"
    "A \<le> length (Raw st)" "sorted (map ReadyTime (Raw st))" "uint (TimeCounter st) = elapsed (trace w)"
    "uint (TimeCounter st) + left_sum (Raw st) \<le> INT_MAX"
    "\<And>i. i < length (Raw st) \<Longrightarrow> rslot A (elapsed (trace w)) (trace w) i (Raw st ! i)"
    "every (obeys srtf jobs) (trace w)" "every (admits jobs) (trace w)" "forks (trace w) = A"
    "pipes (trace w) = map (\<lambda>j. (jrd j, jwr j)) jobs"
  using assms by (auto simp: psjf_core_def)

lemma psjf_queueD:
  assumes "psjf_queue D L st h"
  shows "Data (ReadyQueue st) = D @ L @ [length D + length L..<length (Raw st)]"
    "Head (ReadyQueue st) = int (length D)" "ElementCount (ReadyQueue st) = int (length L)"
    "FinishedCount st = int (length D)"
    "UnReadyCount st = int (length (Raw st)) - int (length D + length L)"
    "distinct (D @ L)" "set (D @ L) = {0..<length D + length L}"
    "\<And>i. i \<in> set D \<Longrightarrow> ExecTime (Raw st ! i) = 0"
    "map fst (completions h) = map (\<lambda>i. snd (Pipefd (Raw st ! i))) D"
    "list_all2 (\<lambda>i. line_of_nth h i (snd (Pipefd (Raw st ! i)))) D (printed h)"
  using assms by (auto simp: psjf_queue_def)

text \<open>Jobs and entries.\<close>

lemma psjf_job_index:
  assumes "psjf_core jobs A st w" "j \<in> set jobs"
  shows "\<exists>i < length (Raw st). rjob (trace w) (Raw st ! i) = j"
proof -
  have "set (map (rjob (trace w)) (Raw st)) = set jobs"
    using psjf_coreD(3) [OF assms(1)] by (rule mset_eq_setD)
  with assms(2) have "j \<in> rjob (trace w) ` set (Raw st)" by simp
  then show ?thesis by (auto simp: in_set_conv_nth)
qed

lemma psjf_index_job:
  assumes "psjf_core jobs A st w" "i < length (Raw st)"
  shows "rjob (trace w) (Raw st ! i) \<in> set jobs"
proof -
  have "set (map (rjob (trace w)) (Raw st)) = set jobs"
    using psjf_coreD(3) [OF assms(1)] by (rule mset_eq_setD)
  with assms(2) show ?thesis by (metis image_eqI list.set_map nth_mem)
qed

lemma psjf_distinct_fds:
  assumes "psjf_core jobs A st w"
  shows "distinct (map (\<lambda>r. snd (Pipefd r)) (Raw st))"
proof -
  have m: "mset (map jwr (map (rjob (trace w)) (Raw st))) = mset (map jwr jobs)"
    using psjf_coreD(3) [OF assms] by (metis mset_map)
  then show ?thesis
    using psjf_coreD(2) [OF assms] mset_eq_imp_distinct_iff [OF m] by (simp add: comp_def workload_ok_def)
qed

lemma psjf_fd_eq:
  assumes "psjf_core jobs A st w" "i < length (Raw st)" "k < length (Raw st)"
  shows "snd (Pipefd (Raw st ! i)) = snd (Pipefd (Raw st ! k)) \<longleftrightarrow> i = k"
  using psjf_distinct_fds [OF assms(1)] assms(2,3) by (auto simp: distinct_conv_nth)

lemma psjf_ready_mono:
  "psjf_core jobs A st w \<Longrightarrow> i \<le> k \<Longrightarrow> k < length (Raw st) \<Longrightarrow> ReadyTime (Raw st ! i) \<le> ReadyTime (Raw st ! k)"
  using psjf_coreD(5) sorted_nth_mono [of "map ReadyTime (Raw st)" i k] by fastforce

lemma psjf_ready_bound:
  assumes "psjf_core jobs A st w" "i < length (Raw st)"
  shows "uint (ReadyTime (Raw st ! i)) + left_sum (Raw st) \<le> INT_MAX"
proof -
  let ?j = "rjob (trace w) (Raw st ! i)"
  have "mset (map jexec (map (rjob (trace w)) (Raw st))) = mset (map jexec jobs)"
    using psjf_coreD(3) [OF assms(1)] by (metis mset_map)
  then have "sum_list (map jexec jobs) = sum_list (map jexec (map (rjob (trace w)) (Raw st)))"
    by (metis sum_mset_sum_list)
  also have "\<dots> \<ge> left_sum (Raw st)"
    unfolding map_map comp_def by (rule sum_list_mono) simp
  finally show ?thesis
    using workload_okD(3) [OF psjf_coreD(2) [OF assms(1)] psjf_index_job [OF assms]] by simp
qed

lemma left_sum_member:
  "i < length raw \<Longrightarrow> uint (ExecTime (raw ! i)) \<le> left_sum raw" "0 \<le> left_sum raw"
  by (auto intro!: elem_le_sum_list sum_list_nonneg)

section \<open>Steps that keep the core\<close>

lemma uint_sub_le: "t \<le> e \<Longrightarrow> uint (e - t) = uint e - uint t" for e t :: "32 word"
  by (simp add: word_le_def uint_sub_lem)

lemma uint_add_small: "uint a + uint b \<le> INT_MAX \<Longrightarrow> uint (a + b) = uint a + uint b" for a b :: "32 word"
  using uint_add_lem [of a b] by simp

lemma rjob_quiet: "quiet e \<Longrightarrow> rjob (h @ [e]) = rjob h"
  by (rule ext) (simp add: rjob_def quietD)

lemma rslot_same:
  "(\<And>f. written f e = []) \<Longrightarrow> rslot A c h i r \<Longrightarrow> rslot A c (h @ [e]) i r"
  by (auto simp: rslot_def stamps_more nth_fork_more)

lemma rslot_quiet: "quiet e \<Longrightarrow> rslot A c h i r \<Longrightarrow> rslot A c (h @ [e]) i r"
  by (rule rslot_same) (simp_all add: quietD)

lemma core_quiet:
  assumes "psjf_core jobs A st w" "quiet e" "obeys srtf jobs (trace w) e" "\<not> is_fork e"
  shows "psjf_core jobs A st (log_event e w)"
  using assms by (auto simp: psjf_core_def rjob_quiet rslot_quiet quietD admits_def)

lemma queue_quiet:
  "psjf_queue D L st h \<Longrightarrow> quiet e \<Longrightarrow> printed_line e = [] \<Longrightarrow> psjf_queue D L st (h @ [e])"
  by (auto simp: psjf_queue_def quietD lines_more simp del: completions_snoc)

lemma core_other_fields:
  "Raw st' = Raw st \<Longrightarrow> TimeCounter st' = TimeCounter st \<Longrightarrow> psjf_core jobs A st' w = psjf_core jobs A st w"
  by (simp add: psjf_core_def)

text \<open>Changes of an entry that are not seen in its job.\<close>

lemma core_update:
  assumes core: "psjf_core jobs A st w" and x: "x < length (Raw st)"
    and same: "Name r' = Name (Raw st ! x)" "Pipefd r' = Pipefd (Raw st ! x)"
      "ReadyTime r' = ReadyTime (Raw st ! x)" "ExecTime r' = ExecTime (Raw st ! x)"
    and slot: "rslot A (elapsed (trace w)) (trace w) x r'"
    and st': "Raw st' = (Raw st)[x := r']" "TimeCounter st' = TimeCounter st"
  shows "psjf_core jobs A st' w"
proof -
  have maps: "map (rjob (trace w)) (Raw st') = map (rjob (trace w)) (Raw st)"
    "map ReadyTime (Raw st') = map ReadyTime (Raw st)" "left_sum (Raw st') = left_sum (Raw st)"
    using x same by (simp_all add: st' map_update_same rjob_def)
  have "rslot A (elapsed (trace w)) (trace w) i (Raw st' ! i)" if "i < length (Raw st)" for i
    using that psjf_coreD(8) [OF core that] slot x by (cases "i = x") (simp_all add: st')
  then show ?thesis
    using core unfolding psjf_core_def maps st'(2) by (simp add: st'(1))
qed

lemma core_sorted_ready:
  assumes "psjf_core jobs A st w"
  shows "sort (map jready jobs) = map (\<lambda>r. uint (ReadyTime r)) (Raw st)"
proof (rule properties_for_sort)
  have "mset (map jready (map (rjob (trace w)) (Raw st))) = mset (map jready jobs)"
    using psjf_coreD(3) [OF assms] by (metis mset_map)
  then show "mset (map (\<lambda>r. uint (ReadyTime r)) (Raw st)) = mset (map jready jobs)"
    by (simp add: comp_def)
  show "sorted (map (\<lambda>r. uint (ReadyTime r)) (Raw st))"
    using psjf_coreD(5) [OF assms] by (auto simp: sorted_iff_nth_mono word_le_def)
qed

lemma core_fork:
  assumes core: "psjf_core jobs A st w" and A: "A < length (Raw st)" "ReadyTime (Raw st ! A) = TimeCounter st"
    and p: "0 < p" "p \<le> INT_MAX"
    and st': "Raw st' = (Raw st)[A := (Raw st ! A)\<lparr>Pid := Some p\<rparr>]" "TimeCounter st' = TimeCounter st"
  shows "psjf_core jobs (A + 1) st' (log_event (Ev_Fork p) w)"
proof -
  note D = psjf_coreD [OF core]
  have maps: "map (rjob (trace w)) (Raw st') = map (rjob (trace w)) (Raw st)"
    "map ReadyTime (Raw st') = map ReadyTime (Raw st)" "left_sum (Raw st') = left_sum (Raw st)"
    using A by (simp_all add: st' map_update_same rjob_def)
  have pids: "nth_fork (trace w @ [Ev_Fork p]) A p"
    using forks_pids [of "trace w"] D(11) by (simp add: nth_fork_def nth_append)
  have "rslot (A + 1) (elapsed (trace w)) (trace w @ [Ev_Fork p]) i (Raw st' ! i)" if "i < length (Raw st)" for i
  proof (cases "i = A")
    case True
    then show ?thesis using that D(6) D(8) [OF that] A p pids by (simp add: st' rslot_def)
  next
    case False
    then show ?thesis
      using rslot_quiet [OF _ D(8) [OF that], of "Ev_Fork p"] by (auto simp: st' rslot_def)
  qed
  moreover have "length jobs = length (Raw st)"
    using D(3) by (metis length_map mset_eq_length)
  then have "admits jobs (trace w) (Ev_Fork p)"
    using A D(6,11) by (simp add: admits_def core_sorted_ready [OF core])
  moreover have "mset (map (rjob (trace w)) (Raw st')) = mset jobs" "sorted (map ReadyTime (Raw st'))"
    "uint (TimeCounter st') + left_sum (Raw st') \<le> INT_MAX" "length (Raw st') = length (Raw st)"
    using D(3,5,7) unfolding maps st'(2) by (simp_all add: st'(1))
  ultimately show ?thesis
    using D(1,2,6,9-12) A
    by (simp add: psjf_core_def rjob_quiet st'(2) del: mset_map map_map)
qed

lemma core_arrived_index:
  assumes core: "psjf_core jobs A st w" and later: "A < length (Raw st) \<Longrightarrow> TimeCounter st < ReadyTime (Raw st ! A)"
    and i: "i < length (Raw st)" "arrived (trace w) (rjob (trace w) (Raw st ! i))"
  shows "i < A"
proof (rule ccontr)
  assume "\<not> i < A"
  then have "ReadyTime (Raw st ! A) \<le> ReadyTime (Raw st ! i)" "A < length (Raw st)"
    using psjf_ready_mono [OF core, of A i] i by auto
  then have "TimeCounter st < ReadyTime (Raw st ! i)" using later by (auto intro: less_le_trans)
  then show False using i(2) psjf_coreD(6) [OF core] by (simp add: arrived_def word_less_def)
qed

lemma core_write:
  assumes core: "psjf_core jobs A st w" and x: "x < A"
    and t: "t \<le> ExecTime (Raw st ! x)" "A < length (Raw st) \<Longrightarrow> uint (TimeCounter st) + uint t \<le> uint (ReadyTime (Raw st ! A))"
    and fresh: "0 < ExecTime (Raw st ! x) \<or> chunks (snd (Pipefd (Raw st ! x))) (trace w) = []"
    and pol: "srtf jobs (trace w) (rjob (trace w) (Raw st ! x)) (uint t)"
    and st: "stamped (trace w) (snd (Pipefd (Raw st ! x))) (Time0 (Raw st ! x))"
    and st': "Raw st' = (Raw st)[x := (Raw st ! x)\<lparr>ExecTime := ExecTime (Raw st ! x) - t\<rparr>]"
      "TimeCounter st' = TimeCounter st + t"
  shows "psjf_core jobs A st' (log_event (Ev_Write (snd (Pipefd (Raw st ! x))) (chunk_text (uint t))) w)"
proof -
  note D = psjf_coreD [OF core]
  let ?r = "Raw st ! x"
  let ?e = "Ev_Write (snd (Pipefd ?r)) (chunk_text (uint t))"
  have len: "x < length (Raw st)" using x D(4) by simp
  have sum: "left_sum (Raw st') = left_sum (Raw st) - uint t"
    using len t(1) by (simp add: st' map_update sum_list_replace uint_sub_le)
  have le: "uint t \<le> uint (ExecTime ?r)" using t(1) by (simp add: word_le_def)
  have small: "uint (TimeCounter st) + uint t \<le> INT_MAX" "uint t \<le> INT_MAX"
    using D(7) left_sum_member(1) [OF len] le uint_nonnegative [of "TimeCounter st"] by linarith+
  note T' = uint_add_small [OF small(1)]
  have fd: "snd (Pipefd (Raw st ! i)) = snd (Pipefd ?r) \<longleftrightarrow> i = x" if "i < length (Raw st)" for i
    using psjf_fd_eq [OF core that len] .
  have jobs: "map (rjob (trace w @ [?e])) (Raw st') = map (rjob (trace w)) (Raw st)"
  proof (rule nth_equalityI)
    fix i assume "i < length (map (rjob (trace w @ [?e])) (Raw st'))"
    then have "i < length (Raw st)" by (simp add: st')
    then show "map (rjob (trace w @ [?e])) (Raw st') ! i = map (rjob (trace w)) (Raw st) ! i"
      using fd [of i] le t(1) by (cases "i = x") (auto simp: st' rjob_def uint_sub_le)
  qed (simp add: st')
  have slots: "rslot A (elapsed (trace w) + uint t) (trace w @ [?e]) i (Raw st' ! i)" if i: "i < length (Raw st)" for i
  proof -
    have "A \<le> i \<Longrightarrow> elapsed (trace w) + uint t \<le> uint (ReadyTime (Raw st ! i))"
      using t(2) psjf_ready_mono [OF core _ i, of A] i D(6) by (force simp: word_le_def)
    moreover have "v \<le> elapsed (trace w) + uint t" if "v \<le> elapsed (trace w)" for v
      using that uint_nonnegative [of t] by linarith
    moreover have "started_at (trace w @ [?e]) (snd (Pipefd ?r)) (the (Time0 ?r))"
      by (rule stamped_write [OF st]) (use D(8) [OF len] in \<open>simp add: rslot_def\<close>)
    ultimately show ?thesis
      using D(8) [OF i] fd [OF i] i x by (cases "i = x") (auto simp: st' rslot_def stamps_more nth_fork_more)
  qed
  have "may_write srtf jobs (trace w) (snd (Pipefd ?r)) (chunk_text (uint t)) (rjob (trace w) ?r)"
    using pol small(2) le D(6) D(8) [OF len] x fresh
    by (auto simp: may_write_def arrived_def rslot_def started_def finished_def word_less_def)
  then have ob: "obeys srtf jobs (trace w) ?e"
    using psjf_index_job [OF core len] by auto
  have "mset (map (rjob (trace w @ [?e])) (Raw st')) = mset jobs" "sorted (map ReadyTime (Raw st'))"
    "uint (TimeCounter st') + left_sum (Raw st') \<le> INT_MAX" "length (Raw st') = length (Raw st)"
    using D(3,5,7) len unfolding jobs sum T' st'(2) by (simp_all add: st'(1) map_update_same)
  then show ?thesis
    using D(1,2,4,6,9-12) slots ob
    by (simp add: psjf_core_def T' st'(2) admits_def del: mset_map map_map)
qed

section \<open>The queue\<close>

lemma queue_update:
  assumes "psjf_queue D L st h" "length D + length L \<le> length (Raw st)"
    and "\<And>i. i < length (Raw st) \<Longrightarrow> Pipefd (Raw st' ! i) = Pipefd (Raw st ! i)"
    and "\<And>i. i \<in> set D \<Longrightarrow> ExecTime (Raw st' ! i) = ExecTime (Raw st ! i)"
    and "length (Raw st') = length (Raw st)" "ReadyQueue st' = ReadyQueue st" "FinishedCount st' = FinishedCount st"
      "UnReadyCount st' = UnReadyCount st" "map fst (completions h') = map fst (completions h)"
      "printed h' = printed h" "h' = h @ g"
  shows "psjf_queue D L st' h'"
proof -
  have "i < length (Raw st)" if "i \<in> set D" for i
    using psjf_queueD(7) [OF assms(1)] that assms(2) by (metis Un_iff atLeastLessThan_iff order.strict_trans2 set_append)
  moreover from this have "list_all2 (\<lambda>i. line_of_nth (h @ g) i (snd (Pipefd (Raw st' ! i)))) D (printed h)"
    using psjf_queueD(10) [OF assms(1)] assms(3) by (intro lines_more) auto
  then have "list_all2 (\<lambda>i. line_of_nth h' i (snd (Pipefd (Raw st' ! i)))) D (printed h')"
    using assms(10,11) by simp
  ultimately show ?thesis using assms(1-9) by (auto simp: psjf_queue_def)
qed

lemma queue_member:
  assumes "psjf_queue D L st h" "i \<in> set D \<or> i \<in> set L"
  shows "i < length D + length L"
  using psjf_queueD(7) [OF assms(1)] assms(2) by (metis Un_iff atLeastLessThan_iff set_append)

lemma cmp_exec_key: "key_cmp (CompareByExecTime raw) (\<lambda>i. uint (ExecTime (raw ! i)))"
  by (auto simp: key_cmp_def CompareByExecTime_def word_less_def)

lemma cmp_ready_key: "key_cmp CompareByReadyTime (\<lambda>r. uint (ReadyTime r))"
  by (auto simp: key_cmp_def CompareByReadyTime_def word_less_def)

lemma qsort_at_middle: "qsort_at c (length xs) (length ys) (xs @ ys @ zs) = xs @ qsort c ys @ zs"
  by (simp add: qsort_at_def)

lemma wp_sortQueue:
  assumes "psjf_queue D L st h" "length D + length L \<le> length (Raw st)"
  shows "wp (sortQueue st) Q E w = Q (st\<lparr>ReadyQueue := (ReadyQueue st)\<lparr>Data :=
    D @ qsort (CompareByExecTime (Raw st)) L @ [length D + length L..<length (Raw st)]\<rparr>\<rparr>) w"
  using psjf_queueD(1-3) [OF assms(1)] assms(2) qsort_at_middle [of _ D L]
  by (simp add: sortQueue_def wp_rules Let_def)

lemma queue_sorted:
  assumes "psjf_queue D L st h"
  shows "psjf_queue D (qsort c L) (st\<lparr>ReadyQueue := (ReadyQueue st)\<lparr>Data :=
    D @ qsort c L @ [length D + length L..<length (Raw st)]\<rparr>\<rparr>) h"
proof -
  have "distinct (qsort c L) = distinct L"
    by (rule mset_eq_imp_distinct_iff) simp
  then show ?thesis
    using psjf_queueD [OF assms] by (auto simp: psjf_queue_def qsort_facts)
qed

lemma queue_finish:
  assumes "psjf_queue D (x # L) st h" "ExecTime (Raw st ! x) = 0"
    and "\<And>i. ExecTime (Raw st' ! i) = ExecTime (Raw st ! i)" "\<And>i. Pipefd (Raw st' ! i) = Pipefd (Raw st ! i)"
      "length (Raw st') = length (Raw st)"
    and "ReadyQueue st' = (ReadyQueue st)\<lparr>Head := Head (ReadyQueue st) + 1, ElementCount := ElementCount (ReadyQueue st) - 1\<rparr>"
      "FinishedCount st' = FinishedCount st + 1" "UnReadyCount st' = UnReadyCount st"
    and "map fst (completions h') = map fst (completions h) @ [snd (Pipefd (Raw st ! x))]"
    and "h' = h @ g" "printed h' = printed h @ [l]" "line_of_nth h' x (snd (Pipefd (Raw st ! x))) l"
  shows "psjf_queue (D @ [x]) L st' h'"
proof -
  have "set (D @ [x] @ L) = {0..<length D + Suc (length L)}" using psjf_queueD(7) [OF assms(1)] by simp
  moreover have "list_all2 (\<lambda>i. line_of_nth h' i (snd (Pipefd (Raw st' ! i)))) D (printed h)"
    unfolding assms(10) using psjf_queueD(10) [OF assms(1)] assms(4) by (intro lines_more) auto
  then have "list_all2 (\<lambda>i. line_of_nth h' i (snd (Pipefd (Raw st' ! i)))) (D @ [x]) (printed h')"
    unfolding assms(11) using assms(4,12) by (intro list_all2_appendI) auto
  ultimately show ?thesis
    using psjf_queueD(1-6,8,9) [OF assms(1)] assms(2-9) by (auto simp: psjf_queue_def)
qed

lemma queue_admit:
  assumes "psjf_queue D L st h" "length D + length L < length (Raw st)"
    and "\<And>i. ExecTime (Raw st' ! i) = ExecTime (Raw st ! i)" "\<And>i. Pipefd (Raw st' ! i) = Pipefd (Raw st ! i)"
      "length (Raw st') = length (Raw st)"
    and "ReadyQueue st' = (ReadyQueue st)\<lparr>ElementCount := ElementCount (ReadyQueue st) + 1\<rparr>"
      "FinishedCount st' = FinishedCount st" "UnReadyCount st' = UnReadyCount st - 1"
    and "map fst (completions h') = map fst (completions h)" "printed h' = printed h" "h' = h @ g"
  shows "psjf_queue D (L @ [length D + length L]) st' h'"
proof -
  let ?A = "length D + length L"
  have "?A \<notin> set D" "?A \<notin> set L" using queue_member [OF assms(1), of ?A] by auto
  moreover have "set (D @ L @ [?A]) = {0..<Suc ?A}" using psjf_queueD(7) [OF assms(1)] by auto
  moreover have "list_all2 (\<lambda>i. line_of_nth (h @ g) i (snd (Pipefd (Raw st' ! i)))) D (printed h)"
    using psjf_queueD(10) [OF assms(1)] assms(4) by (intro lines_more) auto
  then have "list_all2 (\<lambda>i. line_of_nth h' i (snd (Pipefd (Raw st' ! i)))) D (printed h')"
    using assms(10,11) by simp
  ultimately show ?thesis
    using psjf_queueD(1-6,8,9) [OF assms(1)] assms(2-9) upt_conv_Cons [OF assms(2)]
    by (auto simp: psjf_queue_def)
qed

section \<open>Sending time to a child\<close>

lemma sint_small: "uint t \<le> INT_MAX \<Longrightarrow> sint t = uint t" for t :: "32 word"
proof -
  assume "uint t \<le> INT_MAX"
  moreover have "- (2 ^ 31) \<le> uint t" by (rule order_trans [OF _ uint_nonnegative]) simp
  ultimately have "signed_take_bit 31 (uint t) = uint t" by (intro signed_take_bit_int_eq_self) simp_all
  then show ?thesis by (simp add: sint_uint)
qed

lemma snprintf_fits: "length s < cap \<Longrightarrow> snprintf cap s = s"
  by (simp add: snprintf_def)

lemma snprintf_amount: "uint t \<le> INT_MAX \<Longrightarrow> snprintf 128 (show_int (sint t) @ '' '') = chunk_text (uint t)" for t :: "32 word"
  using length_show_int [of "uint t"] uint_nonnegative [of t]
  by (simp add: sint_small snprintf_fits chunk_text_def del: uint_nonnegative)

definition start_recorded :: "process \<Rightarrow> raw_input \<Rightarrow> raw_input" where
  "start_recorded w r = (if Recorded r = 0 then r\<lparr>Time0 := Some (clock_now (sys w) (trace w)), Recorded := 1\<rparr> else r)"

definition start_logged :: "process \<Rightarrow> raw_input \<Rightarrow> process" where
  "start_logged w r = (if Recorded r = 0 then log_event (Ev_Gettime (clock_now (sys w) (trace w))) w else w)"

lemma start_recorded_fields [simp]:
  "Name (start_recorded w r) = Name r" "Pipefd (start_recorded w r) = Pipefd r"
  "ReadyTime (start_recorded w r) = ReadyTime r" "ExecTime (start_recorded w r) = ExecTime r"
  "Pid (start_recorded w r) = Pid r" "Recorded (start_recorded w r) \<noteq> 0"
  by (simp_all add: start_recorded_def)

lemma wp_SendToChild:
  assumes "x < length (Raw st)" "Pid (Raw st ! x) = Some p" "uint t \<le> INT_MAX" "os_ok (sys w)"
  shows "wp (SendToChild x t st) Q E w =
    Q (st\<lparr>Raw := (Raw st)[x := (start_recorded w (Raw st ! x))\<lparr>ExecTime := ExecTime (Raw st ! x) - t\<rparr>],
         TimeCounter := TimeCounter st + t\<rparr>)
      (log_event (Ev_Setscheduler p 99 0) (log_event (Ev_Write (snd (Pipefd (Raw st ! x))) (chunk_text (uint t)))
        (start_logged w (Raw st ! x))))"
  using assms os_ok_setscheduler [OF assms(4)]
  by (simp add: SendToChild_def ChangePriority_def wp_rules snprintf_amount start_recorded_def start_logged_def)

lemma start_keeps_core:
  assumes core: "psjf_core jobs A st w" and x: "x < length (Raw st)"
    and fresh: "Recorded (Raw st ! x) = 0 \<Longrightarrow> chunks (snd (Pipefd (Raw st ! x))) (trace w) = []" and A: "x < A"
  shows "psjf_core jobs A (st\<lparr>Raw := (Raw st)[x := start_recorded w (Raw st ! x)]\<rparr>) (start_logged w (Raw st ! x))"
proof -
  have "time_ok (clock_now (sys w) (trace w))" using os_ok_time psjf_coreD(1) [OF core] by blast
  then have "rslot A (elapsed (trace w)) (trace w) x (start_recorded w (Raw st ! x))"
    using psjf_coreD(8) [OF core x] fresh A by (auto simp: rslot_def start_recorded_def recorded_def)
  then have "psjf_core jobs A (st\<lparr>Raw := (Raw st)[x := start_recorded w (Raw st ! x)]\<rparr>) w"
    by (intro core_update [OF core x]) simp_all
  then show ?thesis
    by (auto simp: start_logged_def intro!: core_quiet)
qed

text \<open>The processor goes to a shortest job of the queue.\<close>

lemma psjf_policy:
  assumes inv: "psjf_inv jobs D L st w" and x: "x \<in> set L" "\<And>i. i \<in> set L \<Longrightarrow> ExecTime (Raw st ! x) \<le> ExecTime (Raw st ! i)"
    and later: "0 < t \<Longrightarrow> length D + length L < length (Raw st) \<Longrightarrow> TimeCounter st < ReadyTime (Raw st ! (length D + length L))"
  shows "srtf jobs (trace w) (rjob (trace w) (Raw st ! x)) t"
  unfolding srtf_def
proof (intro impI ballI)
  fix k assume t: "0 < t" and k: "k \<in> set jobs" "arrived (trace w) k" "\<not> finished (trace w) k"
  have core: "psjf_core jobs (length D + length L) st w" and q: "psjf_queue D L st (trace w)"
    using inv by (simp_all add: psjf_inv_def)
  obtain i where i: "i < length (Raw st)" "rjob (trace w) (Raw st ! i) = k"
    using psjf_job_index [OF core k(1)] by blast
  have "i < length D + length L"
    using core_arrived_index [OF core later [OF t] i(1)] k(2) i(2) by simp
  then have "i \<in> set D \<or> i \<in> set L" using psjf_queueD(7) [OF q] by (metis Un_iff atLeastLessThan_iff set_append zero_le)
  moreover have "i \<notin> set D" using psjf_queueD(8) [OF q, of i] k(3) i(2) by (auto simp: finished_def)
  ultimately have "ExecTime (Raw st ! x) \<le> ExecTime (Raw st ! i)" using x(2) by blast
  then show "job_left (trace w) (rjob (trace w) (Raw st ! x)) \<le> job_left (trace w) k"
    using i(2) by (auto simp: job_left_def word_le_def)
qed

lemma start_logged_trace:
  "sys (start_logged w r) = sys w" "sent f (trace (start_logged w r)) = sent f (trace w)"
  "elapsed (trace (start_logged w r)) = elapsed (trace w)" "chunks f (trace (start_logged w r)) = chunks f (trace w)"
  "completions (trace (start_logged w r)) = completions (trace w)"
  "printed (trace (start_logged w r)) = printed (trace w)"
  by (simp_all add: start_logged_def)

lemma srtf_start:
  "srtf jobs (trace (start_logged w r)) (rjob (trace (start_logged w r)) (start_recorded w r')) t =
    srtf jobs (trace w) (rjob (trace w) r') t"
proof -
  have "rjob (trace (start_logged w r)) (start_recorded w r') = rjob (trace w) r'"
    by (simp add: rjob_def start_logged_trace)
  then show ?thesis
    by (simp add: srtf_def arrived_def finished_def job_left_def start_logged_trace)
qed

text \<open>What holds once the running job \<open>x\<close> has been sent the amount \<open>t\<close>.\<close>

definition sent_state :: "job list \<Rightarrow> nat list \<Rightarrow> nat \<Rightarrow> nat list \<Rightarrow> psjf_state \<Rightarrow> 32 word \<Rightarrow> psjf_state \<Rightarrow> process \<Rightarrow> bool" where
  "sent_state jobs D x L st t st' w' =
    (psjf_core jobs (length D + Suc (length L)) st' w' \<and> psjf_queue D (x # L) st' (trace w') \<and>
     (\<forall>i \<in> set L. live st' (trace w') i) \<and> length (Raw st') = length (Raw st) \<and>
     map ReadyTime (Raw st') = map ReadyTime (Raw st) \<and>
     ExecTime (Raw st' ! x) = ExecTime (Raw st ! x) - t \<and> Recorded (Raw st' ! x) \<noteq> 0 \<and>
     chunks (snd (Pipefd (Raw st' ! x))) (trace w') \<noteq> [] \<and> last_fd (trace w') = snd (Pipefd (Raw st' ! x)) \<and>
     TimeCounter st' = TimeCounter st + t)"

lemma send_keeps:
  assumes inv: "psjf_inv jobs D (x # L) st w"
    and least: "\<And>i. i \<in> set (x # L) \<Longrightarrow> ExecTime (Raw st ! x) \<le> ExecTime (Raw st ! i)"
    and t: "t \<le> ExecTime (Raw st ! x)"
      "length D + Suc (length L) < length (Raw st) \<Longrightarrow>
        uint (TimeCounter st) + uint t \<le> uint (ReadyTime (Raw st ! (length D + Suc (length L))))"
    and later: "0 < uint t \<Longrightarrow> length D + Suc (length L) < length (Raw st) \<Longrightarrow>
        TimeCounter st < ReadyTime (Raw st ! (length D + Suc (length L)))"
  shows "wp (SendToChild x t st) (sent_state jobs D x L st t) never w"
proof -
  let ?A = "length D + Suc (length L)" and ?r = "Raw st ! x"
  have core: "psjf_core jobs ?A st w" and q: "psjf_queue D (x # L) st (trace w)"
    and live: "live st (trace w) x" "\<And>i. i \<in> set L \<Longrightarrow> live st (trace w) i"
    using inv by (simp_all add: psjf_inv_def)
  note C = psjf_coreD [OF core]
  have x: "x < ?A" "x < length (Raw st)" using queue_member [OF q, of x] C(4) by auto
  obtain p where p: "Pid ?r = Some p" using C(8) [OF x(2)] x(1) by (auto simp: rslot_def)
  let ?st1 = "st\<lparr>Raw := (Raw st)[x := start_recorded w ?r]\<rparr>" and ?w1 = "start_logged w ?r"
  define st' where "st' = st\<lparr>Raw := (Raw st)[x := (start_recorded w ?r)\<lparr>ExecTime := ExecTime ?r - t\<rparr>],
      TimeCounter := TimeCounter st + t\<rparr>"
  let ?w2 = "log_event (Ev_Write (snd (Pipefd ?r)) (chunk_text (uint t))) ?w1"
  have begun: "Recorded ?r = 0 \<longleftrightarrow> chunks (snd (Pipefd ?r)) (trace w) = []"
    using live(1) by (simp add: live_def)
  then have core1: "psjf_core jobs ?A ?st1 ?w1" using x(1) by (intro start_keeps_core [OF core x(2)]) simp_all
  have stamped: "stamped (trace ?w1) (snd (Pipefd ?r)) (Time0 (start_recorded w ?r))"
    using begun by (auto simp: stamped_def start_logged_def start_recorded_def)
  have fresh: "0 < ExecTime ?r \<or> chunks (snd (Pipefd ?r)) (trace ?w1) = []"
    using live(1) by (simp add: live_def start_logged_trace)
  have pol: "srtf jobs (trace ?w1) (rjob (trace ?w1) (start_recorded w ?r)) (uint t)"
    unfolding srtf_start using later by (intro psjf_policy [OF inv _ least]) auto
  have core2: "psjf_core jobs ?A st' ?w2"
    using core_write [OF core1 x(1), of t st'] x(2) t fresh pol stamped
      nth_list_update_neq [of x ?A "Raw st" "start_recorded w ?r"] x(1) by (simp add: st'_def)
  then have core3: "psjf_core jobs ?A st' (log_event (Ev_Setscheduler p 99 0) ?w2)"
    by (rule core_quiet) simp_all
  have small: "uint t \<le> INT_MAX"
    using C(7) left_sum_member(1) [OF x(2)] t(1) uint_nonnegative [of "TimeCounter st"]
    unfolding word_le_def by linarith
  have members: "i < length (Raw st)" if "i \<in> set (x # L)" for i
    using queue_member [OF q] that C(4) by (metis length_Cons order.strict_trans2)
  have others: "Raw st' ! i = Raw st ! i" if "i \<noteq> x" for i using that by (simp add: st'_def)
  have "x \<notin> set L" "x \<notin> set D" using psjf_queueD(6) [OF q] by auto
  obtain g where after: "trace (log_event (Ev_Setscheduler p 99 0) ?w2) = trace w @ g"
    by (cases "Recorded ?r = 0") (auto simp: start_logged_def)
  have queue: "psjf_queue D (x # L) st' (trace (log_event (Ev_Setscheduler p 99 0) ?w2))"
    by (rule queue_update [OF q _ _ _ _ _ _ _ _ _ after])
      (use C(4) others x(2) \<open>x \<notin> set D\<close> in \<open>auto simp: st'_def start_logged_trace nth_list_update simp del: append_assoc\<close>)
  have lives: "live st' (trace (log_event (Ev_Setscheduler p 99 0) ?w2)) i" if i: "i \<in> set L" for i
  proof -
    have "i \<noteq> x" using i \<open>x \<notin> set L\<close> by blast
    moreover have "snd (Pipefd (Raw st ! i)) \<noteq> snd (Pipefd ?r)"
      using psjf_fd_eq [OF core members x(2)] i \<open>i \<noteq> x\<close> by auto
    ultimately show ?thesis
      using live(2) [OF i] by (simp add: live_def others start_logged_trace del: append_assoc)
  qed
  have "map ReadyTime (Raw st') = map ReadyTime (Raw st)"
    using x(2) by (simp add: st'_def map_update_same)
  then show ?thesis
    using core3 queue lives x(2)
    by (simp add: wp_SendToChild [OF x(2) p small C(1)] st'_def [symmetric] sent_state_def del: append_assoc)
      (simp add: st'_def)
qed

section \<open>A round of the main loop\<close>

abbreviation psjf_progress :: "job list \<Rightarrow> nat list \<Rightarrow> nat list \<Rightarrow> psjf_state \<Rightarrow> psjf_state \<Rightarrow> process \<Rightarrow> bool" where
  "psjf_progress jobs D L st st' w' \<equiv>
    (\<exists>D' L'. psjf_inv jobs D' L' st' w' \<and> length (Raw st') = length (Raw st) \<and>
       length D' + length L' = length D + length L \<and>
       (length D' = length D + 1 \<or>
        length D' = length D \<and> length D + length L < length (Raw st) \<and>
        TimeCounter st' = ReadyTime (Raw st' ! (length D + length L))))"

lemma finish_keeps:
  assumes s: "sent_state jobs D x L st t st' w'" and zero: "ExecTime (Raw st' ! x) = 0"
    and len: "length (Raw st') = length (Raw st)"
  shows "wp (finishHead x st') (psjf_progress jobs D (x # L) st) never w'"
proof -
  let ?r = "Raw st' ! x" and ?A = "length D + Suc (length L)"
  have core: "psjf_core jobs ?A st' w'" and q: "psjf_queue D (x # L) st' (trace w')"
    and live: "\<And>i. i \<in> set L \<Longrightarrow> live st' (trace w') i" and rec: "Recorded ?r \<noteq> 0"
    and ch: "chunks (snd (Pipefd ?r)) (trace w') \<noteq> []" "last_fd (trace w') = snd (Pipefd ?r)"
    using s by (simp_all add: sent_state_def)
  note C = psjf_coreD [OF core]
  have x: "x < ?A" "x < length (Raw st')" using queue_member [OF q, of x] C(4) by auto
  obtain p t0 where p: "Pid ?r = Some p" "0 < p" "p \<le> INT_MAX" and t0: "Time0 ?r = Some t0" "time_ok t0"
    and stamps: "nth_fork (trace w') x p" "started_at (trace w') (snd (Pipefd ?r)) t0"
    using C(8) [OF x(2)] x(1) rec ch(1) by (auto simp: rslot_def recorded_def)
  define ret where "ret = waitpid_ret (sys w') (trace w') p"
  let ?w1 = "log_event (Ev_Waitpid p ret) w'"
  define now where "now = clock_now (sys w') (trace w' @ [Ev_Waitpid p ret])"
  define st2 where "st2 = st'\<lparr>Raw := (Raw st')[x := ?r\<lparr>Time1 := Some now\<rparr>],
      ReadyQueue := (ReadyQueue st')\<lparr>Head := Head (ReadyQueue st') + 1, ElementCount := ElementCount (ReadyQueue st') - 1\<rparr>,
      FinishedCount := FinishedCount st' + 1\<rparr>"
  let ?w2 = "log_event (Ev_Gettime now) ?w1"
  let ?w3 = "log_event (Ev_Myprint (result_line p t0 now)) ?w2"
  have now: "time_ok now" and ret: "0 \<le> ret"
    using os_ok_time [OF C(1)] os_ok_waitpid [OF C(1)] by (simp_all add: now_def ret_def)
  have "may_wait (trace w') (rjob (trace w') ?r)"
    using ch zero by (simp add: may_wait_def started_def finished_def)
  then have "obeys srtf jobs (trace w') (Ev_Waitpid p ret)"
    using psjf_index_job [OF core x(2)] by auto
  moreover have "rjob (trace w' @ [Ev_Waitpid p ret]) = rjob (trace w')"
    by (rule ext) (simp add: rjob_def)
  ultimately have "psjf_core jobs ?A st' ?w1"
    using core by (simp add: psjf_core_def rslot_same admits_def)
  then have "psjf_core jobs ?A st' ?w2" by (rule core_quiet) simp_all
  then have core2: "psjf_core jobs ?A st' ?w3" by (rule core_quiet) (simp_all add: quiet_def)
  have core3: "psjf_core jobs ?A st2 ?w3"
    using psjf_coreD(8) [OF core2 x(2)]
    by (intro core_update [OF core2 x(2), of "?r\<lparr>Time1 := Some now\<rparr>"])
      (simp_all add: st2_def rslot_def del: append_assoc)
  have same: "ExecTime (Raw st2 ! i) = ExecTime (Raw st' ! i)" "Pipefd (Raw st2 ! i) = Pipefd (Raw st' ! i)"
    "Recorded (Raw st2 ! i) = Recorded (Raw st' ! i)" for i
    using x(2) by (cases "i = x"; simp add: st2_def)+
  have compl: "map fst (completions (trace ?w3)) = map fst (completions (trace w')) @ [snd (Pipefd ?r)]"
    using ch(2) by (simp del: append_assoc)
  have after: "trace ?w3 = trace w' @ [Ev_Waitpid p ret, Ev_Gettime now, Ev_Myprint (result_line p t0 now)]" by simp
  have "ended_at (trace ?w3) (snd (Pipefd ?r)) now"
    using stamps_more(3) [OF ended_at_new [of "Ev_Waitpid p ret" "trace w'" now]] ch by (simp del: append_assoc)
  then have line: "line_of_nth (trace ?w3) x (snd (Pipefd ?r)) (result_line p t0 now)"
    unfolding line_of_nth_def using nth_fork_more [OF stamps(1)] stamps_more(2) [OF stamps(2)] after by metis
  have "printed (trace ?w3) = printed (trace w') @ [result_line p t0 now]" by simp
  then have queue: "psjf_queue (D @ [x]) L st2 (trace ?w3)"
    by (intro queue_finish [OF q zero same(1,2) _ _ _ _ compl after _ line]) (simp_all add: st2_def)
  have "live st2 (trace ?w3) i" if "i \<in> set L" for i
    using live [OF that] by (simp add: live_def same del: append_assoc)
  with core3 queue have "psjf_inv jobs (D @ [x]) L st2 ?w3" by (simp add: psjf_inv_def)
  moreover have "length (Raw st2) = length (Raw st)" by (simp add: st2_def len)
  ultimately have "psjf_progress jobs D (x # L) st st2 ?w3"
    by (intro exI [of _ "D @ [x]"] exI [of _ L]) simp
  then show ?thesis
    using x p t0 ret now
    by (simp add: finishHead_def wp_rules print_result_ok ret_def [symmetric] now_def [symmetric] st2_def
        del: append_assoc)
qed

lemma wp_NextDataIn:
  assumes "psjf_queue D L st h" "length D + length L < length (Raw st)"
  shows "wp (NextDataIn (ReadyQueue st)) Q E w = Q (length D + length L) w"
  using psjf_queueD(1-3) [OF assms(1)] assms(2)
  by (simp add: NextDataIn_def at_int_def wp_rules nth_append nat_add_distrib)

lemma wp_nextBefore:
  assumes "psjf_queue D L st h" "length D + length L \<le> length (Raw st)"
  shows "wp (nextBefore st deadline) Q E w =
    Q (if length D + length L < length (Raw st) \<and> ReadyTime (Raw st ! (length D + length L)) < deadline
       then Some (ReadyTime (Raw st ! (length D + length L))) else None) w"
  using psjf_queueD(5) [OF assms(1)] assms(2) wp_NextDataIn [OF assms(1)]
  by (auto simp: nextBefore_def wp_rules)

lemma preempt_keeps:
  assumes s: "sent_state jobs D x L st t st' w'" and "t < ExecTime (Raw st ! x)"
    and A: "length D + Suc (length L) < length (Raw st)"
      "TimeCounter st + t = ReadyTime (Raw st ! (length D + Suc (length L)))"
  shows "psjf_progress jobs D (x # L) st st' w'"
proof -
  have "0 < ExecTime (Raw st' ! x)"
    using s assms(2) by (auto simp: sent_state_def word_gt_0)
  then have "psjf_inv jobs D (x # L) st' w'"
    using s by (simp add: sent_state_def psjf_inv_def live_def)
  moreover have "map ReadyTime (Raw st') = map ReadyTime (Raw st)" "length (Raw st') = length (Raw st)"
    using s by (simp_all add: sent_state_def)
  then have "ReadyTime (Raw st' ! (length D + Suc (length L))) = ReadyTime (Raw st ! (length D + Suc (length L)))"
    using A(1) by (metis nth_map)
  ultimately show ?thesis
    using s A by (intro exI [of _ D] exI [of _ "x # L"]) (simp add: sent_state_def)
qed

lemma sort_keeps:
  assumes inv: "psjf_inv jobs D L st w"
  defines "st' \<equiv> st\<lparr>ReadyQueue := (ReadyQueue st)\<lparr>Data :=
    D @ qsort (CompareByExecTime (Raw st)) L @ [length D + length L..<length (Raw st)]\<rparr>\<rparr>"
  shows "psjf_inv jobs D (qsort (CompareByExecTime (Raw st)) L) st' w"
    and "Raw st' = Raw st" "TimeCounter st' = TimeCounter st"
    "at_int (Data (ReadyQueue st')) (Head (ReadyQueue st')) =
      at (qsort (CompareByExecTime (Raw st)) L @ [length D + length L..<length (Raw st)]) 0"
proof -
  show "psjf_inv jobs D (qsort (CompareByExecTime (Raw st)) L) st' w"
    using inv queue_sorted [of D L st "trace w" "CompareByExecTime (Raw st)"] core_other_fields [of st' st]
    by (auto simp: psjf_inv_def st'_def live_def qsort_facts psjf_core_def)
  show "at_int (Data (ReadyQueue st')) (Head (ReadyQueue st')) =
      at (qsort (CompareByExecTime (Raw st)) L @ [length D + length L..<length (Raw st)]) 0"
    using inv by (auto simp: psjf_inv_def psjf_queue_def st'_def at_int_def at_def nth_append)
qed (simp_all add: st'_def)

lemma runHead_keeps:
  assumes inv: "psjf_inv jobs D L st w" and L: "L \<noteq> []"
  shows "wp (runHead st) (psjf_progress jobs D L st) never w"
proof -
  let ?c = "CompareByExecTime (Raw st)" and ?A = "length D + length L"
  define st1 where "st1 = st\<lparr>ReadyQueue := (ReadyQueue st)\<lparr>Data := D @ qsort ?c L @ [?A..<length (Raw st)]\<rparr>\<rparr>"
  obtain x L' where xL: "qsort ?c L = x # L'" using L by (cases "qsort ?c L") (auto simp: qsort_facts)
  have lenL: "length L = Suc (length L')" using xL libc.srt_length [of ?c L] by simp
  note sorted_inv = sort_keeps [OF inv, folded st1_def, unfolded xL]
  have inv1: "psjf_inv jobs D (x # L') st1 w" by (rule sorted_inv(1))
  then have core: "psjf_core jobs ?A st1 w" and q: "psjf_queue D (x # L') st1 (trace w)"
    by (simp_all add: psjf_inv_def lenL)
  note C = psjf_coreD [OF core]
  have q0: "psjf_queue D L st (trace w)" using inv by (simp add: psjf_inv_def)
  have A: "?A \<le> length (Raw st)" using C(4) sorted_inv(2) by simp
  have x: "x < length (Raw st)" using queue_member [OF q, of x] A lenL by simp
  have least: "ExecTime (Raw st1 ! x) \<le> ExecTime (Raw st1 ! i)" if "i \<in> set (x # L')" for i
  proof -
    have "i \<in> set L" using that xL by (metis libc.srt_set)
    then show ?thesis
      using libc.srt_head_least [OF cmp_exec_key, of i L "Raw st"] xL sorted_inv(2) by (simp add: word_le_def)
  qed
  let ?e = "ExecTime (Raw st ! x)" and ?T = "TimeCounter st"
  have Te: "uint (?T + ?e) = uint ?T + uint ?e"
    using C(7) left_sum_member(1) [OF x] sorted_inv(2,3) by (intro uint_add_small) simp
  have run: "wp (bind (nextBefore st1 (?T + ?e)) (\<lambda>next_ready. case next_ready of
       Some ready \<Rightarrow> SendToChild x (ready - ?T) st1
     | None \<Rightarrow> bind (SendToChild x ?e st1) (\<lambda>st. finishHead x st))) (psjf_progress jobs D L st) never w"
  proof (cases "?A < length (Raw st) \<and> ReadyTime (Raw st ! ?A) < ?T + ?e")
    case True
    let ?t = "ReadyTime (Raw st ! ?A) - ?T"
    have ready: "?T \<le> ReadyTime (Raw st ! ?A)"
      using C(8) [of ?A] C(6) True sorted_inv(2,3) by (simp add: rslot_def word_le_def)
    have t: "uint ?t = uint (ReadyTime (Raw st ! ?A)) - uint ?T" "?T + ?t = ReadyTime (Raw st ! ?A)"
      using uint_sub_le [OF ready] by simp_all
    then have less: "?t < ?e" using True Te by (simp add: word_less_def)
    have "wp (SendToChild x ?t st1) (sent_state jobs D x L' st1 ?t) never w"
      by (rule send_keeps [OF inv1 least])
        (use less t True lenL sorted_inv(2,3) in \<open>auto simp: less_imp_le word_less_def\<close>)
    then have "wp (SendToChild x ?t st1) (psjf_progress jobs D L st) never w"
    proof (rule wp_mono)
      fix st' w' assume "sent_state jobs D x L' st1 ?t st' w'"
      then have "psjf_progress jobs D (x # L') st1 st' w'"
        by (rule preempt_keeps) (use less t True lenL sorted_inv(2,3) in auto)
      then show "psjf_progress jobs D L st st' w'" using lenL sorted_inv(2) by simp
    qed
    then show ?thesis
      using True sorted_inv(2) lenL by (simp add: wp_bind wp_nextBefore [OF q] A)
  next
    case False
    have "wp (SendToChild x ?e st1) (sent_state jobs D x L' st1 ?e) never w"
      by (rule send_keeps [OF inv1 least])
        (use False Te lenL sorted_inv(2,3) in \<open>auto simp: word_less_def\<close>)
    then have "wp (SendToChild x ?e st1) (\<lambda>st'. wp (finishHead x st') (psjf_progress jobs D L st) never) never w"
    proof (rule wp_mono)
      fix st' w' assume s: "sent_state jobs D x L' st1 ?e st' w'"
      have "wp (finishHead x st') (psjf_progress jobs D (x # L') st1) never w'"
        by (rule finish_keeps [OF s]) (use s sorted_inv(2) in \<open>simp_all add: sent_state_def\<close>)
      then show "wp (finishHead x st') (psjf_progress jobs D L st) never w'"
        using lenL sorted_inv(2) by simp
    qed
    moreover have "wp (nextBefore st1 (?T + ?e)) R never w = R None w" for R
      using False A lenL sorted_inv(2) by (subst wp_nextBefore [OF q]) auto
    ultimately show ?thesis by (simp only: wp_bind option.case)
  qed
  show ?thesis
    using run x
    by (simp add: runHead_def wp_bind wp_sortQueue [OF q0 A] st1_def [symmetric] sorted_inv(2-4) wp_at)
qed

lemma forkNext_keeps:
  assumes inv: "psjf_inv jobs D L st w" and A: "length D + length L < length (Raw st)"
    "ReadyTime (Raw st ! (length D + length L)) = TimeCounter st"
  shows "wp (forkNext st (length D + length L) (Raw st ! (length D + length L)))
    (\<lambda>st' w'. psjf_inv jobs D (L @ [length D + length L]) st' w' \<and> length (Raw st') = length (Raw st)) never w"
proof -
  let ?A = "length D + length L"
  have core: "psjf_core jobs ?A st w" and q: "psjf_queue D L st (trace w)"
    and live: "\<And>i. i \<in> set L \<Longrightarrow> live st (trace w) i" using inv by (simp_all add: psjf_inv_def)
  note C = psjf_coreD [OF core]
  define p where "p = fork_ret (sys w) (trace w)"
  have p: "0 < p" "p \<le> INT_MAX" using os_ok_fork [OF C(1)] by (simp_all add: p_def)
  define st' where "st' = st\<lparr>Raw := (Raw st)[?A := (Raw st ! ?A)\<lparr>Pid := Some p\<rparr>],
      UnReadyCount := UnReadyCount st - 1,
      ReadyQueue := (ReadyQueue st)\<lparr>ElementCount := ElementCount (ReadyQueue st) + 1\<rparr>\<rparr>"
  have same: "ExecTime (Raw st' ! i) = ExecTime (Raw st ! i)" "Pipefd (Raw st' ! i) = Pipefd (Raw st ! i)"
    "Recorded (Raw st' ! i) = Recorded (Raw st ! i)" for i
    using A by (cases "i = ?A"; simp add: st'_def)+
  have "psjf_core jobs (?A + 1) st' (log_event (Ev_Fork p) w)"
    by (rule core_fork [OF core A p]) (simp_all add: st'_def)
  moreover have "psjf_queue D (L @ [?A]) st' (trace w @ [Ev_Fork p])"
    by (rule queue_admit [OF q A(1) same(1,2)]) (simp_all add: st'_def)
  moreover have "live st' (trace w @ [Ev_Fork p]) i" if "i \<in> set (L @ [?A])" for i
    using that live C(8) [OF A(1)] by (auto simp: live_def same rslot_def)
  ultimately have "psjf_inv jobs D (L @ [?A]) st' (log_event (Ev_Fork p) w)"
    by (simp add: psjf_inv_def)
  moreover have "length (Raw st') = length (Raw st)" by (simp add: st'_def)
  ultimately show ?thesis
    using p by (simp add: forkNext_def wp_rules p_def [symmetric] st'_def [symmetric])
qed

lemma idle_step:
  assumes inv: "psjf_inv jobs D [] st w" and A: "length D < length (Raw st)" "TimeCounter st < ReadyTime (Raw st ! length D)"
  shows "psjf_inv jobs D [] (st\<lparr>TimeCounter := TimeCounter st + 1\<rparr>) (log_event Ev_Spin w)"
proof -
  have core: "psjf_core jobs (length D) st w" and q: "psjf_queue D [] st (trace w)"
    using inv by (simp_all add: psjf_inv_def)
  note C = psjf_coreD [OF core]
  have bound: "uint (TimeCounter st) + 1 + left_sum (Raw st) \<le> INT_MAX"
    using psjf_ready_bound [OF core A(1)] A(2) by (simp add: word_less_def)
  then have T': "uint (TimeCounter st + 1) = uint (TimeCounter st) + 1"
    using uint_add_small [of "TimeCounter st" 1] left_sum_member(2) [of "Raw st"] by simp
  have "finished (trace w) j" if j: "j \<in> set jobs" "arrived (trace w) j" for j
  proof -
    obtain i where i: "i < length (Raw st)" "rjob (trace w) (Raw st ! i) = j"
      using psjf_job_index [OF core j(1)] by blast
    have "i < length D" using core_arrived_index [OF core A(2) i(1)] j(2) i(2) by simp
    then have "i \<in> set D" using psjf_queueD(7) [OF q] by auto
    then show ?thesis using psjf_queueD(8) [OF q, of i] i(2) by (auto simp: finished_def)
  qed
  then have ob: "obeys srtf jobs (trace w) Ev_Spin" by simp
  have "rslot (length D) (elapsed (trace w) + 1) (trace w) i (Raw st ! i)" if i: "i < length (Raw st)" for i
  proof -
    have "length D \<le> i \<Longrightarrow> elapsed (trace w) + 1 \<le> uint (ReadyTime (Raw st ! i))"
      using psjf_ready_mono [OF core _ i, of "length D"] A(2) C(6) by (force simp: word_less_def word_le_def)
    then show ?thesis using C(8) [OF i] by (auto simp: rslot_def)
  qed
  moreover have "rjob (trace w @ [Ev_Spin]) = rjob (trace w)" by (rule ext) (simp add: rjob_def)
  ultimately have "psjf_core jobs (length D) (st\<lparr>TimeCounter := TimeCounter st + 1\<rparr>) (log_event Ev_Spin w)"
    using C(1-7,9-12) ob bound by (simp add: psjf_core_def T' admits_def rslot_same)
  moreover have "psjf_queue D [] (st\<lparr>TimeCounter := TimeCounter st + 1\<rparr>) (trace w @ [Ev_Spin])"
    by (rule queue_update [OF q]) (use C(4) in simp_all)
  ultimately show ?thesis by (simp add: psjf_inv_def)
qed

lemma idle_keeps:
  assumes inv: "psjf_inv jobs D [] st w" and A: "length D < length (Raw st)" "TimeCounter st < ReadyTime (Raw st ! length D)"
  defines "n \<equiv> ReadyTime (Raw st ! length D) - TimeCounter st"
  shows "wp (WaitForNextProcess n) (\<lambda>_ w'. psjf_inv jobs D [] (st\<lparr>TimeCounter := TimeCounter st + n\<rparr>) w') never w"
proof -
  have core: "psjf_core jobs (length D) st w" using inv by (simp add: psjf_inv_def)
  have un: "uint n = uint (ReadyTime (Raw st ! length D)) - uint (TimeCounter st)"
    using A(2) by (simp add: n_def uint_sub_le less_imp_le)
  have "uint (ReadyTime (Raw st ! length D)) \<le> INT_MAX"
    using psjf_ready_bound [OF core A(1)] left_sum_member(2) [of "Raw st"] by linarith
  then have small: "uint n \<le> INT_MAX" using un uint_nonnegative [of "TimeCounter st"] by linarith
  have add_nat: "uint (TimeCounter st + of_nat k) = uint (TimeCounter st) + int k" if "k \<le> nat (uint n)" for k
  proof -
    have k: "int k \<le> uint n" using of_nat_mono [OF that, where ?'a = int] by simp
    then have "k < 2 ^ 32" using small by simp
    then have "uint (of_nat k :: 32 word) = int k" by (simp add: unsigned_of_nat take_bit_nat_eq_self)
    then show ?thesis
      using uint_add_small [of "TimeCounter st" "of_nat k"] k un \<open>uint (ReadyTime _) \<le> INT_MAX\<close> by simp
  qed
  have "wp (forM [0..<nat (uint n)] (\<lambda>_ _. spin) ())
      (\<lambda>_ w'. psjf_inv jobs D [] (st\<lparr>TimeCounter := TimeCounter st + n\<rparr>) w') never w"
  proof (rule wp_forM [where I = "\<lambda>k _ w'. psjf_inv jobs D [] (st\<lparr>TimeCounter := TimeCounter st + of_nat k\<rparr>) w'"])
    show "psjf_inv jobs D [] (st\<lparr>TimeCounter := TimeCounter st + of_nat 0\<rparr>) w" using inv by simp
  next
    fix k u w' assume k: "k < length [0..<nat (uint n)]"
      and I: "psjf_inv jobs D [] (st\<lparr>TimeCounter := TimeCounter st + of_nat k\<rparr>) w'"
    have "TimeCounter st + of_nat k < ReadyTime (Raw st ! length D)"
      using k add_nat [of k] un by (simp add: word_less_def)
    then show "wp spin (\<lambda>_ w'. psjf_inv jobs D [] (st\<lparr>TimeCounter := TimeCounter st + of_nat (Suc k)\<rparr>) w') never w'"
      using idle_step [OF I] A(1) by (simp add: wp_rules add.assoc add.commute [of 1])
  qed simp
  then show ?thesis by (simp add: WaitForNextProcess_def sint_small [OF small])
qed

definition psjf_rank :: "psjf_state \<Rightarrow> nat" where
  "psjf_rank st = 2 * nat (int (length (Raw st)) - FinishedCount st) + 2 * nat (UnReadyCount st) +
     (if 0 < UnReadyCount st \<and> ReadyTime (Raw st ! nat (int (length (Raw st)) - UnReadyCount st)) = TimeCounter st
      then 0 else 1)"

lemma psjf_rank_inv:
  assumes "psjf_inv jobs D L st w"
  shows "psjf_rank st = 2 * (length (Raw st) - length D) + 2 * (length (Raw st) - (length D + length L)) +
    (if length D + length L < length (Raw st) \<and> ReadyTime (Raw st ! (length D + length L)) = TimeCounter st then 0 else 1)"
  using assms psjf_queueD(4,5) [of D L st "trace w"] psjf_coreD(4) [of jobs "length D + length L" st w]
  by (auto simp: psjf_rank_def psjf_inv_def nat_diff_distrib nat_int_add)

definition psjf_good :: "job list \<Rightarrow> nat \<Rightarrow> psjf_state \<Rightarrow> process \<Rightarrow> bool" where
  "psjf_good jobs N st w = (length (Raw st) = N \<and> (\<exists>D L. psjf_inv jobs D L st w))"

lemma runHead_progress:
  assumes inv: "psjf_inv jobs D L st w" and L: "L \<noteq> []" and N: "length (Raw st) = N"
  shows "wp (runHead st) (\<lambda>st' w'. psjf_good jobs N st' w' \<and>
    psjf_rank st' < 2 * (N - length D) + 2 * (N - (length D + length L)) + 1) never w"
proof (rule wp_mono [OF runHead_keeps [OF inv L]])
  fix st' w' assume "psjf_progress jobs D L st st' w'"
  then obtain D' L' where new: "psjf_inv jobs D' L' st' w'" "length (Raw st') = N" "length D' + length L' = length D + length L"
    "length D' = length D + 1 \<or> length D' = length D \<and> length D + length L < N \<and>
        TimeCounter st' = ReadyTime (Raw st' ! (length D + length L))"
    using N by auto
  have "length D + length L \<le> N" using inv N psjf_coreD(4) by (auto simp: psjf_inv_def)
  then have "length D < N" using L by (cases L) auto
  then have "psjf_rank st' < 2 * (N - length D) + 2 * (N - (length D + length L)) + 1"
    using new(2-4) unfolding psjf_rank_inv [OF new(1)] by auto
  with new(1,2) show "psjf_good jobs N st' w' \<and>
    psjf_rank st' < 2 * (N - length D) + 2 * (N - (length D + length L)) + 1"
    by (auto simp: psjf_good_def)
qed simp

lemma PSJF_round_keeps:
  assumes good: "psjf_good jobs N st w" and F: "FinishedCount st < int N"
  shows "wp (PSJF_round st) (\<lambda>st' w'. psjf_good jobs N st' w' \<and> psjf_rank st' < psjf_rank st) never w"
proof -
  obtain D L where inv: "psjf_inv jobs D L st w" and N: "length (Raw st) = N"
    using good by (auto simp: psjf_good_def)
  let ?A = "length D + length L"
  have core: "psjf_core jobs ?A st w" and q: "psjf_queue D L st (trace w)" using inv by (simp_all add: psjf_inv_def)
  have A: "?A \<le> N" "length D < N" using psjf_coreD(4) [OF core] N F psjf_queueD(4) [OF q] by simp_all
  note rank = psjf_rank_inv [OF inv, unfolded N]
  consider (all) "?A = N" | (fork) "?A < N" "ReadyTime (Raw st ! ?A) = TimeCounter st"
    | (idle) "?A < N" "ReadyTime (Raw st ! ?A) \<noteq> TimeCounter st" "L = []"
    | (run) "?A < N" "ReadyTime (Raw st ! ?A) \<noteq> TimeCounter st" "L \<noteq> []" using A by fastforce
  then show ?thesis
  proof cases
    case all
    then have "UnReadyCount st = 0" "L \<noteq> []" using psjf_queueD(5) [OF q] A N by auto
    then show ?thesis
      using runHead_progress [OF inv _ N] all by (simp add: PSJF_round_def rank)
  next
    case fork
    have U: "UnReadyCount st \<noteq> 0" using psjf_queueD(5) [OF q] fork N by simp
    have "wp (forkNext st ?A (Raw st ! ?A)) (\<lambda>st'. wp (runHead st')
        (\<lambda>st' w'. psjf_good jobs N st' w' \<and> psjf_rank st' < psjf_rank st) never) never w"
    proof (rule wp_mono [OF forkNext_keeps [OF inv fork(1) [folded N] fork(2)]])
      fix st' w' assume "psjf_inv jobs D (L @ [?A]) st' w' \<and> length (Raw st') = length (Raw st)"
      then have new: "psjf_inv jobs D (L @ [?A]) st' w'" "length (Raw st') = N" using N by simp_all
      show "wp (runHead st') (\<lambda>st' w'. psjf_good jobs N st' w' \<and> psjf_rank st' < psjf_rank st) never w'"
        using runHead_progress [OF new(1) _ new(2)] fork by (auto simp: rank elim: wp_mono)
    qed simp
    then show ?thesis
      using U fork N wp_NextDataIn [OF q] by (simp add: PSJF_round_def wp_rules)
  next
    case idle
    have U: "UnReadyCount st \<noteq> 0" "ElementCount (ReadyQueue st) = 0"
      using psjf_queueD(3,5) [OF q] idle N by simp_all
    have "elapsed (trace w) \<le> uint (ReadyTime (Raw st ! ?A))"
      using psjf_coreD(8) [OF core] idle(1) N by (simp add: rslot_def)
    then have "TimeCounter st < ReadyTime (Raw st ! length D)"
      using psjf_coreD(6) [OF core] idle(2,3) by (simp add: word_le_def order.strict_iff_order)
    from idle_keeps [OF inv [unfolded idle(3)] _ this]
    show ?thesis
      using U idle N wp_NextDataIn [OF q]
      by (auto simp: PSJF_round_def wp_rules Let_def rank psjf_good_def psjf_rank_inv elim!: wp_mono) blast
  next
    case run
    have U: "UnReadyCount st \<noteq> 0" "ElementCount (ReadyQueue st) \<noteq> 0"
      using psjf_queueD(3,5) [OF q] run N by simp_all
    then show ?thesis
      using runHead_progress [OF inv run(3) N] run N wp_NextDataIn [OF q]
      by (simp add: PSJF_round_def wp_rules rank)
  qed
qed

lemma PSJF_loop:
  assumes "psjf_good jobs N st w"
  shows "wp (whileM (\<lambda>st. FinishedCount st < int N) PSJF_round st)
    (\<lambda>st' w'. \<exists>D. psjf_inv jobs D [] st' w' \<and> length D = N \<and> length (Raw st') = N) never w"
proof (rule wp_whileM [where I = "psjf_good jobs N" and \<mu> = "\<lambda>st w. psjf_rank st"])
  show "psjf_good jobs N st w" by (rule assms)
next
  fix st w assume "psjf_good jobs N st w" "FinishedCount st < int N"
  then show "wp (PSJF_round st) (\<lambda>st' w'. psjf_good jobs N st' w' \<and> psjf_rank st' < psjf_rank st) never w"
    by (rule PSJF_round_keeps)
next
  fix st' w' assume good: "psjf_good jobs N st' w'" and stop: "\<not> FinishedCount st' < int N"
  obtain D L where inv: "psjf_inv jobs D L st' w'" and N: "length (Raw st') = N"
    using good by (auto simp: psjf_good_def)
  then have "length D + length L \<le> N" "N \<le> length D"
    using stop psjf_coreD(4) psjf_queueD(4) by (auto simp: psjf_inv_def)
  then have "L = []" "length D = N" by (cases L; simp)+
  with inv N show "\<exists>D. psjf_inv jobs D [] st' w' \<and> length D = N \<and> length (Raw st') = N" by blast
qed

section \<open>From the input to the main loop\<close>

definition rentry_ok :: "string \<times> int \<times> int \<Rightarrow> int \<times> int \<Rightarrow> raw_input \<Rightarrow> bool" where
  "rentry_ok = (\<lambda>(n, r, e) p d. Name d = n \<and> uint (ReadyTime d) = r \<and> uint (ExecTime d) = e \<and>
     Pipefd d = p \<and> Recorded d = 0)"

definition raw_reading :: "os \<Rightarrow> workload \<Rightarrow> nat \<Rightarrow> raw_input list \<Rightarrow> process \<Rightarrow> bool" where
  "raw_reading os ws k raw w = (sys w = os \<and> length raw = length ws \<and> reads_jobs (stdin w) (drop k ws) \<and>
     list_all preparing (trace w) \<and> pipes_distinct (trace w) \<and> length (pipes (trace w)) = k \<and>
     (\<forall>i < k. rentry_ok (ws ! i) (pipes (trace w) ! i) (raw ! i)))"

lemma uint_of_int: "0 \<le> v \<Longrightarrow> v \<le> INT_MAX \<Longrightarrow> uint (word_of_int v :: 32 word) = v"
  by (simp add: uint_word_of_int)

lemma readRaw_reads:
  assumes r: "raw_reading os ws k raw w" and k: "k < length ws" and os: "os_ok os" and ws: "fits 32 ws"
  shows "wp (readRaw k raw) (raw_reading os ws (Suc k)) never w"
proof -
  obtain n r e where line: "ws ! k = (n, r, e)" by (cases "ws ! k")
  then have mem: "(n, r, e) \<in> set ws" using k nth_mem by metis
  have "drop k ws = (n, r, e) # drop (Suc k) ws" using k line by (simp add: Cons_nth_drop_Suc [symmetric])
  then obtain s1 s2 s3 where scan: "scan_s (stdin w) = Some (n, s1)" "scan_d s1 = Scan_Int r s2"
      "scan_d s2 = Scan_Int e s3" "reads_jobs s3 (drop (Suc k) ws)"
    using assms(1) by (auto simp: raw_reading_def reads_jobs_Cons)
  obtain a b where p: "pipe_fds (sys w) (trace w) = Some (a, b)" "a \<notin> open_fds (trace w)" "b \<notin> open_fds (trace w)"
    using os_ok_pipe [OF os, of "trace w"] r by (auto simp: raw_reading_def)
  then have "a \<notin> fst ` set (pipes (trace w))" "b \<notin> snd ` set (pipes (trace w))"
    using preparing_trace(7) [of "trace w"] r by (auto simp: raw_reading_def)
  then show ?thesis
    using r k fitsD [OF ws mem] line scan p
    by (auto simp: readRaw_def wp_rules wp_scanf_s wp_scanf_d raw_reading_def pipes_distinct_def rentry_ok_def
        nth_append less_Suc_eq nth_list_update uint_of_int simp del: append_assoc)
qed

lemma raw_jobs:
  assumes "raw_reading os ws (length ws) raw w"
  shows "map (rjob (trace w)) raw = jobs_of ws (trace w)"
  using assms preparing_trace(4) [of "trace w"]
  by (auto simp: raw_reading_def rentry_ok_def jobs_of_def rjob_def list_all_iff
      intro!: nth_equalityI split: prod.splits)

lemma preparing_forks: "list_all preparing h \<Longrightarrow> forks h = 0 \<and> every (admits jobs) h"
proof (induction h rule: rev_induct)
  case (snoc e h)
  then show ?case by (cases e) (auto simp: admits_def)
qed simp

lemma PSJF_start_good:
  assumes r: "raw_reading os ws (length ws) raw w" and os: "os_ok os" and ws: "fits 32 ws"
  shows "psjf_good (jobs_of ws (trace w)) (length ws) (PSJF_start raw) w"
proof -
  let ?jobs = "jobs_of ws (trace w)" and ?raw = "qsort CompareByReadyTime raw"
  have prep: "list_all preparing (trace w)" and len: "length (pipes (trace w)) = length ws" "length raw = length ws"
    and dist: "pipes_distinct (trace w)" using r by (simp_all add: raw_reading_def)
  note quiet = preparing_trace [OF prep]
  have jobs: "map (rjob (trace w)) raw = ?jobs" by (rule raw_jobs [OF r])
  have ok: "workload_ok ?jobs" using workload_ok_jobs_of [OF ws dist len(1)] .
  have recorded0: "Recorded d = 0" if d: "d \<in> set raw" for d
  proof -
    obtain i where i: "i < length ws" "raw ! i = d" using d unfolding in_set_conv_nth len(2) by blast
    have "\<forall>i < length ws. rentry_ok (ws ! i) (pipes (trace w) ! i) (raw ! i)"
      using r unfolding raw_reading_def by (elim conjE)
    then have "rentry_ok (ws ! i) (pipes (trace w) ! i) d" using i by blast
    then show ?thesis by (cases "ws ! i") (simp add: rentry_ok_def)
  qed
  have sum: "left_sum raw \<le> INT_MAX"
  proof (cases "ws = []")
    case True
    then show ?thesis using len by simp
  next
    case False
    then have "?jobs \<noteq> []" using jobs_of_maps(5) [OF len(1)] by auto
    then obtain j where j: "j \<in> set ?jobs" by (cases ?jobs) auto
    have "map jexec ?jobs = map (\<lambda>r. uint (ExecTime r)) raw"
      using quiet(4) unfolding jobs [symmetric] by simp
    then show ?thesis using workload_okD(1,3) [OF ok j] by simp
  qed
  have "mset (map (\<lambda>r. uint (ExecTime r)) ?raw) = mset (map (\<lambda>r. uint (ExecTime r)) raw)" by simp
  then have "left_sum ?raw = left_sum raw" by (simp only: sum_mset_sum_list [symmetric])
  moreover have "sorted (map ReadyTime ?raw)"
    using libc.orders [OF cmp_ready_key, of raw] by (auto simp: sorted_iff_nth_mono word_le_def)
  moreover have "rslot 0 0 (trace w) i (?raw ! i)" if "i < length raw" for i
  proof -
    have "?raw ! i \<in> set raw" using that by (metis libc.srt_length libc.srt_set nth_mem)
    then show ?thesis using recorded0 quiet(3) by (simp add: rslot_def)
  qed
  moreover have "mset (map (rjob (trace w)) ?raw) = mset ?jobs" unfolding jobs [symmetric] by simp
  moreover have "Raw (PSJF_start raw) = ?raw" "uint (TimeCounter (PSJF_start raw)) = 0" "os_ok (sys w)"
    using r os by (simp_all add: PSJF_start_def Let_def raw_reading_def)
  ultimately have "psjf_core ?jobs 0 (PSJF_start raw) w"
    unfolding psjf_core_def
    using ok sum quiet(1) quiet(6) [of srtf ?jobs] preparing_forks [OF prep, of ?jobs] jobs_of_maps(4) [OF len(1)]
    by (simp only: libc.srt_length) simp
  moreover have "psjf_queue [] [] (PSJF_start raw) (trace w)"
    using quiet(5) preparing_printed [OF prep] by (simp add: psjf_queue_def PSJF_start_def Let_def qsort_facts)
  ultimately have "psjf_inv ?jobs [] [] (PSJF_start raw) w" by (simp add: psjf_inv_def)
  then show ?thesis
    using len by (auto simp: psjf_good_def PSJF_start_def Let_def qsort_facts)
qed

lemma PSJF_run:
  assumes os: "os_ok (sys w)" and start: "trace w = []" and input: "reads_workload (stdin w) ws" and ws: "fits 32 ws"
  shows "\<exists>w' st D. PSJF w = Some (Ret 0, w') \<and> psjf_inv (jobs_of ws (trace w')) D [] st w' \<and>
    length D = length ws \<and> length (Raw st) = length ws"
proof -
  obtain r where r: "scan_d (stdin w) = Scan_Int (int (length ws)) r" "reads_jobs r ws"
    using input by (auto simp: reads_workload_iff)
  define w0 where "w0 = w\<lparr>trace := [Ev_Setscheduler 0 98 (setscheduler_ret (sys w) [] 0 98)], stdin := r\<rparr>"
  let ?Q = "\<lambda>a w'. a = (0 :: int) \<and> (\<exists>st D. psjf_inv (jobs_of ws (trace w')) D [] st w' \<and>
    length D = length ws \<and> length (Raw st) = length ws)"
  have "raw_reading (sys w) ws 0 (malloc_raw (length ws)) w0"
    using r by (simp add: raw_reading_def w0_def malloc_raw_def pipes_distinct_def pipes_def)
  then have read: "wp (forM [0..<length ws] readRaw (malloc_raw (length ws))) (raw_reading (sys w) ws (length ws)) never w0"
    by (intro wp_forM [where I = "raw_reading (sys w) ws"]) (use os ws in \<open>auto intro: readRaw_reads\<close>)
  have "wp (bind (forM [0..<length ws] readRaw (malloc_raw (length ws))) (\<lambda>raw.
      bind (whileM (\<lambda>st. FinishedCount st < int (length ws)) PSJF_round (PSJF_start raw)) (\<lambda>st. return 0))) ?Q never w0"
    unfolding wp_bind
  proof (rule wp_mono [OF read])
    fix raw w1 assume raw: "raw_reading (sys w) ws (length ws) raw w1"
    have len: "length (pipes (trace w1)) = length ws" using raw by (simp add: raw_reading_def)
    show "wp (whileM (\<lambda>st. FinishedCount st < int (length ws)) PSJF_round (PSJF_start raw))
      (\<lambda>a. wp (return 0) ?Q never) never w1"
    proof (rule wp_mono [OF PSJF_loop [OF PSJF_start_good [OF raw os ws]]])
      fix st' w' assume "\<exists>D. psjf_inv (jobs_of ws (trace w1)) D [] st' w' \<and> length D = length ws \<and> length (Raw st') = length ws"
      then obtain D where inv: "psjf_inv (jobs_of ws (trace w1)) D [] st' w'" "length D = length ws" "length (Raw st') = length ws"
        by blast
      then have "pipes (trace w') = pipes (trace w1)"
        using psjf_coreD(12) jobs_of_maps(4) [OF len] by (auto simp: psjf_inv_def)
      then have "jobs_of ws (trace w') = jobs_of ws (trace w1)" by (rule jobs_of_cong)
      then show "wp (return 0) ?Q never w'" using inv by (auto simp: wp_return)
    qed simp
  qed simp
  then have "wp PSJF ?Q never w"
    using r fits_def [of 32 ws] ws start
    by (simp add: PSJF_def ChangePriority_def wp_rules wp_scanf_d [where v = "int (length ws)" and r = r] w0_def)
  then show ?thesis by (auto simp: wp_never_runs)
qed

section \<open>Properties\<close>

lemma psjf_final:
  assumes inv: "psjf_inv jobs D [] st w" and N: "length D = length (Raw st)"
  shows "every (obeys srtf jobs) (trace w)" "workload_ok jobs" "every (admits jobs) (trace w)"
    "\<forall>j \<in> set jobs. finished (trace w) j" "forks (trace w) = length jobs"
    "mset (map fst (completions (trace w))) = mset (map jwr jobs)"
proof -
  have core: "psjf_core jobs (length D) st w" and q: "psjf_queue D [] st (trace w)"
    using inv by (simp_all add: psjf_inv_def)
  note C = psjf_coreD [OF core]
  show "every (obeys srtf jobs) (trace w)" "workload_ok jobs" "every (admits jobs) (trace w)" by (rule C)+
  have len: "length jobs = length (Raw st)" using C(3) by (metis length_map mset_eq_length)
  show "forks (trace w) = length jobs" using C(11) N len by simp
  have D: "set D = {0..<length (Raw st)}" "distinct D" using psjf_queueD(6,7) [OF q] N by simp_all
  show "\<forall>j \<in> set jobs. finished (trace w) j"
  proof
    fix j assume "j \<in> set jobs"
    then obtain i where "i < length (Raw st)" "rjob (trace w) (Raw st ! i) = j" using psjf_job_index [OF core] by blast
    then show "finished (trace w) j" using psjf_queueD(8) [OF q, of i] D(1) by (auto simp: finished_def)
  qed
  have "mset D = mset [0..<length (Raw st)]" using D mset_set_set [of D] by simp
  then have "mset (map (\<lambda>i. jwr (rjob (trace w) (Raw st ! i))) D) =
      mset (map (\<lambda>i. jwr (rjob (trace w) (Raw st ! i))) [0..<length (Raw st)])" by simp
  also have "map (\<lambda>i. jwr (rjob (trace w) (Raw st ! i))) [0..<length (Raw st)] = map jwr (map (rjob (trace w)) (Raw st))"
    by (rule nth_equalityI) simp_all
  also have "mset \<dots> = mset (map jwr jobs)" using C(3) by (metis mset_map)
  finally show "mset (map fst (completions (trace w))) = mset (map jwr jobs)"
    using psjf_queueD(9) [OF q] by simp
qed

text \<open>C4: PSJF returns 0 on every workload that fits the C types; every positive amount of time goes to a
  job with the least remaining time among all that have arrived and are unfinished (shortest remaining time
  first), it idles only when nothing that has arrived is unfinished, and every job gets its
  execution time.\<close>
theorem PSJF_obeys_policy:
  assumes "os_ok (sys w)" "trace w = []" "reads_workload (stdin w) ws" "fits 32 ws"
  shows "\<exists>w'. PSJF w = Some (Ret 0, w') \<and>
    every (obeys srtf (jobs_of ws (trace w'))) (trace w') \<and>
    (\<forall>j \<in> set (jobs_of ws (trace w')). finished (trace w') j)"
proof -
  obtain w' st D where run: "PSJF w = Some (Ret 0, w')" and inv: "psjf_inv (jobs_of ws (trace w')) D [] st w'"
    and N: "length D = length (Raw st)" using PSJF_run [OF assms] by metis
  show ?thesis by (intro exI [of _ w'] conjI run psjf_final [OF inv N])
qed

lemma PSJF_obeys_policy_sample:
  "\<exists>w'. PSJF sample_process = Some (Ret 0, w') \<and>
    every (obeys srtf (jobs_of sample_jobs (trace w'))) (trace w') \<and>
    (\<forall>j \<in> set (jobs_of sample_jobs (trace w')). finished (trace w') j)"
  by (rule PSJF_obeys_policy [OF sample_process_ok])

text \<open>C17: The n-th fork of PSJF happens when exactly the n-th smallest ready time has passed, there are as many
  forks as jobs, each job is waited for exactly once, and whenever PSJF waits, the child that it
  wrote to last exits with 0.\<close>
theorem PSJF_forks_and_waits:
  assumes "os_ok (sys w)" "trace w = []" "reads_workload (stdin w) ws" "fits 32 ws"
  shows "\<exists>w'. PSJF w = Some (Ret 0, w') \<and>
    every (admits (jobs_of ws (trace w'))) (trace w') \<and> forks (trace w') = length (jobs_of ws (trace w')) \<and>
    mset (map fst (completions (trace w'))) = mset (map jwr (jobs_of ws (trace w'))) \<and>
    every (\<lambda>h e. is_wait e \<longrightarrow> (\<exists>j \<in> set (jobs_of ws (trace w')). jwr j = last_fd h \<and> child_exits j h)) (trace w')"
proof -
  obtain w' st D where run: "PSJF w = Some (Ret 0, w')" and inv: "psjf_inv (jobs_of ws (trace w')) D [] st w'"
    and N: "length D = length (Raw st)" using PSJF_run [OF assms] by metis
  show ?thesis
    by (intro exI [of _ w'] conjI run psjf_final [OF inv N]
        obeys_children_exit [OF psjf_final(2) [OF inv N] psjf_final(1) [OF inv N]])
qed

lemma PSJF_forks_and_waits_sample:
  "\<exists>w'. PSJF sample_process = Some (Ret 0, w') \<and>
    every (admits (jobs_of sample_jobs (trace w'))) (trace w') \<and>
    forks (trace w') = length (jobs_of sample_jobs (trace w')) \<and>
    mset (map fst (completions (trace w'))) = mset (map jwr (jobs_of sample_jobs (trace w'))) \<and>
    every (\<lambda>h e. is_wait e \<longrightarrow>
      (\<exists>j \<in> set (jobs_of sample_jobs (trace w')). jwr j = last_fd h \<and> child_exits j h)) (trace w')"
  by (rule PSJF_forks_and_waits [OF sample_process_ok])

text \<open>The job that ends as the \<open>k\<close>-th was forked as the \<open>D ! k\<close>-th; its line is the \<open>k\<close>-th one.\<close>

lemma psjf_lines:
  assumes inv: "psjf_inv jobs D [] st w" and N: "length D = length (Raw st)"
  shows "\<exists>js. mset js = mset jobs \<and> sorted (map jready js) \<and> mset D = mset [0..<length js] \<and>
    map fst (completions (trace w)) = map (\<lambda>i. jwr (js ! i)) D \<and>
    list_all2 (\<lambda>i. line_of_nth (trace w) i (jwr (js ! i))) D (printed (trace w))"
proof -
  have core: "psjf_core jobs (length D) st w" and q: "psjf_queue D [] st (trace w)"
    using inv by (simp_all add: psjf_inv_def)
  note C = psjf_coreD [OF core]
  let ?js = "map (rjob (trace w)) (Raw st)"
  have D: "set D = {0..<length (Raw st)}" "distinct D" using psjf_queueD(6,7) [OF q] N by simp_all
  have fd: "jwr (?js ! i) = snd (Pipefd (Raw st ! i))" if "i \<in> set D" for i using that D(1) by simp
  have "list_all2 (\<lambda>i. line_of_nth (trace w) i (jwr (?js ! i))) D (printed (trace w))"
    by (rule list.rel_mono_strong [OF psjf_queueD(10) [OF q]]) (simp only: fd)
  moreover have "sorted (map jready ?js)"
    using C(5) by (auto simp: sorted_iff_nth_mono word_le_def)
  moreover have "mset D = mset [0..<length ?js]" using D mset_set_set [of D] by simp
  moreover have "map fst (completions (trace w)) = map (\<lambda>i. jwr (?js ! i)) D"
    unfolding psjf_queueD(9) [OF q] using fd by (intro map_cong) simp_all
  ultimately show ?thesis using C(3) by blast
qed

text \<open>C12: PSJF prints one line per job, in the order in which the jobs end, one for each wait. With the jobs in
  the order of their ready times, the line of the i-th one has the process id of the i-th fork, the
  time read just before the first write to the job's pipe (which may be a write of the amount 0) and the
  time read right after the wait for it.\<close>
theorem PSJF_prints:
  assumes "os_ok (sys w)" "trace w = []" "reads_workload (stdin w) ws" "fits 32 ws"
  shows "\<exists>w' js D. PSJF w = Some (Ret 0, w') \<and> mset js = mset (jobs_of ws (trace w')) \<and>
    sorted (map jready js) \<and> mset D = mset [0..<length js] \<and>
    map fst (completions (trace w')) = map (\<lambda>i. jwr (js ! i)) D \<and>
    list_all2 (\<lambda>i. line_of_nth (trace w') i (jwr (js ! i))) D (printed (trace w'))"
proof -
  obtain w' st D where run: "PSJF w = Some (Ret 0, w')" and inv: "psjf_inv (jobs_of ws (trace w')) D [] st w'"
    and N: "length D = length (Raw st)" using PSJF_run [OF assms] by metis
  show ?thesis using run psjf_lines [OF inv N] by blast
qed

lemma PSJF_prints_sample:
  "\<exists>w' js D. PSJF sample_process = Some (Ret 0, w') \<and> mset js = mset (jobs_of sample_jobs (trace w')) \<and>
    sorted (map jready js) \<and> mset D = mset [0..<length js] \<and>
    map fst (completions (trace w')) = map (\<lambda>i. jwr (js ! i)) D \<and>
    list_all2 (\<lambda>i. line_of_nth (trace w') i (jwr (js ! i))) D (printed (trace w'))"
  by (rule PSJF_prints [OF sample_process_ok])

text \<open>A ready queue whose head has to make room for a job that is ready now is sent the amount 0, and that
  records the start of a job that does not run: its printed start time is too early.\<close>
theorem PSJF_records_early_start:
  assumes "os_ok (sys w)" "x < length (Raw st)" "Pid (Raw st ! x) = Some p" "Recorded (Raw st ! x) = 0"
  shows "\<exists>st' w'. SendToChild x 0 st w = Some (Ret st', w') \<and>
    Time0 (Raw st' ! x) = Some (clock_now (sys w) (trace w)) \<and> ExecTime (Raw st' ! x) = ExecTime (Raw st ! x) \<and>
    TimeCounter st' = TimeCounter st \<and> elapsed (trace w') = elapsed (trace w)"
proof -
  have "wp (SendToChild x 0 st) (\<lambda>st' w'. Time0 (Raw st' ! x) = Some (clock_now (sys w) (trace w)) \<and>
      ExecTime (Raw st' ! x) = ExecTime (Raw st ! x) \<and> TimeCounter st' = TimeCounter st \<and>
      elapsed (trace w') = elapsed (trace w)) never w"
    using assms by (simp add: wp_SendToChild start_recorded_def start_logged_def elapsed_def)
  then show ?thesis by (auto simp: wp_never_runs)
qed

definition sample_waiting :: psjf_state where
  "sample_waiting = \<lparr>Raw = [\<lparr>Name = ''P1'', ReadyTime = 0, ExecTime = 5, Recorded = 0, Time0 = None,
       Time1 = None, Pipefd = (3, 4), Pid = Some 1000\<rparr>],
     ReadyQueue = \<lparr>Data = [0], Head = 0, ElementCount = 1\<rparr>, TimeCounter = 0, UnReadyCount = 0,
     FinishedCount = 0\<rparr>"

theorem PSJF_records_early_start_sample:
  "\<exists>st' w'. SendToChild 0 0 sample_waiting sample_process = Some (Ret st', w') \<and>
    Time0 (Raw st' ! 0) = Some (clock_now (sys sample_process) (trace sample_process)) \<and>
    ExecTime (Raw st' ! 0) = 5"
  using PSJF_records_early_start [OF sample_process_ok(1), of 0 sample_waiting 1000]
  by (auto simp: sample_waiting_def)

end
