(* ===== verification/Rr_Code.thy ===== *)
theory Rr_Code
  imports Print_Time
begin

text \<open>
  \<open>prj1/rr.c\<close>, function by function: round robin with a quantum of 500 units. The ready list is a
  circular doubly linked list on the heap, here a map from addresses to nodes; \<open>malloc\<close> returns an
  address never used before, \<open>free\<close> removes the node, and following a pointer to memory that is not
  allocated is \<open>Null_Dereference\<close>. \<open>process\<close> pointers are indices into \<open>p_arr\<close>. The pipe of a job
  is made when it is forked. Fields that are read before they are written are \<open>None\<close>.
\<close>

definition TIME_QUANTUM :: int where
  "TIME_QUANTUM = 500"

definition STR_SIZE :: nat where
  "STR_SIZE = 50"

record p_struct =
  p_name :: string
  r_time :: int
  e_time :: int
  ts0 :: "timespec option"
  ts1 :: "timespec option"
  p_pid :: "int option"
  remain_time :: int
  p_fd :: "int option"

record ready_list =
  node_process :: nat
  node_next :: nat
  node_last :: nat

record heap =
  nodes :: "nat \<Rightarrow> ready_list option"
  unused :: nat

section \<open>The ready list\<close>

definition load :: "heap \<Rightarrow> nat \<Rightarrow> ('w, ready_list) prog" where
  "load H a = (case nodes H a of None \<Rightarrow> undef Null_Dereference | Some n \<Rightarrow> return n)"

definition set_next :: "heap \<Rightarrow> nat \<Rightarrow> nat \<Rightarrow> ('w, heap) prog" where
  "set_next H a b = bind (load H a) (\<lambda>n. return (H\<lparr>nodes := (nodes H)(a \<mapsto> n\<lparr>node_next := b\<rparr>)\<rparr>))"

definition set_last :: "heap \<Rightarrow> nat \<Rightarrow> nat \<Rightarrow> ('w, heap) prog" where
  "set_last H a b = bind (load H a) (\<lambda>n. return (H\<lparr>nodes := (nodes H)(a \<mapsto> n\<lparr>node_last := b\<rparr>)\<rparr>))"

text \<open>A new node points to itself until its links are set; both branches of \<open>add_list\<close> set them.\<close>

definition malloc_node :: "nat \<Rightarrow> heap \<Rightarrow> nat \<times> heap" where
  "malloc_node p H = (unused H,
     H\<lparr>nodes := (nodes H)(unused H \<mapsto> \<lparr>node_process = p, node_next = unused H, node_last = unused H\<rparr>),
       unused := unused H + 1\<rparr>)"

definition free_node :: "nat \<Rightarrow> heap \<Rightarrow> heap" where
  "free_node a H = H\<lparr>nodes := (nodes H)(a := None)\<rparr>"

definition add_list :: "nat option \<Rightarrow> nat \<Rightarrow> heap \<Rightarrow> ('w, nat option \<times> heap) prog" where
  "add_list job p H =
     (let (new_job, H) = malloc_node p H in
      case job of
        None \<Rightarrow>
          bind (set_next H new_job new_job) (\<lambda>H.
          bind (set_last H new_job new_job) (\<lambda>H.
          return (Some new_job, H)))
      | Some job \<Rightarrow>
          bind (set_next H new_job job) (\<lambda>H.
          bind (load H job) (\<lambda>j.
          bind (set_last H new_job (node_last j)) (\<lambda>H.
          bind (load H job) (\<lambda>j.
          bind (set_next H (node_last j) new_job) (\<lambda>H.
          bind (set_last H job new_job) (\<lambda>H.
          return (Some job, H))))))))"

definition remove_list :: "nat \<Rightarrow> heap \<Rightarrow> ('w, nat option \<times> heap) prog" where
  "remove_list job H =
     bind (load H job) (\<lambda>j.
     if node_next j = job then return (None, free_node job H)
     else
       bind (set_last H (node_next j) (node_last j)) (\<lambda>H.
       bind (load H job) (\<lambda>j.
       bind (set_next H (node_last j) (node_next j)) (\<lambda>H.
       bind (load H job) (\<lambda>j.
       return (Some (node_next j), free_node job H))))))"

section \<open>Jobs\<close>

definition rr_cmp :: "p_struct \<Rightarrow> p_struct \<Rightarrow> int" where
  "rr_cmp pa pb = (if r_time pa < r_time pb then -1 else if r_time pa > r_time pb then 1 else 0)"

definition rr_min :: "int \<Rightarrow> int \<Rightarrow> int" where
  "rr_min a b = (if a < b then a else b)"

definition fork_child :: "nat \<Rightarrow> p_struct list \<Rightarrow> (process, p_struct list) prog" where
  "fork_child i p_arr =
     bind (at p_arr i) (\<lambda>p.
     bind sys_pipe (\<lambda>fds.
     andThen (set_cloexec (fst fds))
     (andThen (set_cloexec (snd fds))
     (bind sys_fork (\<lambda>child.
      if child < 0 then andThen (eprint (''fork error'' @ newline)) (exit_with 1)
      else if child = 0 then
        andThen (sys_dup2 (fst fds) 0)
        (bind (sprintf STR_SIZE (show_int (e_time p))) (\<lambda>arg.
         bind (sys_execl ''./child'' [''child'', p_name p, arg]) (\<lambda>_.
         andThen (eprint (''exec error'' @ newline)) (exit_with 2))))
      else
        andThen (sys_close (fst fds))
        (return (p_arr[i := p\<lparr>p_pid := Some child, p_fd := Some (snd fds)\<rparr>])))))))"

definition wait_for_job :: "int \<Rightarrow> (process, int) prog" where
  "wait_for_job time = whileM (\<lambda>time. 0 < time) (\<lambda>time. andThen spin (sub_i time 1)) time"

definition run_job :: "nat \<Rightarrow> int \<Rightarrow> p_struct list \<Rightarrow> (process, p_struct list) prog" where
  "run_job i time p_arr =
     (if time \<le> 0 then return p_arr
      else
        bind (at p_arr i) (\<lambda>p.
        bind (if remain_time p = e_time p
              then bind sys_gettime (\<lambda>t. return (p\<lparr>ts0 := Some t\<rparr>)) else return p) (\<lambda>p.
        bind (sprintf STR_SIZE (pad_blank 12 (show_int time) @ '' '')) (\<lambda>str.
        case p_fd p of None \<Rightarrow> undef Uninitialised | Some f \<Rightarrow>
        andThen (sys_write f (take 13 str))
        (case p_pid p of None \<Rightarrow> undef Uninitialised | Some c \<Rightarrow>
         bind (sys_setscheduler c 99) (\<lambda>r.
         if r < 0 then andThen (eprint (''set sched err'' @ newline)) (exit_with 3)
         else return (p_arr[i := p])))))))"

section \<open>The scheduler\<close>

record rr_state =
  p_arr :: "p_struct list"
  finish :: int
  next_job :: nat
  cur_time :: int
  remain :: int
  cur_job :: "nat option"
  heap_of :: heap

definition forkDue :: "nat \<Rightarrow> rr_state \<Rightarrow> (process, rr_state) prog" where
  "forkDue n st =
     (if next_job st < n then
        bind (at (p_arr st) (next_job st)) (\<lambda>nx.
        if r_time nx = cur_time st then
          bind (fork_child (next_job st) (p_arr st)) (\<lambda>arr.
          bind (add_list (cur_job st) (next_job st) (heap_of st)) (\<lambda>(job, H).
          return (st\<lparr>p_arr := arr, cur_job := job, heap_of := H, next_job := next_job st + 1\<rparr>)))
        else return st)
      else return st)"

definition idleUntilNext :: "rr_state \<Rightarrow> (process, rr_state) prog" where
  "idleUntilNext st =
     bind (at (p_arr st) (next_job st)) (\<lambda>nx.
     bind (sub_i (r_time nx) (cur_time st)) (\<lambda>d.
     andThen (wait_for_job d)
     (return (st\<lparr>cur_time := r_time nx, remain := TIME_QUANTUM\<rparr>))))"

definition lower_remain_time :: "nat \<Rightarrow> int \<Rightarrow> p_struct list \<Rightarrow> (process, p_struct list) prog" where
  "lower_remain_time i t arr =
     bind (at arr i) (\<lambda>p.
     bind (sub_i (remain_time p) t) (\<lambda>v. return (arr[i := p\<lparr>remain_time := v\<rparr>])))"

text \<open>The next arrival comes before the quantum and the job are over: run the job until then.\<close>

definition runToFork :: "nat \<Rightarrow> int \<Rightarrow> rr_state \<Rightarrow> (process, rr_state) prog" where
  "runToFork i t st =
     bind (run_job i t (p_arr st)) (\<lambda>arr.
     bind (sub_i (remain st) t) (\<lambda>rem.
     bind (lower_remain_time i t arr) (\<lambda>arr.
     bind (at arr (next_job st)) (\<lambda>nx.
     return (st\<lparr>p_arr := arr, remain := rem, cur_time := r_time nx\<rparr>)))))"

text \<open>The quantum is over first: go to the next job of the list.\<close>

definition runToNext :: "nat \<Rightarrow> nat \<Rightarrow> rr_state \<Rightarrow> (process, rr_state) prog" where
  "runToNext job i st =
     bind (run_job i (remain st) (p_arr st)) (\<lambda>arr.
     bind (lower_remain_time i (remain st) arr) (\<lambda>arr.
     bind (add_i (cur_time st) (remain st)) (\<lambda>c.
     bind (load (heap_of st) job) (\<lambda>j.
     return (st\<lparr>p_arr := arr, cur_time := c, remain := TIME_QUANTUM, cur_job := Some (node_next j)\<rparr>)))))"

text \<open>The job is over first.\<close>

definition runToDie :: "nat \<Rightarrow> nat \<Rightarrow> rr_state \<Rightarrow> (process, rr_state) prog" where
  "runToDie job i st =
     bind (at (p_arr st) i) (\<lambda>p.
     bind (run_job i (remain_time p) (p_arr st)) (\<lambda>arr.
     andThen sys_wait
     (bind sys_gettime (\<lambda>t.
      bind (at arr i) (\<lambda>p.
      let p = p\<lparr>ts1 := Some t\<rparr> in
      case p_pid p of None \<Rightarrow> undef Uninitialised | Some c \<Rightarrow>
      andThen (print_result c (ts0 p) (ts1 p))
      (bind (add_i (cur_time st) (remain_time p)) (\<lambda>c.
       bind (remove_list job (heap_of st)) (\<lambda>(job, H).
       return (st\<lparr>p_arr := arr[i := p], cur_time := c, remain := TIME_QUANTUM, cur_job := job,
         heap_of := H, finish := finish st + 1\<rparr>)))))))))"

text \<open>Whether the next arrival is due before the quantum and the job are over, and in how long.\<close>

definition arrivesFirst :: "nat \<Rightarrow> int \<Rightarrow> rr_state \<Rightarrow> (process, int option) prog" where
  "arrivesFirst n left st =
     (if next_job st < n then
        bind (at (p_arr st) (next_job st)) (\<lambda>nx.
        bind (sub_i (r_time nx) (cur_time st)) (\<lambda>t.
        return (if t < remain st \<and> t < left then Some t else None)))
      else return None)"

definition RR_round :: "nat \<Rightarrow> rr_state \<Rightarrow> (process, rr_state) prog" where
  "RR_round n st =
     bind (forkDue n st) (\<lambda>st.
     case cur_job st of
       None \<Rightarrow> idleUntilNext st
     | Some job \<Rightarrow>
         bind (load (heap_of st) job) (\<lambda>j.
         let i = node_process j in
         bind (at (p_arr st) i) (\<lambda>p.
         bind (arrivesFirst n (remain_time p) st) (\<lambda>first.
         case first of
           Some t \<Rightarrow> runToFork i t st
         | None \<Rightarrow>
             if remain st < remain_time p then runToNext job i st
             else runToDie job i st))))"

definition malloc_p :: "nat \<Rightarrow> p_struct list" where
  "malloc_p n = replicate n \<lparr>p_name = [], r_time = 0, e_time = 0, ts0 = None, ts1 = None,
     p_pid = None, remain_time = 0, p_fd = None\<rparr>"

definition readProcess :: "nat \<Rightarrow> p_struct list \<Rightarrow> (process, p_struct list) prog" where
  "readProcess i arr =
     bind (scanf_s STR_SIZE) (\<lambda>nm.
     bind scanf_d (\<lambda>r.
     bind scanf_d (\<lambda>e.
     bind (at arr i) (\<lambda>p.
     return (arr[i := p\<lparr>p_name := nm, r_time := r, e_time := e, remain_time := e\<rparr>])))))"

definition RR_start :: "p_struct list \<Rightarrow> rr_state" where
  "RR_start arr = \<lparr>p_arr = qsort rr_cmp arr, finish = 0, next_job = 0, cur_time = 0, remain = TIME_QUANTUM,
     cur_job = None, heap_of = \<lparr>nodes = Map.empty, unused = 1\<rparr>\<rparr>"

definition RR :: "(process, int) prog" where
  "RR =
     bind (sys_setscheduler 0 98) (\<lambda>r.
     if r < 0 then andThen (eprint (''set sched err'' @ newline)) (exit_with 3)
     else
       bind scanf_d (\<lambda>n.
       if n < 0 then undef Bad_Size
       else
         bind (forM [0..<nat n] readProcess (malloc_p (nat n))) (\<lambda>arr.
         bind (whileM (\<lambda>st. finish st < n) (RR_round (nat n)) (RR_start arr)) (\<lambda>st.
         return 0))))"

end
