(* ===== verification/Rr_List.thy ===== *)
theory Rr_List
  imports Rr_Code
begin

text \<open>
  The ready list of \<open>rr.c\<close> against its specification, a queue. \<open>ring H c q\<close>: starting at the
  current node \<open>c\<close> and following \<open>next\<close>, the circular list in the heap \<open>H\<close> holds the jobs \<open>q\<close>, every
  \<open>last\<close> pointer is the inverse of \<open>next\<close>, and nothing else is allocated. The locale \<open>ready_queue\<close>
  is the interface the scheduler uses.
\<close>

section \<open>The interface\<close>

locale ready_queue =
  fixes holds :: "'h \<Rightarrow> 'c option \<Rightarrow> nat list \<Rightarrow> bool"
    and add :: "'c option \<Rightarrow> nat \<Rightarrow> 'h \<Rightarrow> (process, 'c option \<times> 'h) prog"
    and remove :: "'c \<Rightarrow> 'h \<Rightarrow> (process, 'c option \<times> 'h) prog"
    and succ :: "'h \<Rightarrow> 'c \<Rightarrow> 'c"
    and job_at :: "'h \<Rightarrow> 'c \<Rightarrow> nat"
  assumes add_law: "holds H c q \<Longrightarrow> wp (add c p H) (\<lambda>v w'. holds (snd v) (fst v) (q @ [p]) \<and> w' = w) never w"
    and remove_law: "holds H (Some a) (i # q) \<Longrightarrow>
      wp (remove a H) (\<lambda>v w'. holds (snd v) (fst v) q \<and> w' = w) never w"
    and succ_law: "holds H (Some a) (i # q) \<Longrightarrow> holds H (Some (succ H a)) (q @ [i])"
    and job_law: "holds H (Some a) q \<Longrightarrow> q \<noteq> [] \<and> job_at H a = hd q"
    and empty_law: "holds H None q \<Longrightarrow> q = []"
begin

lemma holds_Cons: "holds H (Some a) q \<Longrightarrow> \<exists>q'. q = job_at H a # q'"
  using job_law [of H a q] by (cases q) auto

text \<open>Going round the list once visits every job once, in queue order, and ends where it began.\<close>

lemma succ_rotates: "holds H (Some a) q \<Longrightarrow> holds H (Some ((succ H ^^ n) a)) (rotate n q)"
proof (induction n)
  case (Suc n)
  then obtain q' where "rotate n q = job_at H ((succ H ^^ n) a) # q'" using holds_Cons by blast
  with Suc show ?case using succ_law by (fastforce simp: rotate_def)
qed simp

lemma full_turn: "holds H (Some a) q \<Longrightarrow> holds H (Some ((succ H ^^ length q) a)) q"
  using succ_rotates [of H a q "length q"] by simp

lemma visits: "holds H (Some a) q \<Longrightarrow> n < length q \<Longrightarrow> job_at H ((succ H ^^ n) a) = q ! n"
  using job_law [OF succ_rotates] by (simp add: hd_rotate_conv_nth)

end

section \<open>The circular list\<close>

definition node_at :: "nat list \<Rightarrow> nat list \<Rightarrow> nat \<Rightarrow> ready_list" where
  "node_at as q i = \<lparr>node_process = q ! i,
     node_next = (if Suc i = length as then as ! 0 else as ! Suc i),
     node_last = (if i = 0 then as ! (length as - 1) else as ! (i - 1))\<rparr>"

definition linked :: "heap \<Rightarrow> nat list \<Rightarrow> nat list \<Rightarrow> bool" where
  "linked H as q = (length as = length q \<and> distinct as \<and> dom (nodes H) = set as \<and>
     (\<forall>a \<in> set as. a < unused H) \<and> (\<forall>i < length as. nodes H (as ! i) = Some (node_at as q i)))"

definition ring :: "heap \<Rightarrow> nat option \<Rightarrow> nat list \<Rightarrow> bool" where
  "ring H c q = (case c of None \<Rightarrow> linked H [] q
     | Some a \<Rightarrow> (\<exists>as. linked H as q \<and> as \<noteq> [] \<and> as ! 0 = a))"

definition ring_next :: "heap \<Rightarrow> nat \<Rightarrow> nat" where
  "ring_next H a = node_next (the (nodes H a))"

definition ring_job :: "heap \<Rightarrow> nat \<Rightarrow> nat" where
  "ring_job H a = node_process (the (nodes H a))"

lemma wp_load [wp_rules]: "wp (load H a) Q E w =
    (case nodes H a of None \<Rightarrow> E (Undefined Null_Dereference) w | Some n \<Rightarrow> Q n w)"
  by (simp add: load_def wp_rules split: option.split)

lemma wp_set_next: "nodes H a = Some n \<Longrightarrow>
    wp (set_next H a b) Q E w = Q (H\<lparr>nodes := (nodes H)(a \<mapsto> n\<lparr>node_next := b\<rparr>)\<rparr>) w"
  by (simp add: set_next_def wp_rules)

lemma wp_set_last: "nodes H a = Some n \<Longrightarrow>
    wp (set_last H a b) Q E w = Q (H\<lparr>nodes := (nodes H)(a \<mapsto> n\<lparr>node_last := b\<rparr>)\<rparr>) w"
  by (simp add: set_last_def wp_rules)

lemma linked_node: "linked H as q \<Longrightarrow> i < length as \<Longrightarrow> nodes H (as ! i) = Some (node_at as q i)"
  by (simp add: linked_def)

lemma linked_eq: "linked H as q \<Longrightarrow> i < length as \<Longrightarrow> j < length as \<Longrightarrow> as ! i = as ! j \<longleftrightarrow> i = j"
  by (simp add: linked_def nth_eq_iff_index_eq)

lemma linked_fresh: "linked H as q \<Longrightarrow> i < length as \<Longrightarrow> as ! i \<noteq> unused H"
  by (metis linked_def less_irrefl nth_mem)

text \<open>Insertion before the current node, that is at the end of the queue.\<close>

lemma linked_add:
  fixes p :: nat
  assumes l: "linked H as q" and ne: "as \<noteq> []"
  defines "n \<equiv> length as" and "u \<equiv> unused H"
  defines "H' \<equiv> H\<lparr>nodes := (nodes H)
      (u \<mapsto> \<lparr>node_process = p, node_next = as ! 0, node_last = as ! (n - 1)\<rparr>,
       as ! (n - 1) \<mapsto> (node_at as q (n - 1))\<lparr>node_next := u\<rparr>,
       as ! 0 \<mapsto> (if n = 1 then (node_at as q (n - 1))\<lparr>node_next := u\<rparr> else node_at as q 0)\<lparr>node_last := u\<rparr>),
     unused := u + 1\<rparr>"
  shows "linked H' (as @ [u]) (q @ [p])"
proof -
  have "0 < n" using ne by (simp add: n_def)
  moreover have "length q = n" using l by (simp add: n_def linked_def)
  ultimately have n: "0 < n" "length q = n" by simp_all
  have u: "u \<notin> set as" using linked_fresh [OF l] by (auto simp: u_def in_set_conv_nth)
  have eq: "as ! i = as ! j \<longleftrightarrow> i = j" if "i < n" "j < n" for i j
    using linked_eq [OF l] that by (simp add: n_def)
  have mem: "as ! i \<noteq> u" if "i < n" for i using that u nth_mem by (metis n_def)
  have "nodes H' ((as @ [u]) ! i) = Some (node_at (as @ [u]) (q @ [p]) i)" if i: "i < length (as @ [u])" for i
  proof -
    have "i \<le> n" using i by (simp add: n_def)
    then have "i = n \<or> i = 0 \<and> n = 1 \<or> i = 0 \<and> 1 < n \<or> 0 < i \<and> i = n - 1 \<or> 0 < i \<and> i < n - 1"
      using n(1) by arith
    then consider "i = n" | "i = 0" "n = 1" | "i = 0" "1 < n" | "0 < i" "i = n - 1" | "0 < i" "i < n - 1"
      by blast
    then show ?thesis
    proof cases
      case 1
      then show ?thesis
        using n mem [of "n - 1"] mem [of 0] by (simp add: H'_def n_def [symmetric] node_at_def nth_append)
    next
      case 2
      then show ?thesis
        using n mem [of 0] by (simp add: H'_def n_def [symmetric] node_at_def nth_append)
    next
      case 3
      then show ?thesis
        using n mem [of 0] eq [of 0 "n - 1"] by (simp add: H'_def n_def [symmetric] node_at_def nth_append)
    next
      case 4
      then show ?thesis
        using n mem [of "n - 1"] eq [of "n - 1" 0] by (simp add: H'_def n_def [symmetric] node_at_def nth_append)
    next
      case 5
      then show ?thesis
        using n mem [of i] eq [of i 0] eq [of i "n - 1"] linked_node [OF l, of i]
        by (auto simp: H'_def n_def [symmetric] node_at_def nth_append)
    qed
  qed
  moreover have "dom (nodes H') = set (as @ [u])"
    using l n nth_mem [of 0 as] nth_mem [of "n - 1" as] by (auto simp: H'_def linked_def n_def)
  ultimately show ?thesis
    using l u by (auto simp: linked_def H'_def u_def less_Suc_eq)
qed

lemma ring_add:
  assumes "ring H c q"
  shows "wp (add_list c p H) (\<lambda>v w'. ring (snd v) (fst v) (q @ [p]) \<and> w' = w) never (w :: process)"
proof (cases c)
  case None
  then have "nodes H = Map.empty" "q = []" using assms by (auto simp: ring_def linked_def)
  define H' where "H' = H\<lparr>unused := unused H + 1,
      nodes := [unused H \<mapsto> \<lparr>node_process = p, node_next = unused H, node_last = unused H\<rparr>]\<rparr>"
  have "linked H' [unused H] (q @ [p])"
    using \<open>q = []\<close> by (simp add: linked_def node_at_def H'_def)
  then have "ring H' (Some (unused H)) (q @ [p])"
    unfolding ring_def by (simp, intro exI [of _ "[unused H]"]) simp
  then show ?thesis
    using None \<open>nodes H = Map.empty\<close>
    by (simp add: add_list_def malloc_node_def wp_rules wp_set_next wp_set_last H'_def)
next
  case (Some a)
  then obtain as where l: "linked H as q" and ne: "as \<noteq> []" and a: "as ! 0 = a"
    using assms by (auto simp: ring_def)
  let ?n = "length as" and ?u = "unused H"
  define H' where "H' = H\<lparr>nodes := (nodes H)
      (?u \<mapsto> \<lparr>node_process = p, node_next = as ! 0, node_last = as ! (?n - 1)\<rparr>,
       as ! (?n - 1) \<mapsto> (node_at as q (?n - 1))\<lparr>node_next := ?u\<rparr>,
       as ! 0 \<mapsto> (if ?n = 1 then (node_at as q (?n - 1))\<lparr>node_next := ?u\<rparr> else node_at as q 0)\<lparr>node_last := ?u\<rparr>),
     unused := ?u + 1\<rparr>"
  have "linked H' (as @ [?u]) (q @ [p])"
    unfolding H'_def by (rule linked_add [OF l ne])
  then have ring: "ring H' (Some a) (q @ [p])"
    unfolding ring_def using ne a by (simp, intro exI [of _ "as @ [?u]"]) (simp add: nth_append)
  have n: "0 < ?n" using ne by simp
  have at: "nodes H (as ! 0) = Some (node_at as q 0)" "nodes H (as ! (?n - 1)) = Some (node_at as q (?n - 1))"
    using linked_node [OF l] n by auto
  have u: "as ! 0 \<noteq> ?u" "as ! (?n - 1) \<noteq> ?u" using linked_fresh [OF l] n by auto
  have eq: "as ! 0 = as ! (?n - 1) \<longleftrightarrow> ?n = 1" using linked_eq [OF l, of 0 "?n - 1"] n by (cases "?n = 1") auto
  have lst: "node_last (node_at as q 0) = as ! (?n - 1)" by (simp add: node_at_def)
  have "wp (add_list c p H) (\<lambda>v w'. v = (Some a, H') \<and> w' = w) never w"
  proof (cases "?n = 1")
    case True
    then show ?thesis
      using Some at u eq n lst a
      by (simp add: add_list_def malloc_node_def wp_rules wp_set_next wp_set_last H'_def)
  next
    case False
    then show ?thesis
      using Some at u eq n lst a
      by (simp add: add_list_def malloc_node_def wp_rules wp_set_next wp_set_last H'_def)
  qed
  then show ?thesis by (rule wp_mono) (use ring in auto)
qed

lemma linked_rotate:
  assumes l: "linked H (a # as) (i # q)"
  shows "linked H (as @ [a]) (q @ [i])"
proof -
  have len: "length q = length as" using l by (simp add: linked_def)
  have "nodes H ((as @ [a]) ! k) = Some (node_at (as @ [a]) (q @ [i]) k)" if k: "k < length (as @ [a])" for k
  proof (cases "k < length as")
    case True
    then have "nodes H (as ! k) = Some (node_at (a # as) (i # q) (Suc k))"
      using linked_node [OF l, of "Suc k"] by simp
    then show ?thesis
      using True len by (auto simp: node_at_def nth_append nth_Cons' split: if_splits)
  next
    case False
    then have "k = length as" using k by simp
    then show ?thesis
      using linked_node [OF l, of 0] len
      by (cases as) (auto simp: node_at_def nth_append nth_Cons' split: if_splits)
  qed
  then show ?thesis using l by (auto simp: linked_def)
qed

lemma ring_ConsE:
  assumes "ring H (Some a) q"
  obtains as i q' where "linked H (a # as) (i # q')" "q = i # q'"
proof -
  obtain as where as: "linked H as q" "as \<noteq> []" "as ! 0 = a" using assms by (auto simp: ring_def)
  then obtain as' where as': "as = a # as'" by (cases as) auto
  with as(1) obtain i q' where "q = i # q'" by (cases q) (auto simp: linked_def)
  with as(1) as' show ?thesis by (auto intro: that)
qed

lemma ring_node:
  assumes "ring H (Some a) q"
  shows "\<exists>n. nodes H a = Some n \<and> node_process n = hd q" "q \<noteq> []"
  using assms by (auto elim!: ring_ConsE dest!: linked_node [where i = 0] simp: node_at_def)

lemma ring_rotate:
  assumes "ring H (Some a) (i # q)"
  shows "ring H (Some (ring_next H a)) (q @ [i])"
proof -
  obtain as where l: "linked H (a # as) (i # q)" using assms by (auto elim: ring_ConsE)
  have "ring_next H a = (as @ [a]) ! 0"
    using linked_node [OF l, of 0] by (cases as) (auto simp: ring_next_def node_at_def)
  then show ?thesis
    unfolding ring_def using linked_rotate [OF l] by (simp, intro exI [of _ "as @ [a]"]) simp
qed

text \<open>Removal of the current node.\<close>

lemma linked_remove:
  assumes l: "linked H (a # as) (i # q)" and ne: "as \<noteq> []"
  defines "n \<equiv> length as"
  defines "H' \<equiv> H\<lparr>nodes := ((nodes H)
      (as ! 0 \<mapsto> (node_at (a # as) (i # q) 1)\<lparr>node_last := as ! (n - 1)\<rparr>,
       as ! (n - 1) \<mapsto> (if n = 1 then (node_at (a # as) (i # q) 1)\<lparr>node_last := as ! (n - 1)\<rparr>
                       else node_at (a # as) (i # q) n)\<lparr>node_next := as ! 0\<rparr>))(a := None)\<rparr>"
  shows "linked H' as q"
proof -
  have "0 < n" using ne by (simp add: n_def)
  moreover have "length q = n" using l by (simp add: n_def linked_def)
  ultimately have n: "0 < n" "length q = n" by simp_all
  have a: "as ! k \<noteq> a" if "k < n" for k using linked_eq [OF l, of "Suc k" 0] that by (simp add: n_def)
  have eq: "as ! k = as ! m \<longleftrightarrow> k = m" if "k < n" "m < n" for k m
    using linked_eq [OF l, of "Suc k" "Suc m"] that by (simp add: n_def)
  have "nodes H' (as ! k) = Some (node_at as q k)" if k: "k < n" for k
  proof -
    have "k = 0 \<and> n = 1 \<or> k = 0 \<and> 1 < n \<or> 0 < k \<and> k = n - 1 \<or> 0 < k \<and> k < n - 1"
      using k n(1) by arith
    then consider "k = 0" "n = 1" | "k = 0" "1 < n" | "0 < k" "k = n - 1" | "0 < k" "k < n - 1"
      by blast
    then show ?thesis
    proof cases
      case 1
      then show ?thesis using a [of 0] n by (simp add: H'_def n_def [symmetric] node_at_def)
    next
      case 2
      then show ?thesis
        using a [of 0] eq [of 0 "n - 1"] n by (auto simp: H'_def n_def [symmetric] node_at_def nth_Cons')
    next
      case 3
      then show ?thesis
        using a [of k] eq [of k 0] n by (auto simp: H'_def n_def [symmetric] node_at_def nth_Cons')
    next
      case 4
      then show ?thesis
        using a [of k] eq [of k 0] eq [of k "n - 1"] n linked_node [OF l, of "Suc k"]
        by (auto simp: H'_def n_def [symmetric] node_at_def nth_Cons')
    qed
  qed
  moreover have "dom (nodes H') = set as"
  proof -
    have "dom (nodes H) = insert a (set as)" "a \<notin> set as" using l by (simp_all add: linked_def)
    moreover have "as ! 0 \<in> set as" "as ! (n - 1) \<in> set as" using n by (simp_all add: n_def)
    ultimately show ?thesis unfolding H'_def by auto
  qed
  moreover have "length as = length q" "distinct as" "\<forall>x \<in> set as. x < unused H'"
    using l by (simp_all add: linked_def H'_def)
  ultimately show ?thesis unfolding linked_def n_def by blast
qed

lemma ring_remove:
  assumes "ring H (Some a) (i # q)"
  shows "wp (remove_list a H) (\<lambda>v w'. ring (snd v) (fst v) q \<and> w' = w) never (w :: process)"
proof -
  obtain as where l: "linked H (a # as) (i # q)" using assms by (auto elim: ring_ConsE)
  have node: "nodes H a = Some (node_at (a # as) (i # q) 0)" using linked_node [OF l, of 0] by simp
  show ?thesis
  proof (cases "as = []")
    case True
    then have "q = []" "dom (nodes H) = {a}" using l by (simp_all add: linked_def)
    then have "nodes (free_node a H) = Map.empty" by (auto simp: free_node_def dom_def fun_eq_iff split: if_splits)
    then have "linked (free_node a H) [] q" using \<open>q = []\<close> by (simp add: linked_def)
    then show ?thesis
      using True node by (simp add: remove_list_def wp_rules ring_def node_at_def)
  next
    case False
    let ?n = "length as"
    let ?b = "as ! 0" and ?z = "as ! (?n - 1)"
    have n: "0 < ?n" using False by simp
    have pos: "(a # as) ! 1 = ?b" "(a # as) ! ?n = ?z" "(a # as) ! 0 = a" using n by (simp_all add: nth_Cons')
    have len: "1 < length (a # as)" "?n < length (a # as)" "0 < length (a # as)" using n by simp_all
    have eq: "?b \<noteq> a" "?z \<noteq> a"
      using linked_eq [OF l len(1) len(3)] linked_eq [OF l len(2) len(3)] n unfolding pos by simp_all
    have same: "?b = ?z \<longleftrightarrow> 1 = ?n"
      using linked_eq [OF l len(1) len(2)] unfolding pos .
    have at: "nodes H ?b = Some (node_at (a # as) (i # q) 1)" "nodes H ?z = Some (node_at (a # as) (i # q) ?n)"
      using linked_node [OF l len(1)] linked_node [OF l len(2)] unfolding pos .
    have links: "node_next (node_at (a # as) (i # q) 0) = ?b" "node_last (node_at (a # as) (i # q) 0) = ?z"
      using n by (simp_all add: node_at_def nth_Cons')
    define H' where "H' = H\<lparr>nodes := ((nodes H)
      (?b \<mapsto> (node_at (a # as) (i # q) 1)\<lparr>node_last := ?z\<rparr>,
       ?z \<mapsto> (if ?n = 1 then (node_at (a # as) (i # q) 1)\<lparr>node_last := ?z\<rparr>
               else node_at (a # as) (i # q) ?n)\<lparr>node_next := ?b\<rparr>))(a := None)\<rparr>"
    have "linked H' as q" unfolding H'_def by (rule linked_remove [OF l False])
    then have "ring H' (Some ?b) q" using False by (auto simp: ring_def)
    moreover have "wp (remove_list a H) (\<lambda>v w'. v = (Some ?b, H') \<and> w' = w) never w"
      using node links at eq same
      by (cases "1 = ?n") (simp_all add: remove_list_def wp_rules wp_set_next wp_set_last free_node_def H'_def)
    ultimately show ?thesis by (auto elim: wp_mono)
  qed
qed

interpretation rr_list: ready_queue ring add_list remove_list ring_next ring_job
proof
  show "wp (add_list c p H) (\<lambda>v w'. ring (snd v) (fst v) (q @ [p]) \<and> w' = w) never w"
    if "ring H c q" for H c q p and w :: process using that by (rule ring_add)
  show "wp (remove_list a H) (\<lambda>v w'. ring (snd v) (fst v) q \<and> w' = w) never w"
    if "ring H (Some a) (i # q)" for H a i q and w :: process using that by (rule ring_remove)
  show "ring H (Some (ring_next H a)) (q @ [i])" if "ring H (Some a) (i # q)" for H a i q
    using that by (rule ring_rotate)
  show "q \<noteq> [] \<and> ring_job H a = hd q" if "ring H (Some a) q" for H a q
    using ring_node [OF that] by (auto simp: ring_job_def)
  show "q = []" if "ring H None q" for H q
    using that by (simp add: ring_def linked_def)
qed

end
