(* ===== verification/Rr_Trace.thy ===== *)
theory Rr_Trace
  imports Workload
begin

text \<open>
  The specification of round robin, as a monitor that is run over a trace: \<open>rr_monitor\<close> keeps the
  queue of ready jobs (indices into the workload in order of ready times) and what is left of the
  quantum; \<open>rr_obeys\<close> is the check of one event against its state. The monitor knows nothing of the
  pointers and arrays of \<open>rr.c\<close>. The second half shows what the monitor promises (how long a job
  waits for its turn) and how the facts the code needs follow each event.
\<close>

section \<open>The monitor\<close>

definition ready_of :: "workload \<Rightarrow> nat \<Rightarrow> int" where
  "ready_of ws i = fst (snd (ws ! i))"

definition exec_of :: "workload \<Rightarrow> nat \<Rightarrow> int" where
  "exec_of ws i = snd (snd (ws ! i))"

text \<open>Job \<open>i\<close> owns the \<open>i\<close>-th pipe of the trace.\<close>

definition rr_fd :: "event list \<Rightarrow> nat \<Rightarrow> int" where
  "rr_fd h i = snd (pipes h ! i)"

definition rr_got :: "event list \<Rightarrow> nat \<Rightarrow> int" where
  "rr_got h i = (if i < length (pipes h) then sent (rr_fd h i) h else 0)"

definition rr_job :: "workload \<Rightarrow> event list \<Rightarrow> nat \<Rightarrow> job" where
  "rr_job ws h i = \<lparr>jname = fst (ws ! i), jrd = fst (pipes h ! i), jwr = rr_fd h i,
     jready = ready_of ws i, jexec = exec_of ws i\<rparr>"

fun rr_next :: "workload \<Rightarrow> event list \<Rightarrow> nat list \<times> int \<Rightarrow> event \<Rightarrow> nat list \<times> int" where
  "rr_next ws h (q, left) (Ev_Pipe r s) = (q @ [length (pipes h)], left)"
| "rr_next ws h (i # q, left) (Ev_Write f s) =
    (if units s = left \<and> rr_got h i + units s < exec_of ws i then (q @ [i], 500)
     else (i # q, left - units s))"
| "rr_next ws h (q, left) (Ev_Wait r) = (tl q, 500)"
| "rr_next ws h (q, left) _ = (q, left)"

fun rr_run :: "workload \<Rightarrow> event list \<Rightarrow> nat list \<times> int" where
  "rr_run ws [] = ([], 500)"
| "rr_run ws (e # r) = rr_next ws (rev r) (rr_run ws r) e"

definition rr_monitor :: "workload \<Rightarrow> event list \<Rightarrow> nat list \<times> int" where
  "rr_monitor ws h = rr_run ws (rev h)"

text \<open>
  The processor idles only with an empty queue and before the next ready time; a job's pipe is made
  exactly at its ready time; only the head of the queue is written to, within the quantum and its
  execution time; the parent waits only for the head, once it has been sent all of its time.
\<close>

fun rr_obeys :: "workload \<Rightarrow> event list \<Rightarrow> event \<Rightarrow> bool" where
  "rr_obeys ws h Ev_Spin = (fst (rr_monitor ws h) = [] \<and> length (pipes h) < length ws \<and>
     elapsed h < ready_of ws (length (pipes h)))"
| "rr_obeys ws h (Ev_Pipe r s) = (length (pipes h) < length ws \<and> elapsed h = ready_of ws (length (pipes h)))"
| "rr_obeys ws h (Ev_Write f s) = (case rr_monitor ws h of
     (i # q, left) \<Rightarrow> f = rr_fd h i \<and> is_chunk s (units s) \<and> 0 < units s \<and> units s \<le> left \<and>
       rr_got h i + units s \<le> exec_of ws i
   | ([], left) \<Rightarrow> False)"
| "rr_obeys ws h (Ev_Wait r) = (case rr_monitor ws h of
     (i # q, left) \<Rightarrow> last_fd h = rr_fd h i \<and> rr_got h i = exec_of ws i
   | ([], left) \<Rightarrow> False)"
| "rr_obeys ws h (Ev_Waitpid p r) = False"
| "rr_obeys ws h _ = True"

lemma rr_monitor_nil [simp]: "rr_monitor ws [] = ([], 500)"
  by (simp add: rr_monitor_def)

lemma rr_monitor_snoc [simp]: "rr_monitor ws (h @ [e]) = rr_next ws h (rr_monitor ws h) e"
  by (simp add: rr_monitor_def)

section \<open>What the monitor promises\<close>

text \<open>A job at position \<open>k\<close> of the queue waits at most \<open>k\<close> quanta.\<close>

definition rr_turn :: "nat list \<times> int \<Rightarrow> nat \<Rightarrow> int" where
  "rr_turn m i = (case m of (q, left) \<Rightarrow>
     (case takeWhile (\<lambda>j. j \<noteq> i) q of [] \<Rightarrow> 0 | x # xs \<Rightarrow> left + 500 * int (length xs)))"

lemma takeWhile_not: "i \<in> set q \<Longrightarrow> takeWhile (\<lambda>j. j \<noteq> i) (q @ r) = takeWhile (\<lambda>j. j \<noteq> i) q"
  by (induction q) auto

lemma rr_turn_step:
  assumes ob: "rr_obeys ws h e" and q: "rr_monitor ws h = (q, left)" and i: "i \<in> set q" "0 \<le> left" "left \<le> 500"
    and alive: "rr_got h i < exec_of ws i" and not_i: "written (rr_fd h i) e = []"
  shows "i \<in> set (fst (rr_monitor ws (h @ [e])))"
    "rr_turn (rr_monitor ws (h @ [e])) i + duration e \<le> rr_turn (rr_monitor ws h) i"
    "0 \<le> snd (rr_monitor ws (h @ [e]))" "snd (rr_monitor ws (h @ [e])) \<le> 500"
proof -
  obtain j q' where jq: "q = j # q'" using i(1) by (cases q) auto
  have neq: "j \<noteq> i" if "(\<exists>f s. e = Ev_Write f s) \<or> (\<exists>r. e = Ev_Wait r)"
    using that ob q jq alive not_i by (auto split: if_splits)
  show "i \<in> set (fst (rr_monitor ws (h @ [e])))"
    using i q jq neq ob by (cases e) auto
  show "0 \<le> snd (rr_monitor ws (h @ [e]))" "snd (rr_monitor ws (h @ [e])) \<le> 500"
    using i q jq ob by (cases e; auto)+
  show "rr_turn (rr_monitor ws (h @ [e])) i + duration e \<le> rr_turn (rr_monitor ws h) i"
  proof (cases e)
    case (Ev_Write f s)
    then have j: "j \<noteq> i" "i \<in> set q'" "units s \<le> left" using neq i jq ob q by auto
    show ?thesis
      using Ev_Write j q jq
      by (auto simp: rr_turn_def takeWhile_not split: list.split)
  next
    case (Ev_Wait r)
    then have j: "j \<noteq> i" "i \<in> set q'" using neq i jq by auto
    show ?thesis
      using Ev_Wait j q jq i(2) by (auto simp: rr_turn_def split: list.split)
  qed (use i q jq ob in \<open>auto simp: rr_turn_def takeWhile_not split: list.split\<close>)
qed

lemma rr_monitor_bounds:
  assumes "every (rr_obeys ws) h"
  shows "0 \<le> snd (rr_monitor ws h) \<and> snd (rr_monitor ws h) \<le> 500 \<and>
    set (fst (rr_monitor ws h)) \<subseteq> {..<length (pipes h)}"
  using assms
proof (induction h rule: rev_induct)
  case (snoc e h)
  then have IH: "0 \<le> snd (rr_monitor ws h)" "snd (rr_monitor ws h) \<le> 500"
    "set (fst (rr_monitor ws h)) \<subseteq> {..<length (pipes h)}" and ob: "rr_obeys ws h e" by auto
  obtain q left where m: "rr_monitor ws h = (q, left)" by (cases "rr_monitor ws h")
  show ?case
  proof (cases q)
    case Nil
    then show ?thesis using IH ob m by (cases e) auto
  next
    case (Cons i q')
    then show ?thesis using IH ob m by (cases e) auto
  qed
qed simp

lemma pipes_prefix: "i < length (pipes h) \<Longrightarrow> pipes (h @ h') ! i = pipes h ! i"
  by (simp add: pipes_def nth_append)

lemma rr_fd_append: "i < length (pipes h) \<Longrightarrow> rr_fd (h @ h') i = rr_fd h i"
  by (simp add: rr_fd_def pipes_prefix)

lemma length_pipes_append: "length (pipes h) \<le> length (pipes (h @ h'))"
  by (simp add: pipes_def)

lemma rr_waits:
  assumes "every (rr_obeys ws) (h @ h')" "i \<in> set (fst (rr_monitor ws h))" "rr_got h i < exec_of ws i"
    and "\<And>e. e \<in> set h' \<Longrightarrow> written (rr_fd h i) e = []"
  shows "i \<in> set (fst (rr_monitor ws (h @ h'))) \<and> rr_got (h @ h') i = rr_got h i \<and>
    elapsed h' + rr_turn (rr_monitor ws (h @ h')) i \<le> rr_turn (rr_monitor ws h) i"
  using assms
proof (induction h' rule: rev_induct)
  case (snoc e h')
  have ev: "every (rr_obeys ws) (h @ h')" and ob: "rr_obeys ws (h @ h') e"
    using snoc.prems(1) by (simp_all flip: append_assoc)
  have IH: "i \<in> set (fst (rr_monitor ws (h @ h')))" "rr_got (h @ h') i = rr_got h i"
    "elapsed h' + rr_turn (rr_monitor ws (h @ h')) i \<le> rr_turn (rr_monitor ws h) i"
    using snoc.IH [OF ev snoc.prems(2,3)] snoc.prems(4) by auto
  obtain q left where m: "rr_monitor ws (h @ h') = (q, left)" by (cases "rr_monitor ws (h @ h')")
  have b: "0 \<le> left" "left \<le> 500" using rr_monitor_bounds [OF ev] m by simp_all
  have "every (rr_obeys ws) h" using every_prefix [OF snoc.prems(1), of "length h"] by simp
  then have i: "i < length (pipes h)" using rr_monitor_bounds [of ws h] snoc.prems(2) by blast
  then have fd: "rr_fd (h @ h') i = rr_fd h i" "i < length (pipes (h @ h'))"
    using rr_fd_append length_pipes_append [of h h'] by auto
  have not_i: "written (rr_fd (h @ h') i) e = []" using snoc.prems(4) [of e] fd by simp
  note step = rr_turn_step [OF ob m, of i]
  have "rr_got ((h @ h') @ [e]) i = rr_got (h @ h') i"
  proof -
    have "amount (rr_fd (h @ h') i) e = 0" using not_i by (cases e) (auto split: if_splits)
    then show ?thesis
      using fd(2) rr_fd_append [OF fd(2), of "[e]"] by (simp add: rr_got_def del: append_assoc)
  qed
  then show ?case
    using step [OF _ b _ not_i] IH m snoc.prems(3) by (simp flip: append_assoc)
qed simp

lemma rr_turn_bound:
  assumes "left \<le> 500" "k < length q" "q ! k = i"
  shows "rr_turn (q, left) i \<le> 500 * int k"
proof -
  have "length (takeWhile (\<lambda>j. j \<noteq> i) q) \<le> k"
  proof (rule ccontr)
    assume "\<not> length (takeWhile (\<lambda>j. j \<noteq> i) q) \<le> k"
    then have k: "k < length (takeWhile (\<lambda>j. j \<noteq> i) q)" by simp
    then have "takeWhile (\<lambda>j. j \<noteq> i) q ! k \<noteq> i" using set_takeWhileD nth_mem by fast
    then show False using k assms(3) by (simp add: takeWhile_nth)
  qed
  then show ?thesis
    using assms(1) by (cases "takeWhile (\<lambda>j. j \<noteq> i) q") (auto simp: rr_turn_def)
qed

section \<open>What holds along a run of the code\<close>

text \<open>The input: times that fit, no empty job, in the order of the ready times.\<close>

definition rr_input :: "workload \<Rightarrow> bool" where
  "rr_input ws = (fits 50 ws \<and> (\<forall>i < length ws. 0 < exec_of ws i) \<and> sorted (map (ready_of ws) [0..<length ws]))"

definition rr_left :: "workload \<Rightarrow> event list \<Rightarrow> int" where
  "rr_left ws h = (\<Sum>i<length ws. exec_of ws i - rr_got h i)"

definition rr_child :: "workload \<Rightarrow> event list \<Rightarrow> event \<Rightarrow> bool" where
  "rr_child ws h e = (is_wait e \<longrightarrow>
     (\<exists>i < length (pipes h). rr_fd h i = last_fd h \<and> child_exits (rr_job ws h i) h))"

definition rr_jobs_ok :: "workload \<Rightarrow> nat list \<Rightarrow> event list \<Rightarrow> bool" where
  "rr_jobs_ok ws q h =
    ((\<forall>i < length (pipes h). ready_of ws i \<le> elapsed h \<and> rr_got h i \<le> exec_of ws i \<and>
        (i \<notin> set q \<longrightarrow> rr_got h i = exec_of ws i) \<and> fed_well h (rr_job ws h i)) \<and>
     (\<forall>i. length (pipes h) \<le> i \<longrightarrow> i < length ws \<longrightarrow> elapsed h \<le> ready_of ws i))"

definition rr_fds_ok :: "event list \<Rightarrow> bool" where
  "rr_fds_ok h = (distinct (map snd (pipes h)) \<and> snd ` set (pipes h) \<subseteq> open_fds h \<and>
     (\<forall>f. f \<notin> snd ` set (pipes h) \<longrightarrow> writes f h = []))"

definition rr_trace :: "workload \<Rightarrow> nat list \<Rightarrow> int \<Rightarrow> event list \<Rightarrow> bool" where
  "rr_trace ws q left h =
    (rr_input ws \<and> rr_monitor ws h = (q, left) \<and> distinct q \<and> (q = [] \<longrightarrow> left = 500) \<and>
     length (pipes h) \<le> length ws \<and> rr_jobs_ok ws q h \<and> rr_fds_ok h \<and>
     elapsed h + rr_left ws h \<le> INT_MAX \<and> every (rr_obeys ws) h \<and> every (rr_child ws) h)"

lemma rr_traceD:
  assumes "rr_trace ws q left h"
  shows "rr_input ws" "rr_monitor ws h = (q, left)" "distinct q" "q = [] \<Longrightarrow> left = 500"
    "length (pipes h) \<le> length ws" "rr_jobs_ok ws q h" "rr_fds_ok h"
    "elapsed h + rr_left ws h \<le> INT_MAX" "every (rr_obeys ws) h" "every (rr_child ws) h"
    "set q \<subseteq> {..<length (pipes h)}" "0 \<le> left" "left \<le> 500"
  using assms rr_monitor_bounds [of ws h] by (auto simp: rr_trace_def)

lemma rr_jobs_okD:
  assumes "rr_jobs_ok ws q h"
  shows "i < length (pipes h) \<Longrightarrow> ready_of ws i \<le> elapsed h" "i < length (pipes h) \<Longrightarrow> rr_got h i \<le> exec_of ws i"
    "i < length (pipes h) \<Longrightarrow> i \<notin> set q \<Longrightarrow> rr_got h i = exec_of ws i"
    "i < length (pipes h) \<Longrightarrow> fed_well h (rr_job ws h i)"
    "length (pipes h) \<le> i \<Longrightarrow> i < length ws \<Longrightarrow> elapsed h \<le> ready_of ws i"
  using assms by (auto simp: rr_jobs_ok_def)

lemma rr_inputD:
  assumes "rr_input ws" "i < length ws"
  shows "0 < exec_of ws i" "0 \<le> ready_of ws i" "exec_of ws i \<le> INT_MAX" "ready_of ws i \<le> INT_MAX"
    "ready_of ws i + (\<Sum>i<length ws. exec_of ws i) \<le> INT_MAX" "length (fst (ws ! i)) < 50"
    "\<And>k. i \<le> k \<Longrightarrow> k < length ws \<Longrightarrow> ready_of ws i \<le> ready_of ws k"
proof -
  show "0 < exec_of ws i" using assms by (simp add: rr_input_def)
  obtain n r e where line: "ws ! i = (n, r, e)" by (cases "ws ! i")
  then have mem: "(n, r, e) \<in> set ws" using assms(2) nth_mem by metis
  have f: "fits 50 ws" using assms(1) by (simp add: rr_input_def)
  show "0 \<le> ready_of ws i" "exec_of ws i \<le> INT_MAX" "ready_of ws i \<le> INT_MAX" "length (fst (ws ! i)) < 50"
    using fitsD [OF f mem] line by (simp_all add: ready_of_def exec_of_def)
  have "(\<Sum>i<length ws. exec_of ws i) = sum_list (map (\<lambda>(n, r, e). e) ws)"
    by (simp add: sum_list_sum_nth exec_of_def lessThan_atLeast0 case_prod_unfold)
  then show "ready_of ws i + (\<Sum>i<length ws. exec_of ws i) \<le> INT_MAX"
    using fitsD(4) [OF f mem] line by (simp add: ready_of_def)
  show "ready_of ws i \<le> ready_of ws k" if "i \<le> k" "k < length ws" for k
    using assms sorted_nth_mono [of "map (ready_of ws) [0..<length ws]" i k] that by (simp add: rr_input_def)
qed

lemma rr_got_nonneg [simp]: "0 \<le> rr_got h i"
  by (simp add: rr_got_def)

lemma rr_left_bounds:
  assumes "rr_trace ws q left h"
  shows "0 \<le> rr_left ws h" "rr_left ws h \<le> (\<Sum>i<length ws. exec_of ws i)"
    "i < length ws \<Longrightarrow> exec_of ws i - rr_got h i \<le> rr_left ws h"
proof -
  have each: "0 \<le> exec_of ws i - rr_got h i" if "i < length ws" for i
    using rr_jobs_okD(2) [OF rr_traceD(6) [OF assms]] rr_inputD(1) [OF rr_traceD(1) [OF assms] that]
    by (cases "i < length (pipes h)") (auto simp: rr_got_def)
  then show "0 \<le> rr_left ws h" by (auto simp: rr_left_def intro: sum_nonneg)
  show "rr_left ws h \<le> (\<Sum>i<length ws. exec_of ws i)"
    by (auto simp: rr_left_def intro: sum_mono)
  show "exec_of ws i - rr_got h i \<le> rr_left ws h" if "i < length ws"
    unfolding rr_left_def using that each by (intro member_le_sum) auto
qed

text \<open>Events that change nothing the monitor sees.\<close>

fun silent :: "event list \<Rightarrow> event \<Rightarrow> bool" where
  "silent h (Ev_Close f) = (f \<notin> snd ` set (pipes h))"
| "silent h (Ev_Cloexec f) = True"
| "silent h (Ev_Fork p) = True"
| "silent h (Ev_Setscheduler p q r) = True"
| "silent h (Ev_Gettime t) = True"
| "silent h (Ev_Myprint s) = True"
| "silent h _ = False"

lemma silentD:
  assumes "silent h e"
  shows "duration e = 0" "written f e = []" "amount f e = 0" "pipe_of e = []" "writer f e = f" "\<not> is_wait e"
    "rr_next ws h m e = m" "rr_obeys ws h e"
    "snd ` set (pipes h) \<subseteq> open_fds h \<Longrightarrow> snd ` set (pipes h) \<subseteq> open_step (open_fds h) e"
  using assms by (cases m; cases e; auto)+

lemma rr_same_pipes:
  assumes "pipe_of e = []"
  shows "rr_fd (h @ [e]) = rr_fd h" "(\<And>f. amount f e = 0) \<Longrightarrow> rr_got (h @ [e]) = rr_got h"
    "rr_job ws (h @ [e]) = rr_job ws h"
proof -
  show fd: "rr_fd (h @ [e]) = rr_fd h" using assms by (simp add: rr_fd_def fun_eq_iff)
  show "rr_job ws (h @ [e]) = rr_job ws h" using assms by (simp add: rr_job_def fd fun_eq_iff)
  show "rr_got (h @ [e]) = rr_got h" if "\<And>f. amount f e = 0"
    using assms that by (simp add: rr_got_def fd fun_eq_iff)
qed

lemma fed_well_same: "written (jwr j) e = [] \<Longrightarrow> amount (jwr j) e = 0 \<Longrightarrow> fed_well (h @ [e]) j = fed_well h j"
  by (simp add: fed_well_def)

lemma rr_trace_silent:
  assumes "rr_trace ws q left h" "silent h e"
  shows "rr_trace ws q left (h @ [e])"
  using assms rr_same_pipes [where e = e and h = h]
  by (auto simp: rr_trace_def rr_jobs_ok_def rr_fds_ok_def rr_left_def rr_child_def silentD fed_well_same
      dest: silentD(9))

subsection \<open>Idling and new jobs\<close>

lemma rr_trace_spin:
  assumes t: "rr_trace ws [] left h" and n: "length (pipes h) < length ws" "elapsed h < ready_of ws (length (pipes h))"
  shows "rr_trace ws [] left (h @ [Ev_Spin])"
proof -
  note T = rr_traceD [OF t] and same = rr_same_pipes [where e = Ev_Spin and h = h]
  have "elapsed h + 1 \<le> ready_of ws i" if "length (pipes h) \<le> i" "i < length ws" for i
    using n rr_inputD(7) [OF T(1) n(1) that] by simp
  moreover have "fed_well (h @ [Ev_Spin]) j = fed_well h j" for j by (simp add: fed_well_same)
  ultimately have "rr_jobs_ok ws [] (h @ [Ev_Spin])"
    using rr_jobs_okD [OF T(6)] by (force simp: rr_jobs_ok_def same)
  moreover have "rr_left ws (h @ [Ev_Spin]) = rr_left ws h" by (simp add: rr_left_def same)
  moreover have "elapsed h + 1 + rr_left ws h \<le> INT_MAX"
    using rr_inputD(5) [OF T(1) n(1)] rr_left_bounds(2) [OF t] n(2) by linarith
  ultimately show ?thesis
    using T n by (simp add: rr_trace_def rr_fds_ok_def rr_child_def)
qed

lemma rr_trace_pipe:
  assumes t: "rr_trace ws q left h" and n: "length (pipes h) < length ws" "elapsed h = ready_of ws (length (pipes h))"
    and fresh: "r \<noteq> s" "r \<notin> open_fds h" "s \<notin> open_fds h"
  shows "rr_trace ws (q @ [length (pipes h)]) left (h @ [Ev_Pipe r s])"
    and "r \<notin> snd ` set (pipes (h @ [Ev_Pipe r s]))"
proof -
  note T = rr_traceD [OF t]
  let ?m = "length (pipes h)" and ?h = "h @ [Ev_Pipe r s]"
  have F: "snd ` set (pipes h) \<subseteq> open_fds h" "distinct (map snd (pipes h))"
    "\<And>f. f \<notin> snd ` set (pipes h) \<Longrightarrow> writes f h = []" using T(7) by (auto simp: rr_fds_ok_def)
  show "r \<notin> snd ` set (pipes ?h)" using F(1) fresh by auto
  have "s \<notin> snd ` set (pipes h)" using F(1) fresh(3) by blast
  moreover from this have "writes s h = []" by (rule F(3))
  ultimately have s: "s \<notin> snd ` set (pipes h)" "writes s h = []" "chunks s h = []" "sent s h = 0"
    by (simp_all add: chunks_def sent_chunks)
  have fd: "rr_fd ?h i = (if i < ?m then rr_fd h i else s)" if "i < Suc ?m" for i
    using that by (auto simp: rr_fd_def nth_append)
  have got: "rr_got ?h i = rr_got h i" for i
    using fd [of i] s by (auto simp: rr_got_def less_Suc_eq)
  have job: "rr_job ws ?h i = rr_job ws h i" if "i < ?m" for i
    using that by (simp add: rr_job_def fd nth_append)
  have "fed_well ?h (rr_job ws ?h ?m)"
    using s rr_inputD(1) [OF T(1) n(1)] fd [of ?m]
    by (simp add: fed_well_def rr_job_def chunks_def)
  moreover have "fed_well ?h (rr_job ws ?h i)" if "i < ?m" for i
    using rr_jobs_okD(4) [OF T(6) that] by (simp add: job [OF that] fed_well_same)
  ultimately have "rr_jobs_ok ws (q @ [?m]) ?h"
    using rr_jobs_okD(1-3,5) [OF T(6)] n rr_inputD(1) [OF T(1) n(1)] unfolding rr_jobs_ok_def got
    by (auto simp: less_Suc_eq rr_got_def)
  moreover have "rr_fds_ok ?h" using F s fresh by (auto simp: rr_fds_ok_def)
  moreover have "rr_left ws ?h = rr_left ws h" by (simp add: rr_left_def got)
  moreover have "distinct (q @ [?m])" using T(3,11) by auto
  ultimately show "rr_trace ws (q @ [?m]) left ?h"
    using T n by (simp add: rr_trace_def rr_child_def)
qed

subsection \<open>Running and waiting\<close>

lemma rr_fd_inj:
  assumes "rr_fds_ok h" "i < length (pipes h)" "k < length (pipes h)"
  shows "rr_fd h i = rr_fd h k \<longleftrightarrow> i = k"
  using assms by (auto simp: rr_fds_ok_def rr_fd_def distinct_conv_nth)

lemma sum_one_less:
  fixes g g' :: "nat \<Rightarrow> int"
  assumes "i < n" "g' i = g i - t" "\<And>k. k \<noteq> i \<Longrightarrow> g' k = g k"
  shows "(\<Sum>k<n. g' k) = (\<Sum>k<n. g k) - t"
proof -
  have "(\<Sum>k<n. g' k) = g' i + (\<Sum>k\<in>{..<n} - {i}. g' k)" "(\<Sum>k<n. g k) = g i + (\<Sum>k\<in>{..<n} - {i}. g k)"
    using assms(1) by (auto intro: sum.remove)
  moreover have "(\<Sum>k\<in>{..<n} - {i}. g' k) = (\<Sum>k\<in>{..<n} - {i}. g k)"
    by (rule sum.cong) (auto simp: assms(3))
  ultimately show ?thesis using assms(2) by simp
qed

lemma rr_write_got:
  assumes "rr_trace ws q left h" "i < length (pipes h)" "units s = t"
  shows "rr_got (h @ [Ev_Write (rr_fd h i) s]) k = (if k = i then rr_got h i + t else rr_got h k)"
proof -
  have "rr_fd (h @ [Ev_Write (rr_fd h i) s]) = rr_fd h" by (intro rr_same_pipes) simp
  then show ?thesis
    using assms rr_fd_inj [OF rr_traceD(7) [OF assms(1)] assms(2), of k] by (auto simp: rr_got_def)
qed

lemma rr_trace_write:
  assumes t: "rr_trace ws (i # q) left h" and s: "units s = t" "is_chunk s t"
    and b: "0 < t" "t \<le> left" "rr_got h i + t \<le> exec_of ws i"
    and later: "length (pipes h) < length ws \<Longrightarrow> elapsed h + t \<le> ready_of ws (length (pipes h))"
  defines "h' \<equiv> h @ [Ev_Write (rr_fd h i) s]"
  shows "t = left \<Longrightarrow> rr_got h i + t < exec_of ws i \<Longrightarrow> rr_trace ws (q @ [i]) 500 h'"
    and "t < left \<or> rr_got h i + t = exec_of ws i \<Longrightarrow> rr_trace ws (i # q) (left - t) h'"
    and "rr_left ws h' = rr_left ws h - t"
proof -
  note T = rr_traceD [OF t]
  let ?e = "Ev_Write (rr_fd h i) s"
  have i: "i < length (pipes h)" "i < length ws" using T(5,11) by auto
  have p: "pipes h' = pipes h" "rr_fd h' = rr_fd h" "rr_job ws h' = rr_job ws h"
    using rr_same_pipes [where e = ?e and h = h] by (simp_all add: h'_def)
  have got: "rr_got h' k = (if k = i then rr_got h i + t else rr_got h k)" for k
    unfolding h'_def by (rule rr_write_got [OF t i(1) s(1)])
  show left: "rr_left ws h' = rr_left ws h - t"
    unfolding rr_left_def by (rule sum_one_less [OF i(2)]) (auto simp: got)
  have fed: "fed_well h' (rr_job ws h k)" if k: "k < length (pipes h)" for k
  proof (cases "k = i")
    case True
    have "fed_well h (rr_job ws h i)" by (rule rr_jobs_okD(4) [OF T(6) i(1)])
    then show ?thesis
      using True s b i(1) by (auto simp: fed_well_def h'_def rr_job_def rr_got_def sent_chunks [symmetric]
          intro!: list_all2_appendI)
  next
    case False
    then have "rr_fd h i \<noteq> rr_fd h k" using rr_fd_inj [OF T(7) i(1) k] by simp
    then show ?thesis using rr_jobs_okD(4) [OF T(6) k] by (simp add: h'_def fed_well_same rr_job_def)
  qed
  have later': "elapsed h + t \<le> ready_of ws k" if "length (pipes h) \<le> k" "k < length ws" for k
    using later rr_inputD(7) [OF T(1) _ that] that by force
  have ob: "rr_obeys ws h ?e" using T(2) s b by simp
  have fds: "rr_fds_ok h'" using T(7) i(1) by (auto simp: rr_fds_ok_def h'_def rr_fd_def)
  have jobs: "rr_jobs_ok ws q' h'" if "set q' = set (i # q)" for q'
    using rr_jobs_okD(1-3) [OF T(6)] fed later' b(1,3) i that unfolding rr_jobs_ok_def p got
    by (force simp: h'_def s(1))
  have rest: "elapsed h' + rr_left ws h' \<le> INT_MAX" "every (rr_obeys ws) h'" "every (rr_child ws) h'"
    using T(8-10) ob left s(1) by (simp_all add: h'_def rr_child_def)
  show "rr_trace ws (q @ [i]) 500 h'" if "t = left" "rr_got h i + t < exec_of ws i"
    using T(1-3,5) rest fds jobs [of "q @ [i]"] that s(1) p(1) by (auto simp: rr_trace_def h'_def)
  show "rr_trace ws (i # q) (left - t) h'" if "t < left \<or> rr_got h i + t = exec_of ws i"
    using T(1-3,5) rest fds jobs [of "i # q"] that s(1) p(1) by (auto simp: rr_trace_def h'_def)
qed

lemma rr_trace_wait:
  assumes t: "rr_trace ws (i # q) left h" and i: "rr_got h i = exec_of ws i" "last_fd h = rr_fd h i"
  shows "rr_trace ws q 500 (h @ [Ev_Wait r])"
proof -
  note T = rr_traceD [OF t]
  let ?h = "h @ [Ev_Wait r]"
  note same = rr_same_pipes [where e = "Ev_Wait r" and h = h]
  have len: "i < length (pipes h)" "i < length ws" using T(5,11) by auto
  note I = rr_inputD [OF T(1) len(2)]
  have "started h (rr_job ws h i)" "finished h (rr_job ws h i)"
    using i(1) I(1) len(1) by (auto simp: started_def finished_def rr_job_def rr_got_def sent_chunks)
  then have "child_exits (rr_job ws h i) h"
    using rr_jobs_okD(4) [OF T(6) len(1)] I(1,3) by (intro fed_child_exits) (simp_all add: rr_job_def)
  then have child: "rr_child ws h (Ev_Wait r)" using len(1) i(2) by (auto simp: rr_child_def)
  have "rr_obeys ws h (Ev_Wait r)" using T(2) i by simp
  moreover have "rr_jobs_ok ws q ?h"
    using rr_jobs_okD [OF T(6)] i(1) by (auto simp: rr_jobs_ok_def same fed_well_same)
  moreover have "rr_left ws ?h = rr_left ws h" by (simp add: rr_left_def same)
  ultimately show ?thesis
    using T(1-3,5,7-10) child by (simp add: rr_trace_def rr_fds_ok_def)
qed

end
