(* ===== verification/Rr.thy ===== *)
theory Rr
  imports Rr_List Rr_Trace Samples
begin

text \<open>
  \<open>rr.c\<close> obeys the round-robin monitor of \<open>Rr_Trace\<close>: the circular list holds the monitor's queue,
  \<open>remain\<close> its quantum, and every step of the main loop is a step the monitor allows.
\<close>

section \<open>The invariant of the main loop\<close>

definition rr_entry :: "workload \<Rightarrow> nat list \<Rightarrow> event list \<Rightarrow> nat \<Rightarrow> p_struct \<Rightarrow> bool" where
  "rr_entry ws q h i p =
    (p_name p = fst (ws ! i) \<and> r_time p = ready_of ws i \<and> e_time p = exec_of ws i \<and>
     (i < length (pipes h) \<longrightarrow> p_fd p = Some (rr_fd h i) \<and> (\<exists>c. p_pid p = Some c \<and> 0 < c \<and> c \<le> INT_MAX \<and> nth_fork h i c) \<and>
        (rr_got h i = 0 \<longrightarrow> chunks (rr_fd h i) h = [])) \<and>
     (0 < rr_got h i \<longrightarrow> recorded (ts0 p) \<and> started_at h (rr_fd h i) (the (ts0 p))) \<and>
     (i \<in> set q \<or> length (pipes h) \<le> i \<longrightarrow> remain_time p = exec_of ws i - rr_got h i))"

definition rr_arr :: "workload \<Rightarrow> nat list \<Rightarrow> event list \<Rightarrow> p_struct list \<Rightarrow> bool" where
  "rr_arr ws q h arr = (length arr = length ws \<and> (\<forall>i < length ws. rr_entry ws q h i (arr ! i)))"

text \<open>The jobs that are not in the queue any more have ended and been printed, in the same order.\<close>

definition rr_lines :: "nat list \<Rightarrow> event list \<Rightarrow> bool" where
  "rr_lines q h = (\<exists>D. distinct D \<and> set D = {..<length (pipes h)} - set q \<and>
     map fst (completions h) = map (rr_fd h) D \<and> list_all2 (\<lambda>i. line_of_nth h i (rr_fd h i)) D (printed h))"

lemma rr_lines_more:
  assumes "rr_lines q h" "completions (h @ g) = completions h" "printed g = []"
    and "{..<length (pipes (h @ g))} - set q' = {..<length (pipes h)} - set q"
  shows "rr_lines q' (h @ g)"
proof -
  obtain D where D: "distinct D" "set D = {..<length (pipes h)} - set q" "map fst (completions h) = map (rr_fd h) D"
    "list_all2 (\<lambda>i. line_of_nth h i (rr_fd h i)) D (printed h)"
    using assms(1) by (auto simp: rr_lines_def)
  have fd: "rr_fd (h @ g) i = rr_fd h i" if "i \<in> set D" for i
    using that D(2) by (simp add: rr_fd_append)
  have "list_all2 (\<lambda>i. line_of_nth (h @ g) i (rr_fd (h @ g) i)) D (printed (h @ g))"
    using lines_more [OF D(4), of "rr_fd (h @ g)" g] fd assms(3) by simp
  moreover have "map fst (completions (h @ g)) = map (rr_fd (h @ g)) D"
    using D(3) fd assms(2) by simp
  ultimately show ?thesis using D(1,2) assms(4) unfolding rr_lines_def by blast
qed

lemma rr_lines_end:
  assumes "rr_lines (i # q) h" "i < length (pipes h)" "i \<notin> set q"
    and "map fst (completions (h @ g)) = map fst (completions h) @ [rr_fd h i]" "printed g = [l]"
    and "pipes (h @ g) = pipes h" "line_of_nth (h @ g) i (rr_fd h i) l"
  shows "rr_lines q (h @ g)"
proof -
  obtain D where D: "distinct D" "set D = {..<length (pipes h)} - set (i # q)" "map fst (completions h) = map (rr_fd h) D"
    "list_all2 (\<lambda>i. line_of_nth h i (rr_fd h i)) D (printed h)"
    using assms(1) by (auto simp: rr_lines_def)
  have fd: "rr_fd (h @ g) k = rr_fd h k" for k by (simp add: rr_fd_def assms(6))
  have "list_all2 (\<lambda>i. line_of_nth (h @ g) i (rr_fd (h @ g) i)) (D @ [i]) (printed (h @ g))"
    using lines_more [OF D(4), of "rr_fd (h @ g)" g] fd assms(5,7) by (auto intro!: list_all2_appendI)
  moreover have "map fst (completions (h @ g)) = map (rr_fd (h @ g)) (D @ [i])" using D(3) fd assms(4) by simp
  moreover have "distinct (D @ [i])" "set (D @ [i]) = {..<length (pipes (h @ g))} - set q"
    using D(1,2) assms(2,3,6) by auto
  ultimately show ?thesis unfolding rr_lines_def by blast
qed

definition rr_inv :: "workload \<Rightarrow> nat list \<Rightarrow> rr_state \<Rightarrow> process \<Rightarrow> bool" where
  "rr_inv ws q st w =
    (os_ok (sys w) \<and> rr_trace ws q (remain st) (trace w) \<and> (\<forall>i \<in> set q. rr_got (trace w) i < exec_of ws i) \<and>
     0 < remain st \<and> rr_arr ws q (trace w) (p_arr st) \<and> ring (heap_of st) (cur_job st) q \<and>
     next_job st = length (pipes (trace w)) \<and> cur_time st = elapsed (trace w) \<and>
     finish st = int (length (pipes (trace w))) - int (length q) \<and>
     length (fork_pids (trace w)) = length (pipes (trace w)) \<and> rr_lines q (trace w))"

lemma rr_invD:
  assumes "rr_inv ws q st w"
  shows "os_ok (sys w)" "rr_trace ws q (remain st) (trace w)"
    "\<And>i. i \<in> set q \<Longrightarrow> rr_got (trace w) i < exec_of ws i" "0 < remain st" "rr_arr ws q (trace w) (p_arr st)"
    "ring (heap_of st) (cur_job st) q" "next_job st = length (pipes (trace w))" "cur_time st = elapsed (trace w)"
    "finish st = int (length (pipes (trace w))) - int (length q)"
    "length (fork_pids (trace w)) = length (pipes (trace w))" "rr_lines q (trace w)"
  using assms by (auto simp: rr_inv_def)

lemma rr_arrD:
  assumes "rr_arr ws q h arr" "i < length ws"
  shows "i < length arr" "rr_entry ws q h i (arr ! i)"
  using assms by (auto simp: rr_arr_def)

lemma rr_entryD:
  assumes "rr_entry ws q h i p"
  shows "p_name p = fst (ws ! i)" "r_time p = ready_of ws i" "e_time p = exec_of ws i"
    "i < length (pipes h) \<Longrightarrow> p_fd p = Some (rr_fd h i)"
    "i < length (pipes h) \<Longrightarrow> \<exists>c. p_pid p = Some c \<and> 0 < c \<and> c \<le> INT_MAX \<and> nth_fork h i c"
    "0 < rr_got h i \<Longrightarrow> recorded (ts0 p)"
    "i \<in> set q \<or> length (pipes h) \<le> i \<Longrightarrow> remain_time p = exec_of ws i - rr_got h i"
    "0 < rr_got h i \<Longrightarrow> started_at h (rr_fd h i) (the (ts0 p))"
    "i < length (pipes h) \<Longrightarrow> rr_got h i = 0 \<Longrightarrow> chunks (rr_fd h i) h = []"
  using assms by (auto simp: rr_entry_def)

section \<open>Running a job\<close>

lemma length_pad_blank: "length s \<le> n \<Longrightarrow> length (pad_blank n s) = n"
  by (simp add: pad_blank_def)

text \<open>What is known after job \<open>i\<close> has been sent \<open>t\<close>.\<close>

definition rr_sent :: "workload \<Rightarrow> nat \<Rightarrow> nat list \<Rightarrow> int \<Rightarrow> int \<Rightarrow> p_struct list \<Rightarrow> process \<Rightarrow> p_struct list \<Rightarrow> process \<Rightarrow> bool" where
  "rr_sent ws i q left t arr w arr' w' =
    (0 < t \<and> sys w' = sys w \<and> elapsed (trace w') = elapsed (trace w) + t \<and> pipes (trace w') = pipes (trace w) \<and>
     (\<forall>k. rr_got (trace w') k = (if k = i then rr_got (trace w) i + t else rr_got (trace w) k)) \<and>
     last_fd (trace w') = rr_fd (trace w) i \<and> rr_left ws (trace w') = rr_left ws (trace w) - t \<and>
     (t = left \<longrightarrow> rr_got (trace w) i + t < exec_of ws i \<longrightarrow> rr_trace ws (q @ [i]) 500 (trace w')) \<and>
     (t < left \<or> rr_got (trace w) i + t = exec_of ws i \<longrightarrow> rr_trace ws (i # q) (left - t) (trace w')) \<and>
     (\<exists>p'. arr' = arr[i := p'] \<and> recorded (ts0 p') \<and> started_at (trace w') (rr_fd (trace w) i) (the (ts0 p')) \<and>
        p'\<lparr>ts0 := ts0 (arr ! i)\<rparr> = arr ! i) \<and>
     (\<exists>g. trace w' = trace w @ g \<and> printed g = [] \<and> fork_pids g = []) \<and>
     completions (trace w') = completions (trace w) \<and>
     (\<forall>f. f \<noteq> rr_fd (trace w) i \<longrightarrow> chunks f (trace w') = chunks f (trace w)))"

lemma run_job_keeps:
  assumes t: "rr_trace ws (i # q) left (trace w)" and os: "os_ok (sys w)" and arr: "rr_arr ws (i # q) (trace w) arr"
    and b: "0 < t" "t \<le> left" "rr_got (trace w) i + t \<le> exec_of ws i"
    and later: "length (pipes (trace w)) < length ws \<Longrightarrow> elapsed (trace w) + t \<le> ready_of ws (length (pipes (trace w)))"
  shows "wp (run_job i t arr) (rr_sent ws i q left t arr w) never w"
proof -
  note T = rr_traceD [OF t]
  have i: "i < length (pipes (trace w))" "i < length ws" using T(5,11) by auto
  have p: "i < length arr" and entry: "rr_entry ws (i # q) (trace w) i (arr ! i)"
    using rr_arrD [OF arr i(2)] by auto
  note P = rr_entryD [OF entry]
  obtain c where c: "p_pid (arr ! i) = Some c" using P(5) i(1) by auto
  have tb: "t \<le> INT_MAX"
    using rr_inputD(3) [OF T(1) i(2)] b(3) rr_got_nonneg [of "trace w" i] by linarith
  have len: "length (pad_blank 12 (show_int t)) = 12"
    using length_show_int [of t] tb b(1) by (intro length_pad_blank) simp
  define s where "s = pad_blank 12 (show_int t) @ '' ''"
  have s: "units s = t" "is_chunk s t" "length s < STR_SIZE" "take 13 s = s"
    using b(1) tb len by (simp_all add: s_def is_chunk_def STR_SIZE_def)
  define now where "now = clock_now (sys w) (trace w)"
  define first where "first = (remain_time (arr ! i) = e_time (arr ! i))"
  define w1 where "w1 = (if first then log_event (Ev_Gettime now) w else w)"
  define p1 where "p1 = (if first then (arr ! i)\<lparr>ts0 := Some now\<rparr> else arr ! i)"
  have now: "time_ok now" using os_ok_time [OF os] by (simp add: now_def)
  have t1: "rr_trace ws (i # q) left (trace w1)"
    using t rr_trace_silent [OF t, of "Ev_Gettime now"] by (simp add: w1_def)
  have same: "rr_fd (trace w1) = rr_fd (trace w)" "rr_got (trace w1) = rr_got (trace w)" "pipes (trace w1) = pipes (trace w)"
    "elapsed (trace w1) = elapsed (trace w)" "rr_left ws (trace w1) = rr_left ws (trace w)" "sys w1 = sys w"
    using rr_same_pipes [where e = "Ev_Gettime now" and h = "trace w"] by (auto simp: w1_def rr_left_def)
  let ?h2 = "trace w1 @ [Ev_Write (rr_fd (trace w1) i) s]"
  define w3 where "w3 = log_event (Ev_Setscheduler c 99 0) (log_event (Ev_Write (rr_fd (trace w) i) s) w1)"
  have h3: "trace w3 = ?h2 @ [Ev_Setscheduler c 99 0]" by (simp add: w3_def same(1))
  note wr = rr_trace_write [OF t1 s(1,2) b(1,2), unfolded same, OF b(3) later]
  have "recorded (ts0 p1)"
  proof (cases first)
    case True
    then show ?thesis using now by (simp add: p1_def recorded_def)
  next
    case False
    then have "0 < rr_got (trace w) i" using P(3,7) by (simp add: first_def order_less_le)
    then show ?thesis using P(6) False by (simp add: p1_def)
  qed
  moreover have "stamped (trace w1) (rr_fd (trace w) i) (ts0 p1)"
  proof (cases first)
    case True
    then have "rr_got (trace w) i = 0" using P(3,7) by (simp add: first_def)
    then show ?thesis using P(9) i(1) True by (auto simp: stamped_def w1_def p1_def)
  next
    case False
    then have "0 < rr_got (trace w) i" using P(3,7) by (simp add: first_def order_less_le)
    then have "chunks (rr_fd (trace w) i) (trace w) \<noteq> []" using i(1) by (auto simp: rr_got_def sent_chunks)
    then show ?thesis using False by (simp add: stamped_def w1_def)
  qed
  then have "started_at ?h2 (rr_fd (trace w1) i) (the (ts0 p1))"
    unfolding same(1)
  proof (rule stamped_write)
    assume c: "chunks (rr_fd (trace w) i) (trace w1) \<noteq> []"
    then have "rr_got (trace w) i \<noteq> 0" using P(9) i(1) by (auto simp: w1_def split: if_splits)
    then have "0 < rr_got (trace w) i" by (simp add: order_less_le)
    moreover from this have "\<not> first" using P(3,7) by (simp add: first_def)
    ultimately show "started_at (trace w1) (rr_fd (trace w) i) (the (ts0 p1))" using P(8) by (simp add: w1_def p1_def)
  qed
  then have "started_at (trace w3) (rr_fd (trace w) i) (the (ts0 p1))"
    unfolding h3 same(1) by (rule stamps_more)
  moreover have "\<exists>g. trace w3 = trace w @ g \<and> printed g = [] \<and> fork_pids g = []"
    by (cases first) (auto simp: w3_def w1_def)
  moreover have "completions (trace w3) = completions (trace w)"
    "\<And>f. f \<noteq> rr_fd (trace w) i \<Longrightarrow> chunks f (trace w3) = chunks f (trace w)"
    by (auto simp: w3_def w1_def simp del: append_assoc)
  moreover have "p1\<lparr>ts0 := ts0 (arr ! i)\<rparr> = arr ! i" by (simp add: p1_def)
  moreover have "rr_got (trace w3) k = (if k = i then rr_got (trace w) i + t else rr_got (trace w) k)" for k
    using rr_write_got [OF t1 _ s(1), of i k] i(1) rr_same_pipes(2) [where e = "Ev_Setscheduler c 99 0" and h = ?h2]
    by (simp add: h3 same)
  moreover have "rr_trace ws (q @ [i]) 500 (trace w3)" if "t = left" "rr_got (trace w) i + t < exec_of ws i"
    unfolding h3 by (rule rr_trace_silent) (use wr(1) that in \<open>simp_all add: same\<close>)
  moreover have "rr_trace ws (i # q) (left - t) (trace w3)" if "t < left \<or> rr_got (trace w) i + t = exec_of ws i"
    unfolding h3 by (rule rr_trace_silent) (use wr(2) that in \<open>simp_all add: same\<close>)
  moreover have "rr_left ws (trace w3) = rr_left ws (trace w) - t"
    using wr(3) rr_same_pipes(2) [where e = "Ev_Setscheduler c 99 0" and h = ?h2]
    by (simp add: h3 same rr_left_def)
  ultimately have "rr_sent ws i q left t arr w (arr[i := p1]) w3"
    using s(1) b(1) by (auto simp: rr_sent_def w3_def same simp del: append_assoc)
  moreover have "p_fd p1 = Some (rr_fd (trace w) i)" "p_pid p1 = Some c"
    using P(4) i(1) c by (simp_all add: p1_def)
  ultimately show ?thesis
    using b(1) p s os_ok_setscheduler [OF os]
    by (cases first) (simp_all add: run_job_def wp_rules first_def [symmetric] s_def [symmetric]
        now_def [symmetric] w1_def p1_def w3_def)
qed

section \<open>A round of the main loop\<close>

definition rr_good :: "workload \<Rightarrow> rr_state \<Rightarrow> process \<Rightarrow> bool" where
  "rr_good ws st w = (\<exists>q. rr_inv ws q st w)"

definition rr_rank :: "workload \<Rightarrow> rr_state \<Rightarrow> process \<Rightarrow> nat" where
  "rr_rank ws st w = nat (rr_left ws (trace w)) + 2 * (length ws - next_job st) +
     2 * nat (int (length ws) - finish st) +
     (if next_job st < length ws \<and> ready_of ws (next_job st) = cur_time st then 0 else 1)"

definition rr_bound :: "workload \<Rightarrow> rr_state \<Rightarrow> process \<Rightarrow> nat" where
  "rr_bound ws st w = nat (rr_left ws (trace w)) + 2 * (length ws - next_job st) +
     2 * nat (int (length ws) - finish st) + 1"

lemma rr_entry_later:
  assumes "rr_entry ws q h i p" "i < length (pipes h') \<longleftrightarrow> i < length (pipes h)"
    and "i < length (pipes h) \<Longrightarrow> rr_fd h' i = rr_fd h i" "rr_got h' i = rr_got h i"
    and "i \<in> set q' \<Longrightarrow> i \<in> set q \<or> length (pipes h) \<le> i"
    and g: "\<exists>g. h' = h @ g" and "i < length (pipes h) \<Longrightarrow> chunks (rr_fd h i) h' = chunks (rr_fd h i) h"
  shows "rr_entry ws q' h' i p"
proof -
  have "nth_fork h' i c" if "nth_fork h i c" for c using that g nth_fork_more by blast
  moreover have "started_at h' f t" if "started_at h f t" for f t using that g stamps_more(2) by blast
  moreover have "0 < rr_got h i \<Longrightarrow> i < length (pipes h)" by (simp add: rr_got_def split: if_splits)
  ultimately show ?thesis using assms(1-5,7) unfolding rr_entry_def by (auto simp: not_le [symmetric])
qed

lemma rr_entry_same:
  assumes "rr_entry ws q h i p" "pipes h' = pipes h" "rr_got h' i = rr_got h i"
    and "i \<in> set q' \<Longrightarrow> i \<in> set q \<or> length (pipes h) \<le> i"
    and "\<exists>g. h' = h @ g" "i < length (pipes h) \<Longrightarrow> chunks (rr_fd h i) h' = chunks (rr_fd h i) h"
  shows "rr_entry ws q' h' i p"
  by (rule rr_entry_later [OF assms(1) _ _ assms(3-6)]) (simp_all add: assms(2) rr_fd_def)

lemma same_but_ts0: "p\<lparr>ts0 := x\<rparr> = q \<Longrightarrow> p_name p = p_name q \<and> r_time p = r_time q \<and> e_time p = e_time q \<and>
    ts1 p = ts1 q \<and> p_pid p = p_pid q \<and> remain_time p = remain_time q \<and> p_fd p = p_fd q"
  by auto

lemma same_but_remain: "p\<lparr>remain_time := x, ts1 := y\<rparr> = q \<Longrightarrow> p_name p = p_name q \<and> r_time p = r_time q \<and>
    e_time p = e_time q \<and> ts0 p = ts0 q \<and> p_pid p = p_pid q \<and> p_fd p = p_fd q"
  by auto

text \<open>The array after job \<open>i\<close> was sent \<open>t\<close> and its remaining time lowered.\<close>

lemma rr_arr_sent:
  assumes arr: "rr_arr ws (i # q) (trace w) arr" and s: "rr_sent ws i q left t arr w arr' w'" and i: "i < length ws"
    and r: "i \<in> set q' \<Longrightarrow> remain_time p' = exec_of ws i - (rr_got (trace w) i + t)"
    and p': "p'\<lparr>remain_time := remain_time (arr' ! i), ts1 := ts1 (arr' ! i)\<rparr> = arr' ! i"
    and pipes: "i < length (pipes (trace w))" and q': "set q' \<subseteq> set (i # q)" and fds: "rr_fds_ok (trace w)"
  shows "rr_arr ws q' (trace w') (arr'[i := p'])"
proof -
  obtain p1 where p1: "arr' = arr[i := p1]" "recorded (ts0 p1)" "p1\<lparr>ts0 := ts0 (arr ! i)\<rparr> = arr ! i"
    and begun: "started_at (trace w') (rr_fd (trace w) i) (the (ts0 p1))"
    using s by (auto simp: rr_sent_def)
  obtain g where g: "trace w' = trace w @ g" using s by (auto simp: rr_sent_def)
  have t: "0 < t" and others: "\<And>f. f \<noteq> rr_fd (trace w) i \<Longrightarrow> chunks f (trace w') = chunks f (trace w)"
    using s by (auto simp: rr_sent_def)
  have S: "pipes (trace w') = pipes (trace w)"
    "\<And>k. rr_got (trace w') k = (if k = i then rr_got (trace w) i + t else rr_got (trace w) k)"
    using s by (auto simp: rr_sent_def)
  have len: "length arr = length ws" using arr by (simp add: rr_arr_def)
  have e: "rr_entry ws (i # q) (trace w) i (arr ! i)" using rr_arrD(2) [OF arr i] .
  have "p_name p' = p_name (arr ! i)" "r_time p' = r_time (arr ! i)" "e_time p' = e_time (arr ! i)"
    "p_pid p' = p_pid (arr ! i)" "p_fd p' = p_fd (arr ! i)" "ts0 p' = ts0 p1"
    using same_but_ts0 [OF p1(3)] same_but_remain [OF p'] i len by (simp_all add: p1(1))
  moreover have "0 < rr_got (trace w') i" using t rr_got_nonneg [of "trace w" i] by (simp add: S(2) add_nonneg_pos del: rr_got_nonneg)
  moreover have "rr_fd (trace w') i = rr_fd (trace w) i" by (simp add: rr_fd_def S(1))
  moreover have "\<And>c. nth_fork (trace w) i c \<Longrightarrow> nth_fork (trace w') i c" by (simp add: g nth_fork_more)
  ultimately have "rr_entry ws q' (trace w') i p'"
    using e p1(2) r S pipes begun by (auto simp: rr_entry_def)
  moreover have "rr_entry ws q' (trace w') k (arr ! k)" if k: "k < length ws" "k \<noteq> i" for k
  proof -
    have "k < length (pipes (trace w)) \<Longrightarrow> rr_fd (trace w) k \<noteq> rr_fd (trace w) i"
      using k(2) pipes rr_fd_inj [OF fds] by blast
    then show ?thesis
      by (intro rr_entry_same [OF rr_arrD(2) [OF arr k(1)]]) (use S q' k g others in auto)
  qed
  ultimately show ?thesis
    using len i unfolding rr_arr_def p1(1) by (auto simp: nth_list_update)
qed

lemma forkDue_keeps:
  assumes inv: "rr_inv ws q st w"
  shows "wp (forkDue (length ws) st) (\<lambda>st' w'. rr_good ws st' w' \<and> finish st' = finish st \<and> rr_bound ws st' w' \<le> rr_rank ws st w) never w"
proof -
  note I = rr_invD [OF inv]
  note T = rr_traceD [OF I(2)]
  let ?m = "length (pipes (trace w))" and ?n = "length ws"
  have len: "length (p_arr st) = ?n" using I(5) by (simp add: rr_arr_def)
  have good: "rr_good ws st w" using inv by (auto simp: rr_good_def)
  show ?thesis
  proof (cases "?m < ?n \<and> ready_of ws ?m = elapsed (trace w)")
    case False
    have "?m < ?n \<Longrightarrow> r_time (p_arr st ! ?m) = ready_of ws ?m"
      using rr_entryD(2) [OF rr_arrD(2) [OF I(5)]] .
    then show ?thesis
      using False good I(7,8) len by (auto simp: forkDue_def wp_rules rr_bound_def rr_rank_def)
  next
    case True
    obtain r s where p: "pipe_fds (sys w) (trace w) = Some (r, s)" "r \<noteq> s" "r \<notin> open_fds (trace w)" "s \<notin> open_fds (trace w)"
      using os_ok_pipe [OF I(1)] by blast
    note tp = rr_trace_pipe [OF I(2) _ _ p(2-4)]
    let ?e = "p_arr st ! ?m"
    have e: "rr_entry ws q (trace w) ?m ?e" using rr_arrD(2) [OF I(5)] True by blast
    define h1 where "h1 = trace w @ [Ev_Pipe r s]"
    have t1: "rr_trace ws (q @ [?m]) (remain st) h1" and r: "r \<notin> snd ` set (pipes h1)"
      using tp True by (simp_all add: h1_def)
    define h3 where "h3 = (h1 @ [Ev_Cloexec r]) @ [Ev_Cloexec s]"
    define c where "c = fork_ret (sys w) h3"
    have c: "0 < c" "c \<le> INT_MAX" using os_ok_fork [OF I(1)] by (simp_all add: c_def)
    define h5 where "h5 = (h3 @ [Ev_Fork c]) @ [Ev_Close r]"
    have p5: "pipes h5 = pipes (trace w) @ [(r, s)]" "elapsed h5 = elapsed (trace w)" "sent f h5 = sent f (trace w)" for f
      by (simp_all add: h5_def h3_def h1_def del: append_assoc)
    have t5: "rr_trace ws (q @ [?m]) (remain st) h5"
      unfolding h5_def h3_def by (intro rr_trace_silent t1) (use r in \<open>simp_all del: append_assoc\<close>)
    have "s \<notin> snd ` set (pipes (trace w))" using T(7) p(4) by (auto simp: rr_fds_ok_def)
    then have "writes s (trace w) = []" using T(7) by (simp add: rr_fds_ok_def)
    then have chunk: "sent s (trace w) = 0" by (simp add: sent_chunks chunks_def)
    have got: "rr_got h5 i = rr_got (trace w) i" for i
      using chunk by (auto simp: rr_got_def rr_fd_def p5 nth_append less_Suc_eq)
    define arr' where "arr' = (p_arr st)[?m := ?e\<lparr>p_pid := Some c, p_fd := Some s\<rparr>]"
    have g5: "h5 = trace w @ [Ev_Pipe r s, Ev_Cloexec r, Ev_Cloexec s, Ev_Fork c, Ev_Close r]"
      by (simp add: h5_def h3_def h1_def)
    have ex_g: "\<exists>g. h5 = trace w @ g" unfolding g5 by blast
    have chunks5: "chunks f h5 = chunks f (trace w)" for f
      by (simp add: h5_def h3_def h1_def del: append_assoc)
    have fd5: "rr_fd h5 k = (if k < ?m then rr_fd (trace w) k else s)" if "k \<le> ?m" for k
      using that by (auto simp: rr_fd_def p5 nth_append)
    have arr: "rr_arr ws (q @ [?m]) h5 arr'"
      unfolding rr_arr_def
    proof (intro conjI allI impI)
      show "length arr' = ?n" by (simp add: arr'_def len)
      fix k assume k: "k < ?n"
      then have entry: "rr_entry ws q (trace w) k (p_arr st ! k)" using rr_arrD(2) [OF I(5)] by blast
      show "rr_entry ws (q @ [?m]) h5 k (arr' ! k)"
      proof (cases "k = ?m")
        case True
        have "nth_fork h5 ?m c" using I(10) by (simp add: nth_fork_def g5 nth_append)
        moreover have "chunks s (trace w) = []" using \<open>writes s (trace w) = []\<close> by (simp add: chunks_def)
        then have "chunks s h5 = []" by (simp only: chunks5)
        moreover have "rr_got h5 ?m = 0" by (simp add: got) (simp add: rr_got_def)
        ultimately show ?thesis
          using True entry c k len fd5 [of ?m] by (simp add: rr_entry_def arr'_def p5 got)
      next
        case False
        then have "rr_entry ws (q @ [?m]) h5 k (p_arr st ! k)"
          using fd5 [of k] ex_g by (intro rr_entry_later [OF entry]) (auto simp: p5 got chunks5)
        then show ?thesis using False by (simp add: arr'_def)
      qed
    qed
    have "{..<length (pipes h5)} - set (q @ [?m]) = {..<?m} - set q" using T(11) by (auto simp: p5)
    moreover have "completions h5 = completions (trace w)" by (simp add: h5_def h3_def h1_def del: append_assoc)
    ultimately have lines: "rr_lines (q @ [?m]) h5"
      using rr_lines_more [OF I(11), of _ "q @ [?m]"] unfolding g5 by simp
    have add: "wp (add_list (cur_job st) ?m (heap_of st)) (\<lambda>v w'. ring (snd v) (fst v) (q @ [?m]) \<and> w' = w\<lparr>trace := h5\<rparr>)
        never (w\<lparr>trace := h5\<rparr>)"
      by (rule rr_list.add_law [OF I(6)])
    have "wp (bind (add_list (cur_job st) ?m (heap_of st)) (\<lambda>(job, H).
        return (st\<lparr>p_arr := arr', cur_job := job, heap_of := H, next_job := ?m + 1\<rparr>)))
        (\<lambda>st' w'. rr_good ws st' w' \<and> finish st' = finish st \<and> rr_bound ws st' w' \<le> rr_rank ws st w) never (w\<lparr>trace := h5\<rparr>)"
      unfolding wp_bind
    proof (rule wp_mono [OF add])
      fix v and w' :: process
      assume v: "ring (snd v) (fst v) (q @ [?m]) \<and> w' = w\<lparr>trace := h5\<rparr>"
      let ?st = "st\<lparr>p_arr := arr', cur_job := fst v, heap_of := snd v, next_job := ?m + 1\<rparr>"
      have alive: "rr_got h5 i < exec_of ws i" if "i \<in> set (q @ [?m])" for i
      proof -
        have "rr_got (trace w) ?m = 0" by (simp add: rr_got_def)
        then show ?thesis unfolding got using that I(3) rr_inputD(1) [OF T(1), of ?m] True by auto
      qed
      have inv': "rr_inv ws (q @ [?m]) ?st w'"
        using v I t5 arr alive lines by (auto simp: rr_inv_def p5) (simp add: g5)
      have "rr_left ws h5 = rr_left ws (trace w)" by (simp add: rr_left_def got)
      moreover have "Suc (2 * (?n - Suc ?m)) \<le> 2 * (?n - ?m)" using True by arith
      ultimately have "rr_bound ws ?st w' \<le> rr_rank ws st w"
        using True v I(7-9) by (simp add: rr_bound_def rr_rank_def)
      then show "wp (case v of (job, H) \<Rightarrow> return (st\<lparr>p_arr := arr', cur_job := job, heap_of := H, next_job := ?m + 1\<rparr>))
          (\<lambda>st' w'. rr_good ws st' w' \<and> finish st' = finish st \<and> rr_bound ws st' w' \<le> rr_rank ws st w) never w'"
        using inv' by (cases v) (auto simp: wp_return rr_good_def)
    qed simp
    then show ?thesis
      using True I(7,8) len p c rr_entryD(2) [OF e]
      by (simp add: forkDue_def fork_child_def wp_rules arr'_def h1_def h3_def h5_def c_def)
  qed
qed

text \<open>Nothing to run: wait for the next job.\<close>

text \<open>A stretch of the trace without forks, printed lines and ends of jobs.\<close>

definition rr_quiet :: "event list \<Rightarrow> event list \<Rightarrow> bool" where
  "rr_quiet h h' = (pipes h' = pipes h \<and> fork_pids h' = fork_pids h \<and> completions h' = completions h \<and>
     (\<exists>g. h' = h @ g \<and> printed g = []))"

lemma rr_quiet_refl [simp]: "rr_quiet h h"
  by (simp add: rr_quiet_def)

lemma rr_quiet_more:
  assumes "rr_quiet h h'" "pipe_of e = []" "forked_pid e = []" "printed_line e = []" "\<not> is_wait e"
  shows "rr_quiet h (h' @ [e])"
proof -
  obtain g where g: "h' = h @ g" "printed g = []" using assms(1) by (auto simp: rr_quiet_def)
  have "completions (h' @ [e]) = completions h'" using assms(5) by (cases e) simp_all
  moreover have "\<exists>g. h' @ [e] = h @ g \<and> printed g = []"
    using g assms(4) by (intro exI [of _ "g @ [e]"]) simp
  ultimately show ?thesis using assms(1-3) by (simp add: rr_quiet_def)
qed

lemma rr_quiet_lines:
  assumes "rr_quiet h h'" "rr_lines q h" "set q' = set q"
  shows "rr_lines q' h'"
proof -
  obtain g where "h' = h @ g" "printed g = []" "pipes (h @ g) = pipes h" "completions (h @ g) = completions h"
    using assms(1) by (auto simp: rr_quiet_def)
  then show ?thesis using rr_lines_more [OF assms(2), of g q'] assms(3) by simp
qed

lemma wait_for_job_keeps:
  assumes inv: "rr_trace ws [] left (trace w)" and n: "length (pipes (trace w)) < length ws"
    and t: "t = ready_of ws (length (pipes (trace w))) - elapsed (trace w)" and arr: "rr_arr ws [] (trace w) arr"
  shows "wp (wait_for_job t) (\<lambda>_ w'. sys w' = sys w \<and> rr_trace ws [] left (trace w') \<and> rr_arr ws [] (trace w') arr \<and>
    pipes (trace w') = pipes (trace w) \<and> rr_left ws (trace w') = rr_left ws (trace w) \<and>
    rr_quiet (trace w) (trace w') \<and>
    elapsed (trace w') = ready_of ws (length (pipes (trace w)))) never w"
proof -
  let ?r = "ready_of ws (length (pipes (trace w)))"
  let ?I = "\<lambda>t w'. sys w' = sys w \<and> rr_trace ws [] left (trace w') \<and> rr_arr ws [] (trace w') arr \<and>
    pipes (trace w') = pipes (trace w) \<and> rr_left ws (trace w') = rr_left ws (trace w) \<and>
    rr_quiet (trace w) (trace w') \<and>
    t = ?r - elapsed (trace w') \<and> 0 \<le> t"
  note T = rr_traceD [OF inv]
  have bounds: "?r \<le> INT_MAX" using rr_inputD(4) [OF T(1) n] .
  show ?thesis unfolding wait_for_job_def
  proof (rule wp_whileM [where I = ?I and \<mu> = "\<lambda>t w. nat t"])
    show "?I t w" using rr_quiet_refl inv t arr rr_jobs_okD(5) [OF T(6) order_refl n] by simp
  next
    fix t and w' :: process assume I: "?I t w'" and pos: "0 < t"
    then have I': "rr_trace ws [] left (trace w')" "pipes (trace w') = pipes (trace w)" "t = ?r - elapsed (trace w')"
      "rr_arr ws [] (trace w') arr" "rr_left ws (trace w') = rr_left ws (trace w)" "sys w' = sys w" "rr_quiet (trace w) (trace w')" by blast+
    let ?w = "log_event Ev_Spin w'"
    note same = rr_same_pipes [where e = Ev_Spin and h = "trace w'"]
    have "rr_trace ws [] left (trace ?w)"
      using rr_trace_spin [OF I'(1)] I'(2,3) pos n by simp
    moreover have "rr_arr ws [] (trace ?w) arr"
      using I'(4) unfolding rr_arr_def by (auto intro!: rr_entry_same [where h = "trace w'" and h' = "trace w' @ [Ev_Spin]"] simp: same)
    moreover have "rr_left ws (trace ?w) = rr_left ws (trace w')" by (simp add: rr_left_def same)
    moreover have "rr_quiet (trace w) (trace ?w)" using rr_quiet_more [OF I'(7), of Ev_Spin] by simp
    moreover have "t \<le> INT_MAX" using I'(3) bounds elapsed_nonneg [of "trace w'"] by linarith
    moreover have "elapsed (trace ?w) = elapsed (trace w') + 1" "pipes (trace ?w) = pipes (trace w)" "sys ?w = sys w"
      using I' by simp_all
    moreover have "wp (andThen spin (sub_i t 1)) Q never w' = Q (t - 1) ?w" if "t \<le> INT_MAX" for Q
      using that pos by (simp add: wp_rules)
    ultimately show "wp (andThen spin (sub_i t 1)) (\<lambda>t' w''. ?I t' w'' \<and> nat t' < nat t) never w'"
      using I'(3,5) pos by simp
  next
    fix t and w' :: process assume "?I t w'" "\<not> 0 < t"
    then show "sys w' = sys w \<and> rr_trace ws [] left (trace w') \<and> rr_arr ws [] (trace w') arr \<and>
      pipes (trace w') = pipes (trace w) \<and> rr_left ws (trace w') = rr_left ws (trace w) \<and> rr_quiet (trace w) (trace w') \<and> elapsed (trace w') = ?r"
      by linarith
  qed
qed

lemma rr_idle_keeps:
  assumes inv: "rr_inv ws [] st w" and n: "finish st < int (length ws)"
  shows "wp (idleUntilNext st) (\<lambda>st' w'. rr_good ws st' w' \<and> rr_rank ws st' w' < rr_bound ws st w) never w"
proof -
  note I = rr_invD [OF inv]
  note T = rr_traceD [OF I(2)]
  let ?m = "length (pipes (trace w))"
  have m: "?m < length ws" using I(9) n by simp
  have len: "length (p_arr st) = length ws" using I(5) by (simp add: rr_arr_def)
  have r: "r_time (p_arr st ! ?m) = ready_of ws ?m" using rr_entryD(2) [OF rr_arrD(2) [OF I(5) m]] .
  have e: "0 \<le> elapsed (trace w)" "elapsed (trace w) \<le> ready_of ws ?m" "ready_of ws ?m \<le> INT_MAX"
    using rr_jobs_okD(5) [OF T(6) order_refl m] rr_inputD(4) [OF T(1) m]
    by simp_all
  have d: "INT_MIN \<le> ready_of ws ?m - elapsed (trace w)" "ready_of ws ?m - elapsed (trace w) \<le> INT_MAX"
    using e by linarith+
  note w = wait_for_job_keeps [OF I(2) m refl I(5)]
  let ?st = "st\<lparr>cur_time := ready_of ws ?m, remain := TIME_QUANTUM\<rparr>"
  have "wp (wait_for_job (ready_of ws ?m - elapsed (trace w)))
      (\<lambda>_ w'. rr_good ws ?st w' \<and> rr_rank ws ?st w' < rr_bound ws st w) never w"
  proof (rule wp_mono [OF w])
    fix a and w' :: process
    assume post: "sys w' = sys w \<and> rr_trace ws [] (remain st) (trace w') \<and> rr_arr ws [] (trace w') (p_arr st) \<and>
      pipes (trace w') = pipes (trace w) \<and> rr_left ws (trace w') = rr_left ws (trace w) \<and>
      rr_quiet (trace w) (trace w') \<and> elapsed (trace w') = ready_of ws ?m"
    have "remain st = 500" using T(4) by simp
    then have "rr_inv ws [] ?st w'"
      using I post rr_quiet_lines [of "trace w" "trace w'" "[]" "[]"]
      by (simp add: rr_inv_def TIME_QUANTUM_def) (simp add: rr_quiet_def)
    moreover have "rr_rank ws ?st w' < rr_bound ws st w"
      using post I(7) m by (simp add: rr_rank_def rr_bound_def)
    ultimately show "rr_good ws ?st w' \<and> rr_rank ws ?st w' < rr_bound ws st w" by (auto simp: rr_good_def)
  qed simp
  then show ?thesis
    using m len r I(7,8) by (simp add: idleUntilNext_def wp_bind wp_andThen wp_at wp_return_fun wp_sub_ok [OF d])
qed

lemma wp_arrivesFirst:
  assumes inv: "rr_inv ws q st w"
  shows "wp (arrivesFirst (length ws) left st) Q never w =
    Q (if next_job st < length ws \<and> ready_of ws (next_job st) - cur_time st < remain st \<and>
          ready_of ws (next_job st) - cur_time st < left
       then Some (ready_of ws (next_job st) - cur_time st) else None) w"
proof (cases "next_job st < length ws")
  case True
  note I = rr_invD [OF inv]
  note T = rr_traceD [OF I(2)]
  have m: "length (pipes (trace w)) < length ws" using True I(7) by simp
  have "r_time (p_arr st ! next_job st) = ready_of ws (next_job st)" "next_job st < length (p_arr st)"
    using rr_arrD [OF I(5) m] rr_entryD(2) I(7) by auto
  moreover have "0 \<le> elapsed (trace w)" "elapsed (trace w) \<le> ready_of ws (next_job st)" "ready_of ws (next_job st) \<le> INT_MAX"
    using rr_jobs_okD(5) [OF T(6) order_refl m] rr_inputD(4) [OF T(1) m] I(7)
    by simp_all
  moreover from this have "ready_of ws (next_job st) - elapsed (trace w) \<le> INT_MAX"
    using elapsed_nonneg [of "trace w"] by linarith
  ultimately show ?thesis
    using True I(8) by (auto simp: arrivesFirst_def wp_rules)
qed (simp add: arrivesFirst_def wp_rules)

text \<open>The facts the three ways of running the head share.\<close>

lemma rr_head:
  assumes inv: "rr_inv ws q st w" and job: "cur_job st = Some job"
  obtains i q' where "q = i # q'" "\<exists>n. nodes (heap_of st) job = Some n \<and> node_process n = i"
    "i < length (pipes (trace w))" "i < length ws" "i < length (p_arr st)" "i \<notin> set q'"
    "remain_time (p_arr st ! i) = exec_of ws i - rr_got (trace w) i"
    "0 < exec_of ws i - rr_got (trace w) i" "exec_of ws i - rr_got (trace w) i \<le> INT_MAX"
    "exec_of ws i - rr_got (trace w) i \<le> rr_left ws (trace w)" "0 \<le> elapsed (trace w)" "remain st \<le> 500"
    "elapsed (trace w) + rr_left ws (trace w) \<le> INT_MAX"
proof -
  note I = rr_invD [OF inv]
  note T = rr_traceD [OF I(2)]
  have ring: "ring (heap_of st) (Some job) q" using I(6) job by simp
  obtain i q' where q: "q = i # q'" using ring_node(2) [OF ring] by (cases q) auto
  have i: "i < length (pipes (trace w))" "i < length ws" using T(5,11) q by auto
  have e: "rr_entry ws q (trace w) i (p_arr st ! i)" "i < length (p_arr st)" using rr_arrD [OF I(5) i(2)] by auto
  have alive: "rr_got (trace w) i < exec_of ws i" using I(3) q by simp
  have "exec_of ws i - rr_got (trace w) i \<le> INT_MAX"
    using rr_inputD(3) [OF T(1) i(2)] rr_got_nonneg [of "trace w" i] by linarith
  moreover have "0 \<le> elapsed (trace w)" by simp
  ultimately show ?thesis
    using that [OF q _ i e(2)] ring_node(1) [OF ring] q T(3,8,13) rr_entryD(7) [OF e(1)] alive
      rr_left_bounds(3) [OF I(2) i(2)] by auto
qed

lemma rr_sentD:
  assumes "rr_sent ws i q left t arr w arr' w'"
  shows "sys w' = sys w" "elapsed (trace w') = elapsed (trace w) + t" "pipes (trace w') = pipes (trace w)"
    "\<And>k. rr_got (trace w') k = (if k = i then rr_got (trace w) i + t else rr_got (trace w) k)"
    "last_fd (trace w') = rr_fd (trace w) i" "rr_left ws (trace w') = rr_left ws (trace w) - t"
    "t = left \<Longrightarrow> rr_got (trace w) i + t < exec_of ws i \<Longrightarrow> rr_trace ws (q @ [i]) 500 (trace w')"
    "t < left \<or> rr_got (trace w) i + t = exec_of ws i \<Longrightarrow> rr_trace ws (i # q) (left - t) (trace w')"
    "\<exists>p'. arr' = arr[i := p'] \<and> recorded (ts0 p') \<and> started_at (trace w') (rr_fd (trace w) i) (the (ts0 p')) \<and>
       p'\<lparr>ts0 := ts0 (arr ! i)\<rparr> = arr ! i"
    "\<exists>g. trace w' = trace w @ g \<and> printed g = [] \<and> fork_pids g = []"
    "completions (trace w') = completions (trace w)"
  using assms by (auto simp: rr_sent_def)

lemma rr_sent_lines:
  assumes s: "rr_sent ws i q left t arr w arr' w'" and "rr_lines q0 (trace w)" "set q' = set q0"
  shows "rr_lines q' (trace w')" "length (fork_pids (trace w')) = length (fork_pids (trace w))"
proof -
  note S = rr_sentD [OF s]
  obtain g where g: "trace w' = trace w @ g" "printed g = []" "fork_pids g = []" using S(10) by blast
  show "rr_lines q' (trace w')"
    unfolding g(1) by (rule rr_lines_more [OF assms(2)]) (use S(3,11) g assms(3) in auto)
  show "length (fork_pids (trace w')) = length (fork_pids (trace w))" by (simp add: g)
qed

text \<open>The next job arrives first.\<close>

lemma runToFork_keeps:
  assumes inv: "rr_inv ws q st w" and job: "cur_job st = Some job" and q: "q = i # q'"
    and n: "next_job st < length ws" and t: "t = ready_of ws (next_job st) - cur_time st"
      "t < remain st" "t < exec_of ws i - rr_got (trace w) i"
  shows "wp (runToFork i t st) (\<lambda>st' w'. rr_good ws st' w' \<and> rr_rank ws st' w' < rr_bound ws st w) never w"
proof -
  note I = rr_invD [OF inv]
  note T = rr_traceD [OF I(2)]
  obtain i' q'' where H: "q = i' # q''"
    "i' < length (pipes (trace w))" "i' < length ws" "i' < length (p_arr st)" "i' \<notin> set q''"
    "remain_time (p_arr st ! i') = exec_of ws i' - rr_got (trace w) i'"
    "exec_of ws i' - rr_got (trace w) i' \<le> INT_MAX" "exec_of ws i' - rr_got (trace w) i' \<le> rr_left ws (trace w)"
    "remain st \<le> 500"
    using rr_head [OF inv job] by metis
  have ii: "i' = i" "q'' = q'" using H(1) q by simp_all
  note H = H [unfolded ii]
  have m: "length (pipes (trace w)) < length ws" "next_job st = length (pipes (trace w))" using n I(7) by simp_all
  have rdy: "r_time (p_arr st ! next_job st) = ready_of ws (next_job st)" "next_job st < length (p_arr st)"
    using rr_arrD [OF I(5) m(1)] rr_entryD(2) m(2) by auto
  have neq: "next_job st \<noteq> i" using H(2) m(2) by simp
  have t0: "0 \<le> t" using rr_jobs_okD(5) [OF T(6) order_refl m(1)] t(1) I(8) m(2) by simp
  have left: "0 \<le> rr_left ws (trace w)" by (rule rr_left_bounds(1) [OF I(2)])
  let ?P = "\<lambda>arr' w'. wp (bind (sub_i (remain st) t) (\<lambda>rem. bind (lower_remain_time i t arr') (\<lambda>arr.
      bind (at arr (next_job st)) (\<lambda>nx. return (st\<lparr>p_arr := arr, remain := rem, cur_time := r_time nx\<rparr>)))))
      (\<lambda>st' w'. rr_good ws st' w' \<and> rr_rank ws st' w' < rr_bound ws st w) never w'"
  have finish: "?P arr' w'" if "length arr' = length ws" "r_time (arr' ! next_job st) = ready_of ws (next_job st)"
      "remain_time (arr' ! i) = exec_of ws i - rr_got (trace w) i"
      "rr_inv ws q (st\<lparr>p_arr := arr'[i := (arr' ! i)\<lparr>remain_time := remain_time (arr' ! i) - t\<rparr>],
         remain := remain st - t, cur_time := ready_of ws (next_job st)\<rparr>) w'"
      "rr_left ws (trace w') = rr_left ws (trace w) - t" for arr' w'
  proof -
    have b: "INT_MIN \<le> remain st - t" "remain st - t \<le> INT_MAX"
      "INT_MIN \<le> remain_time (arr' ! i) - t" "remain_time (arr' ! i) - t \<le> INT_MAX"
      using t t0 H(7,9) that(3) by linarith+
    let ?st = "st\<lparr>p_arr := arr'[i := (arr' ! i)\<lparr>remain_time := remain_time (arr' ! i) - t\<rparr>],
         remain := remain st - t, cur_time := ready_of ws (next_job st)\<rparr>"
    have "rr_rank ws ?st w' < rr_bound ws st w"
      using that(5) t0 n by (simp add: rr_rank_def rr_bound_def nat_less_eq_zless)
    then show ?thesis
      using that(1,2,4) H(3) n neq
      by (auto simp: wp_bind wp_sub_ok [OF b(1,2)] lower_remain_time_def wp_at wp_sub_ok [OF b(3,4)] wp_return rr_good_def)
  qed
  show ?thesis
  proof (cases "t = 0")
    case True
    have "cur_time st = ready_of ws (next_job st)" using True t(1) by simp
    then have same: "st\<lparr>p_arr := (p_arr st)[i := (p_arr st ! i)\<lparr>remain_time := remain_time (p_arr st ! i) - t\<rparr>],
         remain := remain st - t, cur_time := ready_of ws (next_job st)\<rparr> = st"
      using True H(4) by simp
    have "rr_inv ws q (st\<lparr>p_arr := (p_arr st)[i := (p_arr st ! i)\<lparr>remain_time := remain_time (p_arr st ! i) - t\<rparr>],
         remain := remain st - t, cur_time := ready_of ws (next_job st)\<rparr>) w"
      unfolding same by (rule inv)
    then have "?P (p_arr st) w"
      by (rule finish [rotated 3]) (use rdy H(6) True I(5) in \<open>simp_all add: rr_arr_def\<close>)
    then show ?thesis using True by (simp add: runToFork_def run_job_def wp_bind wp_return)
  next
    case False
    have "wp (run_job i t (p_arr st)) (rr_sent ws i q' (remain st) t (p_arr st) w) never w"
      using I(1,2,5,8) q t t0 False m by (intro run_job_keeps) auto
    then have "wp (run_job i t (p_arr st)) ?P never w"
    proof (rule wp_mono)
      fix arr' w' assume s: "rr_sent ws i q' (remain st) t (p_arr st) w arr' w'"
      note S = rr_sentD [OF s]
      obtain p1 where p1: "arr' = (p_arr st)[i := p1]" "p1\<lparr>ts0 := ts0 (p_arr st ! i)\<rparr> = p_arr st ! i"
        using S(9) by blast
      have rem: "remain_time (arr' ! i) = exec_of ws i - rr_got (trace w) i"
        using same_but_ts0 [OF p1(2)] H(4,6) by (simp add: p1(1))
      have arr: "rr_arr ws q (trace w') (arr'[i := (arr' ! i)\<lparr>remain_time := remain_time (arr' ! i) - t\<rparr>])"
        by (rule rr_arr_sent [OF I(5) [unfolded q] s]) (use H(2,3) rem q T(7) in auto)
      have "rr_inv ws q (st\<lparr>p_arr := arr'[i := (arr' ! i)\<lparr>remain_time := remain_time (arr' ! i) - t\<rparr>],
         remain := remain st - t, cur_time := ready_of ws (next_job st)\<rparr>) w'"
        using I S(1-4,8) arr t q rr_sent_lines [OF s I(11) refl] by (auto simp: rr_inv_def)
      then show "?P arr' w'"
        using rem S(6) rdy neq I(5) by (intro finish) (simp_all add: p1(1) rr_arr_def)
    qed simp
    then show ?thesis unfolding runToFork_def by (rule wp_bind [THEN iffD2])
  qed
qed

text \<open>The quantum is over first.\<close>

lemma runToNext_keeps:
  assumes inv: "rr_inv ws q st w" and job: "cur_job st = Some job" and q: "q = i # q'"
    and t: "remain st < exec_of ws i - rr_got (trace w) i"
      "next_job st < length ws \<Longrightarrow> remain st \<le> ready_of ws (next_job st) - cur_time st"
  shows "wp (runToNext job i st) (\<lambda>st' w'. rr_good ws st' w' \<and> rr_rank ws st' w' < rr_bound ws st w) never w"
proof -
  note I = rr_invD [OF inv]
  note T = rr_traceD [OF I(2)]
  let ?t = "remain st"
  obtain i' q'' where H: "q = i' # q''"
    "i' < length (pipes (trace w))" "i' < length ws" "i' < length (p_arr st)" "i' \<notin> set q''"
    "remain_time (p_arr st ! i') = exec_of ws i' - rr_got (trace w) i'"
    "exec_of ws i' - rr_got (trace w) i' \<le> INT_MAX" "exec_of ws i' - rr_got (trace w) i' \<le> rr_left ws (trace w)"
    "remain st \<le> 500" "elapsed (trace w) + rr_left ws (trace w) \<le> INT_MAX" "0 \<le> elapsed (trace w)"
    using rr_head [OF inv job] by metis
  have ii: "i' = i" "q'' = q'" using H(1) q by simp_all
  note H = H [unfolded ii]
  have ring: "ring (heap_of st) (Some job) (i # q')" using I(6) job q by simp
  obtain nd where nd: "nodes (heap_of st) job = Some nd" using ring_node(1) [OF ring] by blast
  then have rot: "ring (heap_of st) (Some (node_next nd)) (q' @ [i])"
    using rr_list.succ_law [OF ring] by (simp add: ring_next_def)
  have "wp (run_job i ?t (p_arr st)) (rr_sent ws i q' ?t ?t (p_arr st) w) never w"
    using I(1,2,4,5,7,8) q t by (intro run_job_keeps) auto
  then have "wp (run_job i ?t (p_arr st)) (\<lambda>arr' w'. wp (bind (lower_remain_time i ?t arr') (\<lambda>arr.
     bind (add_i (cur_time st) ?t) (\<lambda>c. bind (load (heap_of st) job) (\<lambda>j.
     return (st\<lparr>p_arr := arr, cur_time := c, remain := TIME_QUANTUM, cur_job := Some (node_next j)\<rparr>)))))
     (\<lambda>st' w'. rr_good ws st' w' \<and> rr_rank ws st' w' < rr_bound ws st w) never w') never w"
  proof (rule wp_mono)
    fix arr' w' assume s: "rr_sent ws i q' ?t ?t (p_arr st) w arr' w'"
    note S = rr_sentD [OF s]
    obtain p1 where p1: "arr' = (p_arr st)[i := p1]" "p1\<lparr>ts0 := ts0 (p_arr st ! i)\<rparr> = p_arr st ! i"
      using S(9) by blast
    have rem: "remain_time (arr' ! i) = exec_of ws i - rr_got (trace w) i" and len: "i < length arr'"
      using same_but_ts0 [OF p1(2)] H(4,6) by (simp_all add: p1(1))
    have arr: "rr_arr ws (q' @ [i]) (trace w') (arr'[i := (arr' ! i)\<lparr>remain_time := remain_time (arr' ! i) - ?t\<rparr>])"
      by (rule rr_arr_sent [OF I(5) [unfolded q] s]) (use H(2,3) rem T(7) in auto)
    let ?st = "st\<lparr>p_arr := arr'[i := (arr' ! i)\<lparr>remain_time := remain_time (arr' ! i) - ?t\<rparr>],
      cur_time := cur_time st + ?t, remain := TIME_QUANTUM, cur_job := Some (node_next nd)\<rparr>"
    have "rr_inv ws (q' @ [i]) ?st w'"
      using I(1,3,7-10) S(1-4) S(7) [OF refl] arr rot t(1) q rr_sent_lines [OF s I(11), of "q' @ [i]"]
      by (auto simp: rr_inv_def TIME_QUANTUM_def)
    moreover have "nat (rr_left ws (trace w')) < nat (rr_left ws (trace w))"
      using S(6) I(4) H(8) t(1) by linarith
    then have "rr_rank ws ?st w' < rr_bound ws st w"
      unfolding rr_rank_def rr_bound_def by (simp del: zless_nat_conj nat_less_eq_zless split: if_splits)
    moreover have b: "INT_MIN \<le> remain_time (arr' ! i) - ?t" "remain_time (arr' ! i) - ?t \<le> INT_MAX"
      "INT_MIN \<le> cur_time st + ?t" "cur_time st + ?t \<le> INT_MAX"
      using rem t(1) I(4,8) H(7-11) by linarith+
    ultimately show "wp (bind (lower_remain_time i ?t arr') (\<lambda>arr.
     bind (add_i (cur_time st) ?t) (\<lambda>c. bind (load (heap_of st) job) (\<lambda>j.
     return (st\<lparr>p_arr := arr, cur_time := c, remain := TIME_QUANTUM, cur_job := Some (node_next j)\<rparr>)))))
     (\<lambda>st' w'. rr_good ws st' w' \<and> rr_rank ws st' w' < rr_bound ws st w) never w'"
      using len nd by (auto simp: wp_bind lower_remain_time_def wp_at wp_sub_ok [OF b(1,2)] wp_add_ok [OF b(3,4)]
        wp_return wp_load rr_good_def)
  qed simp
  then show ?thesis unfolding runToNext_def by (rule wp_bind [THEN iffD2])
qed

text \<open>The job is over first.\<close>

lemma runToDie_keeps:
  assumes inv: "rr_inv ws q st w" and job: "cur_job st = Some job" and q: "q = i # q'"
    and t: "exec_of ws i - rr_got (trace w) i \<le> remain st"
      "next_job st < length ws \<Longrightarrow> exec_of ws i - rr_got (trace w) i \<le> ready_of ws (next_job st) - cur_time st"
  shows "wp (runToDie job i st) (\<lambda>st' w'. rr_good ws st' w' \<and> rr_rank ws st' w' < rr_bound ws st w) never w"
proof -
  note I = rr_invD [OF inv]
  note T = rr_traceD [OF I(2)]
  let ?t = "exec_of ws i - rr_got (trace w) i"
  let ?Q = "\<lambda>st' w'. rr_good ws st' w' \<and> rr_rank ws st' w' < rr_bound ws st w"
  obtain i' q'' where H: "q = i' # q''"
    "i' < length (pipes (trace w))" "i' < length ws" "i' < length (p_arr st)" "i' \<notin> set q''"
    "remain_time (p_arr st ! i') = exec_of ws i' - rr_got (trace w) i'" "0 < exec_of ws i' - rr_got (trace w) i'"
    "exec_of ws i' - rr_got (trace w) i' \<le> rr_left ws (trace w)"
    "elapsed (trace w) + rr_left ws (trace w) \<le> INT_MAX" "0 \<le> elapsed (trace w)"
    using rr_head [OF inv job] by metis
  have ii: "i' = i" "q'' = q'" using H(1) q by simp_all
  note H = H [unfolded ii]
  have ring: "ring (heap_of st) (Some job) (i # q')" using I(6) job q by simp
  define rest where "rest = (\<lambda>arr. andThen sys_wait (bind sys_gettime (\<lambda>t. bind (at arr i) (\<lambda>p.
      let p = p\<lparr>ts1 := Some t\<rparr> in
      case p_pid p of None \<Rightarrow> undef Uninitialised | Some c \<Rightarrow>
      andThen (print_result c (ts0 p) (ts1 p))
      (bind (add_i (cur_time st) (remain_time p)) (\<lambda>c.
       bind (remove_list job (heap_of st)) (\<lambda>(job, H).
       return (st\<lparr>p_arr := arr[i := p], cur_time := c, remain := TIME_QUANTUM, cur_job := job,
         heap_of := H, finish := finish st + 1\<rparr>))))))))"
  have "wp (run_job i ?t (p_arr st)) (rr_sent ws i q' (remain st) ?t (p_arr st) w) never w"
    using I(1,2,5,7,8) q t H(7) by (intro run_job_keeps) auto
  then have "wp (run_job i ?t (p_arr st)) (\<lambda>arr' w'. wp (rest arr') ?Q never w') never w"
  proof (rule wp_mono)
    fix arr' w' assume s: "rr_sent ws i q' (remain st) ?t (p_arr st) w arr' w'"
    note S = rr_sentD [OF s]
    obtain p1 where p1: "arr' = (p_arr st)[i := p1]" "recorded (ts0 p1)" "p1\<lparr>ts0 := ts0 (p_arr st ! i)\<rparr> = p_arr st ! i"
      "started_at (trace w') (rr_fd (trace w) i) (the (ts0 p1))"
      using S(9) by blast
    obtain t0 where t0: "ts0 p1 = Some t0" "time_ok t0" using p1(2) by (auto simp: recorded_def)
    obtain c where c: "p_pid p1 = Some c" "0 < c" "c \<le> INT_MAX"
      using rr_entryD(5) [OF rr_arrD(2) [OF I(5) H(3)] H(2)] same_but_ts0 [OF p1(3)] by auto
    have rem: "remain_time p1 = ?t" and len: "i < length arr'" and arr_i: "arr' ! i = p1"
      using same_but_ts0 [OF p1(3)] H(4,6) by (simp_all add: p1(1))
    have got: "rr_got (trace w') i = exec_of ws i" using S(4) by simp
    have fd: "rr_fd (trace w') = rr_fd (trace w)" using S(3) by (simp add: rr_fd_def fun_eq_iff)
    define r where "r = wait_ret (sys w') (trace w')"
    define h1 where "h1 = trace w' @ [Ev_Wait r]"
    define now where "now = clock_now (sys w') h1"
    define h3 where "h3 = (h1 @ [Ev_Gettime now]) @ [Ev_Myprint (result_line c t0 now)]"
    have now: "time_ok now" using os_ok_time I(1) S(1) by (simp add: now_def)
    have tr1: "rr_trace ws q' 500 h1"
      unfolding h1_def by (rule rr_trace_wait [OF S(8) got]) (simp_all add: S(5) fd)
    have tr3: "rr_trace ws q' 500 h3"
      unfolding h3_def by (intro rr_trace_silent tr1) simp_all
    have same3: "pipes h3 = pipes (trace w')" "elapsed h3 = elapsed (trace w')" "rr_got h3 = rr_got (trace w')"
      by (simp_all add: h3_def h1_def rr_same_pipes del: append_assoc)
    have g3: "\<exists>g. h3 = trace w' @ g" by (simp add: h3_def h1_def)
    have chunks3: "chunks f h3 = chunks f (trace w')" for f by (simp add: h3_def h1_def del: append_assoc)
    let ?p = "p1\<lparr>ts1 := Some now\<rparr>"
    have "rr_arr ws q' (trace w') (arr'[i := ?p])"
      by (rule rr_arr_sent [OF I(5) [unfolded q] s]) (use H(2,3,5) arr_i T(7) in auto)
    then have arr: "rr_arr ws q' h3 (arr'[i := ?p])"
      unfolding rr_arr_def by (auto intro!: rr_entry_same [where h = "trace w'" and h' = h3] simp: same3 g3 chunks3)
    have "nth_fork (trace w) i c" using rr_entryD(5) [OF rr_arrD(2) [OF I(5) H(3)] H(2)] c(1) same_but_ts0 [OF p1(3)] by auto
    then have "nth_fork h3 i c" using S(10) g3 nth_fork_more by metis
    moreover have "started_at h3 (rr_fd (trace w') i) t0" using p1(4) t0(1) fd g3 stamps_more(2) by (metis option.sel)
    moreover have sent_on_fd: "chunks (rr_fd (trace w') i) (trace w') \<noteq> []"
      using got rr_inputD(1) [OF T(1) H(3)] by (auto simp: rr_got_def sent_chunks split: if_splits)
    then have "ended_at (h1 @ [Ev_Gettime now]) (rr_fd (trace w') i) now"
      using ended_at_new [of "Ev_Wait r" "trace w'" now] S(5) fd sent_on_fd by (simp add: h1_def)
    then have "ended_at h3 (rr_fd (trace w') i) now" unfolding h3_def by (rule stamps_more)
    ultimately have "line_of_nth h3 i (rr_fd (trace w') i) (result_line c t0 now)"
      unfolding line_of_nth_def by blast
    moreover have h3: "h3 = trace w' @ [Ev_Wait r, Ev_Gettime now, Ev_Myprint (result_line c t0 now)]"
      by (simp add: h3_def h1_def)
    moreover have "map fst (completions h3) = map fst (completions (trace w')) @ [rr_fd (trace w') i]"
      using S(5) fd by (simp add: h3_def h1_def del: append_assoc)
    ultimately have lines: "rr_lines q' h3"
      using rr_lines_end [OF rr_sent_lines(1) [OF s I(11) refl, unfolded q], of
          "[Ev_Wait r, Ev_Gettime now, Ev_Myprint (result_line c t0 now)]" "result_line c t0 now"]
        H(2,5) S(3) same3(1) by simp
    have pids: "length (fork_pids h3) = length (pipes (trace w))"
      using rr_sent_lines(2) [OF s I(11) refl] I(10) by (simp add: h3)
    have b: "INT_MIN \<le> cur_time st + ?t" "cur_time st + ?t \<le> INT_MAX" using I(8) H(7-10) by linarith+
    have left3: "rr_left ws h3 = rr_left ws (trace w) - ?t" using S(6) by (simp add: rr_left_def same3)
    have "wp (remove_list job (heap_of st)) (\<lambda>v w''. ring (snd v) (fst v) q' \<and> w'' = w'\<lparr>trace := h3\<rparr>) never
      (w'\<lparr>trace := h3\<rparr>)" by (rule rr_list.remove_law [OF ring])
    then have "wp (remove_list job (heap_of st)) (\<lambda>v. wp (case v of (job, H) \<Rightarrow>
       return (st\<lparr>p_arr := arr'[i := ?p], cur_time := cur_time st + ?t, remain := TIME_QUANTUM, cur_job := job,
         heap_of := H, finish := finish st + 1\<rparr>)) ?Q never) never (w'\<lparr>trace := h3\<rparr>)"
    proof (rule wp_mono)
      fix v and w'' :: process assume v: "ring (snd v) (fst v) q' \<and> w'' = w'\<lparr>trace := h3\<rparr>"
      let ?st = "st\<lparr>p_arr := arr'[i := ?p], cur_time := cur_time st + ?t, remain := TIME_QUANTUM,
        cur_job := fst v, heap_of := snd v, finish := finish st + 1\<rparr>"
      have alive: "rr_got h3 k < exec_of ws k" if "k \<in> set q'" for k
        using that I(3) H(5) S(4) by (auto simp: same3 q)
      have "rr_inv ws q' ?st w''"
        using v I(1,7-9) S(1-3) tr3 arr alive lines pids by (simp add: rr_inv_def same3 TIME_QUANTUM_def q)
      moreover have "nat (rr_left ws h3) < nat (rr_left ws (trace w))" using left3 H(7,8) by linarith
      moreover have "nat (int (length ws) - (finish st + 1)) \<le> nat (int (length ws) - finish st)" by simp
      ultimately have "rr_inv ws q' ?st w''" "rr_rank ws ?st w'' < rr_bound ws st w"
        using v unfolding rr_rank_def rr_bound_def by (simp_all del: zless_nat_conj split: if_splits)
      then show "wp (case v of (job, H) \<Rightarrow>
       return (st\<lparr>p_arr := arr'[i := ?p], cur_time := cur_time st + ?t, remain := TIME_QUANTUM, cur_job := job,
         heap_of := H, finish := finish st + 1\<rparr>)) ?Q never w''"
        by (cases v) (auto simp: wp_return rr_good_def)
    qed simp
    then show "wp (rest arr') ?Q never w'"
      using len c t0 now by (simp add: rest_def wp_rules arr_i rem Let_def print_result_ok r_def [symmetric]
          h1_def [symmetric] now_def [symmetric] h3_def [symmetric] wp_add_ok [OF b] del: append_assoc wp_arith)
  qed simp
  then show ?thesis
    using H(4,6) unfolding runToDie_def rest_def wp_bind [of "at _ _"] wp_at by (simp add: wp_bind)
qed

lemma RR_round_keeps:
  assumes good: "rr_good ws st w" and n: "finish st < int (length ws)"
  shows "wp (RR_round (length ws) st) (\<lambda>st' w'. rr_good ws st' w' \<and> rr_rank ws st' w' < rr_rank ws st w) never w"
proof -
  obtain q0 where inv0: "rr_inv ws q0 st w" using good by (auto simp: rr_good_def)
  let ?Q = "\<lambda>st' w'. rr_good ws st' w' \<and> rr_rank ws st' w' < rr_rank ws st w"
  have "wp (forkDue (length ws) st) (\<lambda>st'. wp (case cur_job st' of
       None \<Rightarrow> idleUntilNext st'
     | Some job \<Rightarrow>
         bind (load (heap_of st') job) (\<lambda>j. let i = node_process j in
         bind (at (p_arr st') i) (\<lambda>p. bind (arrivesFirst (length ws) (remain_time p) st') (\<lambda>first.
         case first of Some t \<Rightarrow> runToFork i t st'
         | None \<Rightarrow> if remain st' < remain_time p then runToNext job i st' else runToDie job i st')))) ?Q never) never w"
  proof (rule wp_mono [OF forkDue_keeps [OF inv0]])
    fix st' w' assume st': "rr_good ws st' w' \<and> finish st' = finish st \<and> rr_bound ws st' w' \<le> rr_rank ws st w"
    then obtain q where inv: "rr_inv ws q st' w'" by (auto simp: rr_good_def)
    note I = rr_invD [OF inv]
    have goal: "wp m (\<lambda>st'' w''. rr_good ws st'' w'' \<and> rr_rank ws st'' w'' < rr_bound ws st' w') never w' \<Longrightarrow>
        wp m ?Q never w'" for m
      by (erule wp_mono) (use st' in auto)
    show "wp (case cur_job st' of
       None \<Rightarrow> idleUntilNext st'
     | Some job \<Rightarrow>
         bind (load (heap_of st') job) (\<lambda>j. let i = node_process j in
         bind (at (p_arr st') i) (\<lambda>p. bind (arrivesFirst (length ws) (remain_time p) st') (\<lambda>first.
         case first of Some t \<Rightarrow> runToFork i t st'
         | None \<Rightarrow> if remain st' < remain_time p then runToNext job i st' else runToDie job i st')))) ?Q never w'"
    proof (cases "cur_job st'")
      case None
      then have "q = []" using rr_list.empty_law I(6) by simp
      then show ?thesis using None rr_idle_keeps [of ws st' w'] inv st' n by (simp add: goal)
    next
      case (Some job)
      obtain i q' nd where H: "q = i # q'" "nodes (heap_of st') job = Some nd" "node_process nd = i"
        "i < length (p_arr st')" "remain_time (p_arr st' ! i) = exec_of ws i - rr_got (trace w') i"
        using rr_head [OF inv Some] by metis
      note fork = runToFork_keeps [OF inv Some H(1), THEN goal]
      note nxt = runToNext_keeps [OF inv Some H(1), THEN goal]
      note die = runToDie_keeps [OF inv Some H(1), THEN goal]
      let ?t = "ready_of ws (next_job st') - cur_time st'"
      have "wp (arrivesFirst (length ws) (remain_time (p_arr st' ! i)) st') (\<lambda>first. wp (case first of Some t \<Rightarrow> runToFork i t st'
         | None \<Rightarrow> if remain st' < remain_time (p_arr st' ! i) then runToNext job i st' else runToDie job i st') ?Q never) never w'"
        unfolding wp_arrivesFirst [OF inv] H(5)
        using fork [of ?t] nxt die by (auto simp: not_less)
      then show ?thesis
        using Some H(2,4) unfolding H(3) [symmetric] by (simp add: wp_bind wp_load wp_at Let_def split del: if_split)
    qed
  qed simp
  then show ?thesis unfolding RR_round_def by (rule wp_bind [THEN iffD2])
qed

lemma RR_loop:
  assumes "rr_good ws st w"
  shows "wp (whileM (\<lambda>st. finish st < int (length ws)) (RR_round (length ws)) st)
    (\<lambda>st' w'. rr_inv ws [] st' w' \<and> length (pipes (trace w')) = length ws) never w"
proof (rule wp_whileM [where I = "rr_good ws" and \<mu> = "rr_rank ws"])
  show "rr_good ws st w" by (rule assms)
next
  fix st w assume "rr_good ws st w" "finish st < int (length ws)"
  then show "wp (RR_round (length ws) st) (\<lambda>st' w'. rr_good ws st' w' \<and> rr_rank ws st' w' < rr_rank ws st w) never w"
    by (rule RR_round_keeps)
next
  fix st' w' assume "rr_good ws st' w'" and stop: "\<not> finish st' < int (length ws)"
  then obtain q where inv: "rr_inv ws q st' w'" by (auto simp: rr_good_def)
  note I = rr_invD [OF inv]
  have "length q = 0" "length (pipes (trace w')) = length ws"
    using I(9) stop rr_traceD(5) [OF I(2)] by linarith+
  then have "length (pipes (trace w')) = length ws" "q = []" by simp_all
  with inv show "rr_inv ws [] st' w' \<and> length (pipes (trace w')) = length ws" by blast
qed

section \<open>From the input to the main loop\<close>

definition rr_reading :: "workload \<Rightarrow> nat \<Rightarrow> process \<Rightarrow> p_struct list \<Rightarrow> process \<Rightarrow> bool" where
  "rr_reading ws k w0 arr w = (sys w = sys w0 \<and> trace w = trace w0 \<and> length arr = length ws \<and>
     reads_jobs (stdin w) (drop k ws) \<and>
     (\<forall>i < k. p_name (arr ! i) = fst (ws ! i) \<and> r_time (arr ! i) = ready_of ws i \<and>
        e_time (arr ! i) = exec_of ws i \<and> remain_time (arr ! i) = exec_of ws i))"

lemma readProcess_reads:
  assumes r: "rr_reading ws k w0 arr w" and k: "k < length ws" and ws: "fits 50 ws"
  shows "wp (readProcess k arr) (rr_reading ws (Suc k) w0) never w"
proof -
  obtain n r e where line: "ws ! k = (n, r, e)" by (cases "ws ! k")
  then have mem: "(n, r, e) \<in> set ws" using k nth_mem by metis
  have "drop k ws = (n, r, e) # drop (Suc k) ws" using k line by (simp add: Cons_nth_drop_Suc [symmetric])
  then obtain s1 s2 s3 where scan: "scan_s (stdin w) = Some (n, s1)" "scan_d s1 = Scan_Int r s2"
      "scan_d s2 = Scan_Int e s3" "reads_jobs s3 (drop (Suc k) ws)"
    using assms(1) by (auto simp: rr_reading_def reads_jobs_Cons)
  then show ?thesis
    using r k fitsD [OF ws mem] line
    by (auto simp: readProcess_def wp_rules wp_scanf_s wp_scanf_d rr_reading_def STR_SIZE_def
        less_Suc_eq nth_list_update ready_of_def exec_of_def)
qed

lemma fits_mset:
  assumes "mset ws' = mset ws" "fits cap ws"
  shows "fits cap ws'"
proof -
  have "length ws' = length ws" "set ws' = set ws"
    using assms(1) by (auto dest: mset_eq_length mset_eq_setD)
  moreover have "mset (map (\<lambda>(n, r, e). e) ws') = mset (map (\<lambda>(n, r, e). e) ws)" using assms(1) by simp
  then have "sum_list (map (\<lambda>(n, r, e). e) ws') = sum_list (map (\<lambda>(n, r, e). e) ws)"
    by (simp only: sum_mset_sum_list [symmetric])
  ultimately show ?thesis using assms(2) by (simp add: fits_def)
qed

lemma rr_cmp_key: "key_cmp rr_cmp r_time"
  by (simp add: key_cmp_def rr_cmp_def)

definition rr_line :: "p_struct \<Rightarrow> string \<times> int \<times> int" where
  "rr_line p = (p_name p, r_time p, e_time p)"

lemma RR_start_good:
  assumes r: "rr_reading ws (length ws) w0 arr w" and os: "os_ok (sys w0)" and ws: "fits 50 ws"
    and pos: "\<forall>(n, r, e) \<in> set ws. 0 < e" and tr: "trace w0 = [Ev_Setscheduler 0 98 x]"
  defines "ws' \<equiv> map rr_line (qsort rr_cmp arr)"
  shows "rr_good ws' (RR_start arr) w" "mset ws' = mset ws" "rr_input ws'"
proof -
  let ?arr = "qsort rr_cmp arr"
  have len: "length arr = length ws" using r by (simp add: rr_reading_def)
  have lines: "map rr_line arr = ws"
    using r by (auto simp: rr_reading_def rr_line_def ready_of_def exec_of_def intro!: nth_equalityI prod_eqI)
  show m: "mset ws' = mset ws" unfolding ws'_def lines [symmetric] by simp
  have rem: "remain_time p = e_time p" if "p \<in> set arr" for p
    using that r len by (auto simp: rr_reading_def in_set_conv_nth)
  have "set ws' = set ws" using m by (rule mset_eq_setD)
  then have pos': "\<forall>(n, r, e) \<in> set ws'. 0 < e" using pos by simp
  have acc: "ready_of ws' i = r_time (?arr ! i)" "exec_of ws' i = e_time (?arr ! i)" "fst (ws' ! i) = p_name (?arr ! i)"
    if "i < length ws'" for i using that by (simp_all add: ws'_def rr_line_def ready_of_def exec_of_def)
  have "0 < exec_of ws' i" if "i < length ws'" for i
    using pos' nth_mem [OF that] by (cases "ws' ! i") (auto simp: exec_of_def)
  moreover have "map (ready_of ws') [0..<length ws'] = map r_time ?arr"
    by (rule nth_equalityI) (simp_all add: acc ws'_def, simp add: ready_of_def rr_line_def)
  ultimately show input: "rr_input ws'"
    using libc.orders [OF rr_cmp_key, of arr] fits_mset [OF m ws] by (simp add: rr_input_def)
  have trw: "trace w = [] @ [Ev_Setscheduler 0 98 x]" "sys w = sys w0" using r tr by (simp_all add: rr_reading_def)
  have "(\<Sum>i<length ws'. exec_of ws' i) \<le> INT_MAX"
  proof (cases "ws' = []")
    case False
    then show ?thesis using rr_inputD(2,5) [OF input, of 0] by simp
  qed simp
  then have "rr_trace ws' [] 500 []"
    using input rr_inputD(2) [OF input] by (auto simp: rr_trace_def rr_jobs_ok_def rr_fds_ok_def rr_left_def rr_got_def
      intro: ccontr)
  then have t: "rr_trace ws' [] 500 (trace w)" unfolding trw(1) by (rule rr_trace_silent) simp
  have "rr_entry ws' [] (trace w) i (?arr ! i)" if i: "i < length ws'" for i
  proof -
    have "?arr ! i \<in> set arr" using i by (metis libc.srt_set length_map nth_mem ws'_def)
    then show ?thesis using acc [OF i] rem by (simp add: rr_entry_def trw(1) rr_got_def pipes_def)
  qed
  then have "rr_arr ws' [] (trace w) ?arr" by (simp add: rr_arr_def ws'_def)
  moreover have "rr_lines [] (trace w)"
    using trw(1) completions_snoc [of "[]"] by (simp add: rr_lines_def pipes_def)
  ultimately have "rr_inv ws' [] (RR_start arr) w"
    using t os trw by (simp add: rr_inv_def RR_start_def TIME_QUANTUM_def ring_def linked_def pipes_def)
  then show "rr_good ws' (RR_start arr) w" by (auto simp: rr_good_def)
qed

lemma RR_run:
  assumes os: "os_ok (sys w)" and start: "trace w = []" and input: "reads_workload (stdin w) ws" and ws: "fits 50 ws"
    and pos: "\<forall>(n, r, e) \<in> set ws. 0 < e"
  shows "\<exists>w' ws' st. RR w = Some (Ret 0, w') \<and> mset ws' = mset ws \<and> rr_input ws' \<and> rr_inv ws' [] st w' \<and>
    length (pipes (trace w')) = length ws'"
proof -
  obtain r where r: "scan_d (stdin w) = Scan_Int (int (length ws)) r" "reads_jobs r ws"
    using input by (auto simp: reads_workload_iff)
  have s0: "setscheduler_ret (sys w) [] 0 98 = 0" using os_ok_setscheduler [OF os] .
  define w0 where "w0 = w\<lparr>trace := [Ev_Setscheduler 0 98 0], stdin := r\<rparr>"
  let ?Q = "\<lambda>a w'. a = (0 :: int) \<and> (\<exists>ws' st. mset ws' = mset ws \<and> rr_input ws' \<and> rr_inv ws' [] st w' \<and>
    length (pipes (trace w')) = length ws')"
  have "rr_reading ws 0 w0 (malloc_p (length ws)) w0"
    using r by (simp add: rr_reading_def w0_def malloc_p_def)
  then have read: "wp (forM [0..<length ws] readProcess (malloc_p (length ws))) (rr_reading ws (length ws) w0) never w0"
    by (intro wp_forM [where I = "\<lambda>k. rr_reading ws k w0"]) (use ws in \<open>auto intro: readProcess_reads\<close>)
  have "wp (bind (forM [0..<length ws] readProcess (malloc_p (length ws))) (\<lambda>arr.
      bind (whileM (\<lambda>st. finish st < int (length ws)) (RR_round (length ws)) (RR_start arr)) (\<lambda>st. return 0))) ?Q never w0"
    unfolding wp_bind
  proof (rule wp_mono [OF read])
    fix arr w1 assume arr: "rr_reading ws (length ws) w0 arr w1"
    define ws' where "ws' = map rr_line (qsort rr_cmp arr)"
    have start: "rr_good ws' (RR_start arr) w1" "mset ws' = mset ws" "rr_input ws'"
      unfolding ws'_def using RR_start_good [OF arr _ ws pos, of 0] os by (simp_all add: w0_def)
    then have "length ws' = length ws" by (metis mset_eq_length)
    from RR_loop [OF start(1), unfolded this] start(2,3)
    show "wp (whileM (\<lambda>st. finish st < int (length ws)) (RR_round (length ws)) (RR_start arr))
      (\<lambda>a. wp (return 0) ?Q never) never w1"
      by (auto elim!: wp_mono simp: wp_return \<open>length ws' = length ws\<close> intro!: exI [of _ ws'])
  qed simp
  then have "wp RR ?Q never w"
    using r fits_def [of 50 ws] ws start s0
    by (simp add: RR_def wp_rules wp_scanf_d [where v = "int (length ws)" and r = r] w0_def)
  then show ?thesis by (auto simp: wp_never_runs)
qed

section \<open>Properties\<close>

text \<open>The run that the monitor accepts, for some arrangement of the workload by ready time.\<close>

definition round_robin :: "workload \<Rightarrow> event list \<Rightarrow> bool" where
  "round_robin ws h = (\<exists>ws'. mset ws' = mset ws \<and> sorted (map (ready_of ws') [0..<length ws']) \<and>
     every (rr_obeys ws') h \<and> length (pipes h) = length ws' \<and> (\<forall>i < length ws'. rr_got h i = exec_of ws' i))"

lemma RR_monitored:
  assumes "os_ok (sys w)" "trace w = []" "reads_workload (stdin w) ws" "fits 50 ws" "\<forall>(n, r, e) \<in> set ws. 0 < e"
  shows "\<exists>w'. RR w = Some (Ret 0, w') \<and> round_robin ws (trace w')"
proof -
  obtain w' ws' st where run: "RR w = Some (Ret 0, w')" and m: "mset ws' = mset ws" "rr_input ws'"
    and inv: "rr_inv ws' [] st w'" and all: "length (pipes (trace w')) = length ws'"
    using RR_run [OF assms] by blast
  note T = rr_traceD [OF rr_invD(2) [OF inv]]
  show ?thesis
    using m T(9) all rr_jobs_okD(3) [OF T(6)] unfolding round_robin_def
    by (intro exI [of _ w'] exI [of _ ws'] conjI run) (auto simp: rr_input_def)
qed

text \<open>C3: RR returns 0 on every workload of non-empty jobs that fits the C types. For some arrangement of the
  jobs by ready time, every step of the run obeys the round-robin monitor: the head of the queue runs,
  for at most what is left of its quantum of 500; a job whose quantum is over goes to the end of the
  queue; a new job joins at the end exactly at its ready time; a job is waited for once it has all
  its time. In the end every job has been sent its execution time.\<close>
theorem RR_obeys_monitor:
  assumes "os_ok (sys w)" "trace w = []" "reads_workload (stdin w) ws" "fits 50 ws" "\<forall>(n, r, e) \<in> set ws. 0 < e"
  shows "\<exists>w' ws'. RR w = Some (Ret 0, w') \<and> mset ws' = mset ws \<and> sorted (map (ready_of ws') [0..<length ws']) \<and>
    every (rr_obeys ws') (trace w') \<and> length (pipes (trace w')) = length ws' \<and>
    (\<forall>i < length ws'. rr_got (trace w') i = exec_of ws' i)"
  using RR_monitored [OF assms] unfolding round_robin_def by blast

lemma RR_obeys_monitor_sample:
  "\<exists>w' ws'. RR sample_process = Some (Ret 0, w') \<and> mset ws' = mset sample_jobs \<and>
    sorted (map (ready_of ws') [0..<length ws']) \<and>
    every (rr_obeys ws') (trace w') \<and> length (pipes (trace w')) = length ws' \<and>
    (\<forall>i < length ws'. rr_got (trace w') i = exec_of ws' i)"
  by (rule RR_obeys_monitor) (simp_all add: sample_process_ok, simp_all add: sample_jobs_def fits_def)

text \<open>C16: Whenever RR waits, the job it last wrote to has a child that exits with 0 on the text written to its
  pipe so far, after exactly the job's execution time.\<close>
theorem RR_children_exit:
  assumes "os_ok (sys w)" "trace w = []" "reads_workload (stdin w) ws" "fits 50 ws" "\<forall>(n, r, e) \<in> set ws. 0 < e"
  shows "\<exists>w' ws'. RR w = Some (Ret 0, w') \<and> mset ws' = mset ws \<and>
    every (\<lambda>h e. is_wait e \<longrightarrow>
      (\<exists>i < length (pipes h). rr_fd h i = last_fd h \<and> child_exits (rr_job ws' h i) h)) (trace w')"
proof -
  obtain w' ws' st where run: "RR w = Some (Ret 0, w')" and m: "mset ws' = mset ws" and inv: "rr_inv ws' [] st w'"
    using RR_run [OF assms] by blast
  show ?thesis
    using rr_traceD(10) [OF rr_invD(2) [OF inv]] m run unfolding rr_child_def by blast
qed

lemma RR_children_exit_sample:
  "\<exists>w' ws'. RR sample_process = Some (Ret 0, w') \<and> mset ws' = mset sample_jobs \<and>
    every (\<lambda>h e. is_wait e \<longrightarrow>
      (\<exists>i < length (pipes h). rr_fd h i = last_fd h \<and> child_exits (rr_job ws' h i) h)) (trace w')"
  by (rule RR_children_exit) (simp_all add: sample_process_ok, simp_all add: sample_jobs_def fits_def)

lemma RR_lines:
  assumes "os_ok (sys w)" "trace w = []" "reads_workload (stdin w) ws" "fits 50 ws" "\<forall>(n, r, e) \<in> set ws. 0 < e"
  shows "\<exists>w' D. RR w = Some (Ret 0, w') \<and> mset D = mset [0..<length ws] \<and>
    map fst (completions (trace w')) = map (rr_fd (trace w')) D \<and>
    list_all2 (\<lambda>i. line_of_nth (trace w') i (rr_fd (trace w') i)) D (printed (trace w'))"
proof -
  obtain w' ws' st where run: "RR w = Some (Ret 0, w')" and m: "mset ws' = mset ws"
    and inv: "rr_inv ws' [] st w'" and all: "length (pipes (trace w')) = length ws'"
    using RR_run [OF assms] by blast
  obtain D where D: "distinct D" "set D = {..<length (pipes (trace w'))}"
    "map fst (completions (trace w')) = map (rr_fd (trace w')) D"
    "list_all2 (\<lambda>i. line_of_nth (trace w') i (rr_fd (trace w') i)) D (printed (trace w'))"
    using rr_invD(11) [OF inv] by (auto simp: rr_lines_def)
  have "length ws' = length ws" using m by (rule mset_eq_length)
  then have "mset D = mset [0..<length ws]"
    using D(1,2) all mset_set_set [of D] by (simp add: atLeast0LessThan)
  then show ?thesis using run D(3,4) by blast
qed

text \<open>C11: RR prints one line per job, in the order in which the jobs end, one for each wait. The line of the job
  that was forked as the i-th has the process id of the i-th fork, the time read just before the first write
  to the job's pipe and the time read right after the wait for it.\<close>
theorem RR_prints:
  assumes "os_ok (sys w)" "trace w = []" "reads_workload (stdin w) ws" "fits 50 ws" "\<forall>(n, r, e) \<in> set ws. 0 < e"
  shows "\<exists>w' D. RR w = Some (Ret 0, w') \<and> mset D = mset [0..<length ws] \<and>
    map fst (completions (trace w')) = map (rr_fd (trace w')) D \<and>
    list_all2 (\<lambda>i. line_of_nth (trace w') i (rr_fd (trace w') i)) D (printed (trace w'))"
  by (rule RR_lines [OF assms])

lemma RR_prints_sample:
  "\<exists>w' D. RR sample_process = Some (Ret 0, w') \<and> mset D = mset [0..<length sample_jobs] \<and>
    map fst (completions (trace w')) = map (rr_fd (trace w')) D \<and>
    list_all2 (\<lambda>i. line_of_nth (trace w') i (rr_fd (trace w') i)) D (printed (trace w'))"
  by (rule RR_prints) (simp_all add: sample_process_ok, simp_all add: sample_jobs_def fits_def)

text \<open>C10: No starvation: at any moment of a run of RR, an unfinished job at position k of the ready queue is
  written to before more than k quanta of 500 units have passed (if the rest of the run does not write
  to it, the rest takes at most 500 * k units).\<close>
theorem RR_waiting_time:
  assumes "os_ok (sys w)" "trace w = []" "reads_workload (stdin w) ws" "fits 50 ws" "\<forall>(n, r, e) \<in> set ws. 0 < e"
  shows "\<exists>w' ws'. RR w = Some (Ret 0, w') \<and> mset ws' = mset ws \<and>
    (\<forall>h h' g k i. trace w' = h @ h' @ g \<longrightarrow> k < length (fst (rr_monitor ws' h)) \<longrightarrow> fst (rr_monitor ws' h) ! k = i \<longrightarrow>
      rr_got h i < exec_of ws' i \<longrightarrow> (\<forall>e \<in> set h'. written (rr_fd h i) e = []) \<longrightarrow> elapsed h' \<le> 500 * int k)"
proof -
  obtain w' ws' st where run: "RR w = Some (Ret 0, w')" and m: "mset ws' = mset ws" and inv: "rr_inv ws' [] st w'"
    using RR_run [OF assms] by blast
  note obeys = rr_traceD(9) [OF rr_invD(2) [OF inv]]
  have "elapsed h' \<le> 500 * int k"
    if tr: "trace w' = h @ h' @ g" and k: "k < length (fst (rr_monitor ws' h))" "fst (rr_monitor ws' h) ! k = i"
      and alive: "rr_got h i < exec_of ws' i" and no: "\<forall>e \<in> set h'. written (rr_fd h i) e = []" for h h' g k i
  proof -
    have pre: "every (rr_obeys ws') (h @ h')" "every (rr_obeys ws') h"
      using every_prefix [OF obeys, of "length (h @ h')"] every_prefix [OF obeys, of "length h"] by (simp_all add: tr)
    have mem: "i \<in> set (fst (rr_monitor ws' h))" using k by (auto simp: in_set_conv_nth)
    obtain q left where ql: "rr_monitor ws' h = (q, left)" by (cases "rr_monitor ws' h")
    have b: "left \<le> 500" using rr_monitor_bounds [OF pre(2)] ql by simp
    have "elapsed h' + rr_turn (rr_monitor ws' (h @ h')) i \<le> rr_turn (q, left) i"
      using rr_waits [OF pre(1) mem alive] no ql by auto
    moreover have "rr_turn (q, left) i \<le> 500 * int k"
      using rr_turn_bound [OF b] k ql by simp
    moreover have "0 \<le> rr_turn (rr_monitor ws' (h @ h')) i"
      using rr_monitor_bounds [OF pre(1)] by (auto simp: rr_turn_def split: prod.split list.split)
    ultimately show ?thesis by linarith
  qed
  then show ?thesis using run m by blast
qed

lemma RR_waiting_time_sample:
  "\<exists>w' ws'. RR sample_process = Some (Ret 0, w') \<and> mset ws' = mset sample_jobs \<and>
    (\<forall>h h' g k i. trace w' = h @ h' @ g \<longrightarrow> k < length (fst (rr_monitor ws' h)) \<longrightarrow> fst (rr_monitor ws' h) ! k = i \<longrightarrow>
      rr_got h i < exec_of ws' i \<longrightarrow> (\<forall>e \<in> set h'. written (rr_fd h i) e = []) \<longrightarrow> elapsed h' \<le> 500 * int k)"
  by (rule RR_waiting_time) (simp_all add: sample_process_ok, simp_all add: sample_jobs_def fits_def)

end
