(* ===== verification/Main_Prog.thy ===== *)
theory Main_Prog
  imports Fifo Sjf Psjf Rr
begin

text \<open>
  \<open>prj1/main.c\<close>: the program reads the name of a policy and runs its scheduler on the rest of the
  input. The array \<open>DesiredPolicy\<close> has five bytes, which is what the longest name needs.
\<close>

section \<open>The program\<close>

definition POLICY_FIFO :: int where "POLICY_FIFO = 0"
definition POLICY_SJF :: int where "POLICY_SJF = 1"
definition POLICY_PSJF :: int where "POLICY_PSJF = 2"
definition POLICY_RR :: int where "POLICY_RR = 3"

definition Policies :: "string list" where
  "Policies = [''FIFO'', ''SJF'', ''PSJF'', ''RR'']"

text \<open>The loop over the names with its \<open>break\<close>; \<open>-1\<close> is the value that \<open>Type\<close> starts with.\<close>

fun find_policy :: "string \<Rightarrow> int \<Rightarrow> string list \<Rightarrow> int" where
  "find_policy DesiredPolicy Index [] = -1"
| "find_policy DesiredPolicy Index (p # ps) =
     (if p = DesiredPolicy then Index else find_policy DesiredPolicy (Index + 1) ps)"

definition run_policy :: "int \<Rightarrow> (process, int) prog" where
  "run_policy Type =
     (if Type = POLICY_FIFO then FIFO
      else if Type = POLICY_SJF then SJF
      else if Type = POLICY_PSJF then PSJF
      else if Type = POLICY_RR then RR
      else return 0)"

definition main_prog :: "(process, int) prog" where
  "main_prog =
     bind (scanf_s 5) (\<lambda>DesiredPolicy.
     let Type = find_policy DesiredPolicy 0 Policies in
     if Type < 0 then andThen (print (''No such policy.'' @ newline)) (exit_with 0)
     else bind (run_policy Type) (\<lambda>_. return 0))"

text \<open>\<open>prj1/p.c\<close> draws a line in the kernel's log.\<close>

definition p_main :: "(process, int) prog" where
  "p_main = andThen (sys_myprint (replicate 16 (CHR ''='') @ newline)) (return 0)"

section \<open>Dispatch\<close>

lemma scan_policy:
  assumes "p \<noteq> []" "\<forall>c \<in> set p. \<not> is_space c"
  shows "scan_s (p @ newline @ rest) = Some (p, newline @ rest)"
  by (rule scan_s_word) (use assms in \<open>simp_all add: newline_def\<close>)

lemma wp_scanf_word:
  assumes "p \<noteq> []" "\<forall>c \<in> set p. \<not> is_space c" "stdin w = p @ newline @ rest"
  shows "wp (scanf_s cap) Q E w = (if length p < cap then Q p (w\<lparr>stdin := newline @ rest\<rparr>)
    else E (Undefined Buffer_Overrun) (w\<lparr>stdin := newline @ rest\<rparr>))"
  using scan_policy [OF assms(1,2), of rest] assms(3)
  by (simp add: wp_def scanf_s_def return_def undef_def halt_def)

text \<open>The input that is left begins with the end of the line of the policy.\<close>

lemma reads_after_newline: "reads_workload (newline @ s) ws = reads_workload s ws"
proof -
  have "scan_d (newline @ s) = scan_d s" by (simp add: scan_d_def newline_def)
  then show ?thesis by (simp add: reads_workload_iff)
qed

lemma known_policies: "find_policy ''FIFO'' 0 Policies = POLICY_FIFO" "find_policy ''SJF'' 0 Policies = POLICY_SJF"
  "find_policy ''PSJF'' 0 Policies = POLICY_PSJF" "find_policy ''RR'' 0 Policies = POLICY_RR"
  by (simp_all add: Policies_def POLICY_FIFO_def POLICY_SJF_def POLICY_PSJF_def POLICY_RR_def)

lemma unknown_policy: "p \<notin> set Policies \<Longrightarrow> find_policy p 0 Policies = -1"
  by (auto simp: Policies_def)

lemma run_policies: "run_policy POLICY_FIFO = FIFO" "run_policy POLICY_SJF = SJF"
  "run_policy POLICY_PSJF = PSJF" "run_policy POLICY_RR = RR"
  by (simp_all add: run_policy_def POLICY_FIFO_def POLICY_SJF_def POLICY_PSJF_def POLICY_RR_def)

definition scheduler_of :: "string \<Rightarrow> (process, int) prog" where
  "scheduler_of p = run_policy (find_policy p 0 Policies)"

lemma schedulers: "scheduler_of ''FIFO'' = FIFO" "scheduler_of ''SJF'' = SJF" "scheduler_of ''PSJF'' = PSJF"
  "scheduler_of ''RR'' = RR"
  by (simp_all add: scheduler_of_def known_policies run_policies)

lemma main_runs:
  assumes "p \<in> set Policies" "stdin w = p @ newline @ rest"
    and "scheduler_of p (w\<lparr>stdin := newline @ rest\<rparr>) = Some (Ret r, w')"
  shows "main_prog w = Some (Ret 0, w')"
proof -
  have p: "p \<noteq> []" "\<forall>c \<in> set p. \<not> is_space c" "length p < 5" "\<not> find_policy p 0 Policies < 0"
    using assms(1) by (auto simp: Policies_def is_space_def)
  have "scanf_s 5 w = Some (Ret p, w\<lparr>stdin := newline @ rest\<rparr>)"
    using scan_policy [OF p(1,2), of rest] assms(2) p(3) by (simp add: scanf_s_def return_def)
  with p(4) assms(3) show ?thesis by (simp add: main_prog_def bind_def scheduler_of_def return_def)
qed

section \<open>Whole runs\<close>

text \<open>The three policies that are judged event by event; round robin has a monitor of its own (\<open>round_robin\<close>).\<close>

definition policies :: "(string \<times> policy) list" where
  "policies = [(''FIFO'', fifo_first), (''SJF'', sjf_shortest), (''PSJF'', srtf)]"

definition schedules_by :: "policy \<Rightarrow> workload \<Rightarrow> process \<Rightarrow> bool" where
  "schedules_by pol ws w' = (every (obeys pol (jobs_of ws (trace w'))) (trace w') \<and>
     (\<forall>j \<in> set (jobs_of ws (trace w')). finished (trace w') j))"

lemma scheduler_runs:
  assumes "(p, pol) \<in> set policies" "os_ok (sys w)" "trace w = []" "reads_workload (stdin w) ws" "fits 32 ws"
  shows "\<exists>w'. scheduler_of p w = Some (Ret 0, w') \<and> schedules_by pol ws w'"
proof -
  consider "p = ''FIFO''" "pol = fifo_first" | "p = ''SJF''" "pol = sjf_shortest" | "p = ''PSJF''" "pol = srtf"
    using assms(1) by (auto simp: policies_def)
  then show ?thesis
  proof cases
    case 1
    obtain w' plan where run: "FIFO w = Some (Ret 0, w')" and out: "batch_outcome fifo_first (fifo_plan plan) ws w'"
      using FIFO_run [OF assms(2-5)] by blast
    with 1 batch_outcome_facts(1,4) [OF out] show ?thesis
      by (simp add: schedulers schedules_by_def)
  next
    case 2
    obtain w' where run: "SJF w = Some (Ret 0, w')" and out: "batch_outcome sjf_shortest sjf_done ws w'"
      using SJF_run [OF assms(2-5)] by blast
    with 2 batch_outcome_facts(1,4) [OF out] show ?thesis
      by (simp add: schedulers schedules_by_def)
  next
    case 3
    obtain w' st D where run: "PSJF w = Some (Ret 0, w')" and inv: "psjf_inv (jobs_of ws (trace w')) D [] st w'"
      and N: "length D = length (Raw st)" using PSJF_run [OF assms(2-5)] by metis
    with 3 psjf_final(1,4) [OF inv N] show ?thesis
      by (simp add: schedulers schedules_by_def)
  qed
qed

text \<open>A job name that fits the arrays of the other schedulers fits the larger one of \<open>rr.c\<close>.\<close>

lemma fits_50: "fits 32 ws \<Longrightarrow> fits 50 ws"
  by (force simp: fits_def)

text \<open>C2: The program, given the name of one of the four policies on the first line and then a workload, returns 0, and
  the trace of its system calls obeys just the policy that was named. For FIFO, SJF and PSJF every step runs
  the job that first-in first-out, shortest job or shortest remaining time selects, and every job
  finishes; for RR, where no job is empty, the round-robin monitor accepts the trace and every job is sent
  its execution time.\<close>
theorem main_schedules:
  assumes "p \<in> set Policies" "stdin w = p @ newline @ input" "reads_workload input ws"
    and "os_ok (sys w)" "trace w = []" "fits 32 ws"
    and "p = ''RR'' \<Longrightarrow> \<forall>(n, r, e) \<in> set ws. 0 < e"
  shows "\<exists>w'. main_prog w = Some (Ret 0, w') \<and>
    (p = ''FIFO'' \<longrightarrow> schedules_by fifo_first ws w') \<and> (p = ''SJF'' \<longrightarrow> schedules_by sjf_shortest ws w') \<and>
    (p = ''PSJF'' \<longrightarrow> schedules_by srtf ws w') \<and> (p = ''RR'' \<longrightarrow> round_robin ws (trace w'))"
proof -
  let ?w = "w\<lparr>stdin := newline @ input\<rparr>"
  have input: "reads_workload (stdin ?w) ws" using assms(3) by (simp add: reads_after_newline)
  show ?thesis
  proof (cases "p = ''RR''")
    case True
    obtain w' where "RR ?w = Some (Ret 0, w')" "round_robin ws (trace w')"
      using RR_monitored [OF _ _ input fits_50 [OF assms(6)] assms(7) [OF True]] assms(4,5) by auto
    with True main_runs [OF assms(1,2)] show ?thesis by (auto simp: schedulers)
  next
    case False
    then obtain pol where pol: "(p, pol) \<in> set policies"
      using assms(1) by (auto simp: policies_def Policies_def)
    obtain w' where "scheduler_of p ?w = Some (Ret 0, w')" "schedules_by pol ws w'"
      using scheduler_runs [OF pol _ _ input assms(6)] assms(4,5) by auto
    with pol main_runs [OF assms(1,2)] show ?thesis by (auto simp: policies_def)
  qed
qed

theorem main_schedules_sample:
  "\<exists>w1 w2. main_prog (sample_process\<lparr>stdin := ''PSJF'' @ newline @ show_workload sample_jobs\<rparr>) = Some (Ret 0, w1) \<and>
    schedules_by srtf sample_jobs w1 \<and>
    main_prog (sample_process\<lparr>stdin := ''RR'' @ newline @ show_workload sample_jobs\<rparr>) = Some (Ret 0, w2) \<and>
    round_robin sample_jobs (trace w2)"
proof -
  have input: "reads_workload (show_workload sample_jobs) sample_jobs"
    using sample_process_ok(3) by (simp add: sample_process_def)
  have "\<forall>(n, r, e) \<in> set sample_jobs. 0 < e" by (simp add: sample_jobs_def)
  with main_schedules [of "''PSJF''" "sample_process\<lparr>stdin := ''PSJF'' @ newline @ show_workload sample_jobs\<rparr>", OF _ _ input]
    main_schedules [of "''RR''" "sample_process\<lparr>stdin := ''RR'' @ newline @ show_workload sample_jobs\<rparr>", OF _ _ input]
    sample_process_ok show ?thesis by (simp add: Policies_def)
qed

text \<open>A first word that is no policy: up to four letters, the program says so and exits with 0; a longer word
  overruns the array it is read into.\<close>
theorem main_rejects:
  assumes "p \<noteq> []" "\<forall>c \<in> set p. \<not> is_space c" "p \<notin> set Policies" "stdin w = p @ newline @ rest"
  shows "if length p \<le> 4
    then \<exists>w'. main_prog w = Some (Halt (Exited 0), w') \<and>
      trace w' = trace w @ [Ev_Stdout (''No such policy.'' @ newline)]
    else \<exists>w'. main_prog w = Some (Halt (Undefined Buffer_Overrun), w')"
proof (cases "length p \<le> 4")
  case True
  then have "wp main_prog (\<lambda>_ _. False) (\<lambda>s w'. s = Exited 0 \<and>
      trace w' = trace w @ [Ev_Stdout (''No such policy.'' @ newline)]) w"
    using wp_scanf_word [OF assms(1,2,4)] unknown_policy [OF assms(3)]
    by (simp add: main_prog_def wp_rules Let_def)
  with True show ?thesis by (simp add: wp_ends)
next
  case False
  then have "wp main_prog (\<lambda>_ _. False) (\<lambda>s _. s = Undefined Buffer_Overrun) w"
    using wp_scanf_word [OF assms(1,2,4)] by (simp add: main_prog_def wp_rules)
  with False show ?thesis by (simp add: wp_stops)
qed

theorem main_rejects_sample:
  "\<exists>w'. main_prog (sample_process\<lparr>stdin := ''LOTTERY'' @ newline\<rparr>) = Some (Halt (Undefined Buffer_Overrun), w')"
  using main_rejects [of "''LOTTERY''" "sample_process\<lparr>stdin := ''LOTTERY'' @ newline\<rparr>" "[]"]
  by (simp add: is_space_def Policies_def)

end
