(* ===== verification/Clock.thy ===== *)
theory Clock
  imports Main_Prog
begin

text \<open>
  The times of the printed lines against the clock they come from. Each scheduler records what
  \<open>gettime\<close> returns and nothing else, so on a clock that does not go back the end of a job is never
  printed before its start.
\<close>

section \<open>Traces that read the clock of their system\<close>

fun reads_clock :: "os \<Rightarrow> event list \<Rightarrow> event \<Rightarrow> bool" where
  "reads_clock os h (Ev_Gettime t) = (t = clock_now os h)"
| "reads_clock os h _ = True"

definition honest :: "os \<Rightarrow> process \<Rightarrow> bool" where
  "honest os w = (sys w = os \<and> every (reads_clock os) (trace w))"

lemma honest_start: "trace w = [] \<Longrightarrow> honest (sys w) w"
  by (simp add: honest_def)

section \<open>The system calls\<close>

lemma emit_honest:
  assumes "\<And>h. reads_clock os h e"
  shows "preserves (honest os) (emit e)"
  using assms by (auto simp: preserves_def emit_def honest_def)

lemma syscall_honest:
  assumes "\<And>h. reads_clock os h (f (r os h))"
  shows "preserves (honest os) (syscall r f)"
  using assms by (auto simp: preserves_def syscall_def honest_def Let_def)

lemma calls_honest [preserves_rules]:
  "preserves (honest os) (sys_myprint s)" "preserves (honest os) (sys_write f s)"
  "preserves (honest os) (sys_close f)" "preserves (honest os) (set_cloexec f)"
  "preserves (honest os) (sys_dup2 f g)" "preserves (honest os) spin"
  "preserves (honest os) (eprint s)" "preserves (honest os) (print s)"
  "preserves (honest os) sys_fork" "preserves (honest os) sys_wait" "preserves (honest os) sys_gettime"
  "preserves (honest os) (sys_setscheduler p prio)" "preserves (honest os) (sys_waitpid p)"
  by (simp_all add: sys_myprint_def sys_write_def sys_close_def set_cloexec_def sys_dup2_def spin_def eprint_def
      print_def sys_fork_def sys_wait_def sys_gettime_def sys_setscheduler_def sys_waitpid_def
      emit_honest syscall_honest)

lemma pure_honest [preserves_rules]:
  "preserves (honest os) (at xs i)" "preserves (honest os) (checked v)" "preserves (honest os) (add_i a b)"
  "preserves (honest os) (sub_i a b)" "preserves (honest os) (sprintf cap s)" "preserves (honest os) (exit_with c)"
  "preserves (honest os) (at_int xs j)" "preserves (honest os) (load H n)"
  unfolding at_def checked_def add_i_def sub_i_def sprintf_def exit_with_def at_int_def load_def
  by (intro preserves_rules)+

lemma input_honest [preserves_rules]:
  "preserves (honest os) sys_pipe" "preserves (honest os) (sys_execl path argv)"
  "preserves (honest os) scanf_d" "preserves (honest os) (scanf_s cap)"
  by (auto simp: preserves_def honest_def sys_pipe_def sys_execl_def scanf_d_def scanf_s_def checked_def
      undef_def halt_def return_def split: option.splits scanned.splits if_splits)

section \<open>The schedulers\<close>

lemma print_result_honest [preserves_rules]: "preserves (honest os) (print_result p t0 t1)"
  unfolding print_result_def by (intro preserves_rules)

lemma FIFO_honest: "preserves (honest os) FIFO"
  unfolding FIFO_def readFile_def readJob_def FIFO_round_def waitLoop_def executeFork_def forkJob_def startJob_def
    assign_def decideTime_def printJob_def
  by (intro preserves_rules)

lemma SJF_honest: "preserves (honest os) SJF"
  unfolding SJF_def sjf_copies readFile_def readJob_def SJF_round_def waitLoop_def executeFork_def forkJob_def
    selectJob_def sort_segment_def sjf_assign_def decideTime_def printJob_def
  by (intro preserves_rules)

lemma PSJF_honest: "preserves (honest os) PSJF"
  unfolding PSJF_def PSJF_round_def runHead_def sortQueue_def nextBefore_def NextDataIn_def SendToChild_def
    finishHead_def forkNext_def readRaw_def WaitForNextProcess_def ChangePriority_def
  by (intro preserves_rules)

lemma list_honest [preserves_rules]:
  "preserves (honest os) (add_list job p H)" "preserves (honest os) (remove_list a H)"
  unfolding add_list_def remove_list_def set_next_def set_last_def
  by (intro preserves_rules)+

lemma RR_honest: "preserves (honest os) RR"
  unfolding RR_def RR_round_def forkDue_def fork_child_def idleUntilNext_def wait_for_job_def arrivesFirst_def
    runToFork_def runToNext_def runToDie_def run_job_def lower_remain_time_def readProcess_def
  by (intro preserves_rules)

section \<open>Ordered times\<close>

lemma everyD: "every P h \<Longrightarrow> i < length h \<Longrightarrow> P (take i h) (h ! i)"
  by (simp add: every_def)

text \<open>A start is read before anything is sent, an end only after something was.\<close>

lemma started_before_ended:
  assumes "chunks f (take i h) = []" "chunks f (take k h) \<noteq> []"
  shows "i < k"
proof (rule ccontr)
  assume "\<not> i < k"
  then have "take i h = take k h @ take (i - k) (drop k h)" by (metis le_add_diff_inverse not_less take_add)
  with assms show False by (simp add: chunks_def writes_def)
qed

lemma start_before_end:
  assumes "every (reads_clock os) h" "started_at h f t0" "ended_at h f t1"
    and mono: "\<And>h g. clock_now os h \<le> clock_now os (h @ g)"
  shows "t0 \<le> t1"
proof -
  obtain i where i: "i < length h - 1" "h ! i = Ev_Gettime t0" "chunks f (take i h) = []"
    using assms(2) by (auto simp: started_at_def in_turn_def)
  obtain k where k: "Suc k < length h" "h ! Suc k = Ev_Gettime t1" "chunks f (take k h) \<noteq> []"
    using assms(3) by (force simp: ended_at_def in_turn_def)
  have "t0 = clock_now os (take i h)" using everyD [OF assms(1), of i] i by simp
  moreover have "t1 = clock_now os (take (Suc k) h)" using everyD [OF assms(1) k(1)] k(2) by simp
  moreover have "i < k" by (rule started_before_ended [OF i(3) k(3)])
  then have "take (Suc k) h = take i h @ drop i (take (Suc k) h)"
    by (metis append_take_drop_id less_SucI less_imp_le min.absorb1 take_take)
  ultimately show ?thesis using mono by metis
qed

section \<open>The lines of a whole run\<close>

definition timed_line :: "event list \<Rightarrow> string \<Rightarrow> bool" where
  "timed_line h l = (\<exists>p f t0 t1. l = result_line p t0 t1 \<and> started_at h f t0 \<and> ended_at h f t1)"

definition prints_timed :: "nat \<Rightarrow> event list \<Rightarrow> bool" where
  "prints_timed n h = (length (printed h) = n \<and> list_all (timed_line h) (printed h))"

lemma prints_timedI:
  assumes "list_all2 R xs (printed h)" "length xs = n" "\<And>x l. R x l \<Longrightarrow> timed_line h l"
  shows "prints_timed n h"
  using assms by (auto simp: prints_timed_def list_all_length list_all2_conv_all_nth)

lemma line_timed: "line_of_job h j l \<Longrightarrow> timed_line h l" "line_of_nth h i f l \<Longrightarrow> timed_line h l"
  unfolding line_of_job_def line_of_nth_def timed_line_def by blast+

lemma jobs_prints_timed: "batch_outcome run_ok extra ws w' \<Longrightarrow> prints_timed (length ws) (trace w')"
proof -
  assume out: "batch_outcome run_ok extra ws w'"
  then obtain js where js: "mset js = mset (jobs_of ws (trace w'))" "list_all2 (line_of_job (trace w')) js (printed (trace w'))"
    using batch_outcome_prints [OF out] by (auto simp: prints_jobs_def)
  have "length js = length ws"
    using mset_eq_length [OF js(1)] arg_cong [OF batch_outcome_facts(3) [OF out], of length] by simp
  then show ?thesis by (rule prints_timedI [OF js(2) _ line_timed(1)])
qed

lemma policy_prints_timed:
  assumes "p \<in> set Policies" "os_ok (sys w)" "trace w = []" "reads_workload (stdin w) ws" "fits 32 ws"
    and "p = ''RR'' \<Longrightarrow> \<forall>(n, r, e) \<in> set ws. 0 < e"
  shows "\<exists>w'. scheduler_of p w = Some (Ret 0, w') \<and> prints_timed (length ws) (trace w')"
proof -
  consider "p = ''FIFO''" | "p = ''SJF''" | "p = ''PSJF''" | "p = ''RR''"
    using assms(1) by (auto simp: Policies_def)
  then show ?thesis
  proof cases
    case 1
    then show ?thesis using FIFO_run [OF assms(2-5)] jobs_prints_timed by (fastforce simp: schedulers)
  next
    case 2
    then show ?thesis using SJF_run [OF assms(2-5)] jobs_prints_timed by (fastforce simp: schedulers)
  next
    case 3
    obtain w' st D where run: "PSJF w = Some (Ret 0, w')" and inv: "psjf_inv (jobs_of ws (trace w')) D [] st w'"
      and N: "length D = length (Raw st)" "length D = length ws" using PSJF_run [OF assms(2-5)] by metis
    obtain js :: "job list" where
      js: "list_all2 (\<lambda>i. line_of_nth (trace w') i (jwr (js ! i))) D (printed (trace w'))"
      using psjf_lines [OF inv N(1)] by blast
    have "prints_timed (length ws) (trace w')" by (rule prints_timedI [OF js N(2) line_timed(2)])
    with run 3 show ?thesis by (simp add: schedulers)
  next
    case 4
    have "fits 50 ws" by (rule fits_50 [OF assms(5)])
    then obtain w' D where run: "RR w = Some (Ret 0, w')" and D: "mset D = mset [0..<length ws]"
      "list_all2 (\<lambda>i. line_of_nth (trace w') i (rr_fd (trace w') i)) D (printed (trace w'))"
      using RR_lines [OF assms(2-4) _ assms(6) [OF 4]] by blast
    have "length D = length ws" using mset_eq_length [OF D(1)] by simp
    then have "prints_timed (length ws) (trace w')" by (rule prints_timedI [OF D(2) _ line_timed(2)])
    with run 4 show ?thesis by (simp add: schedulers)
  qed
qed

lemma policy_honest: "scheduler_of p w = Some (Ret r, w') \<Longrightarrow> trace w = [] \<Longrightarrow> honest (sys w) w'"
proof -
  have "preserves (honest (sys w)) (scheduler_of p)"
    unfolding scheduler_of_def run_policy_def
    by (intro preserves_rules FIFO_honest SJF_honest PSJF_honest RR_honest)
  then show "scheduler_of p w = Some (Ret r, w') \<Longrightarrow> trace w = [] \<Longrightarrow> honest (sys w) w'"
    using preservesD honest_start by metis
qed

text \<open>C13: On a clock that does not go back, the program run with any of the four policies prints one line per job,
  and in every line the start of the job is not after its end.\<close>
theorem main_prints_ordered:
  assumes "p \<in> set Policies" "stdin w = p @ newline @ input" "reads_workload input ws"
    and "os_ok (sys w)" "trace w = []" "fits 32 ws"
    and "p = ''RR'' \<Longrightarrow> \<forall>(n, r, e) \<in> set ws. 0 < e"
    and mono: "\<And>h g. clock_now (sys w) h \<le> clock_now (sys w) (h @ g)"
  shows "\<exists>w'. main_prog w = Some (Ret 0, w') \<and> length (printed (trace w')) = length ws \<and>
    (\<forall>l \<in> set (printed (trace w')). \<exists>pid t0 t1. l = result_line pid t0 t1 \<and> t0 \<le> t1)"
proof -
  let ?w = "w\<lparr>stdin := newline @ input\<rparr>"
  have "reads_workload (stdin ?w) ws" using assms(3) by (simp add: reads_after_newline)
  then obtain w' where run: "scheduler_of p ?w = Some (Ret 0, w')" and lines: "prints_timed (length ws) (trace w')"
    using policy_prints_timed [OF assms(1), of ?w ws] assms(4-7) by auto
  have h: "honest (sys w) w'" using policy_honest [OF run] assms(5) by simp
  have "timed_line (trace w') l \<Longrightarrow> \<exists>pid t0 t1. l = result_line pid t0 t1 \<and> t0 \<le> t1" for l
    using h start_before_end [OF _ _ _ mono] by (fastforce simp: timed_line_def honest_def simp del: timespec_le)
  then show ?thesis
    using main_runs [OF assms(1,2) run] lines by (auto simp: prints_timed_def list_all_iff simp del: timespec_le)
qed

theorem main_prints_ordered_sample:
  "\<exists>w'. main_prog (sample_process\<lparr>stdin := ''RR'' @ newline @ show_workload sample_jobs\<rparr>) = Some (Ret 0, w') \<and>
    length (printed (trace w')) = 3 \<and>
    (\<forall>l \<in> set (printed (trace w')). \<exists>pid t0 t1. l = result_line pid t0 t1 \<and> t0 \<le> t1)"
proof -
  have "reads_workload (show_workload sample_jobs) sample_jobs"
    using sample_process_ok(3) by (simp add: sample_process_def)
  moreover have "length sample_jobs = 3" "\<forall>(n, r, e) \<in> set sample_jobs. 0 < e" by (simp_all add: sample_jobs_def)
  ultimately show ?thesis
    using main_prints_ordered [of "''RR''" "sample_process\<lparr>stdin := ''RR'' @ newline @ show_workload sample_jobs\<rparr>"
        "show_workload sample_jobs" sample_jobs]
    using sample_process_ok sample_clock by (simp add: Policies_def del: timespec_le)
qed

end
