(* ===== verification/Child_Props.thy ===== *)
theory Child_Props
  imports Samples
begin

text \<open>
  \<open>prj1/child.c\<close> by itself: when it ends and when it waits for input that does not come, with every operating
  system and argument; on an input of numbers the time it takes and its exit status are given by a
  recursion over the numbers.
\<close>

section \<open>Which runs end\<close>

definition child_ends :: "stop \<Rightarrow> bool" where
  "child_ends s = (s \<in> {Exited 0, Exited 1, Exited 2, Undefined Signed_Overflow})"

text \<open>The text is used up before a child with \<open>e\<close> units to go has what it needs.\<close>

function starves :: "string \<Rightarrow> int \<Rightarrow> bool" where
  "starves s e = (case scan_d s of
       Scan_EOF \<Rightarrow> True
     | Scan_Fail r \<Rightarrow> r = []
     | Scan_Int v r \<Rightarrow> r = [] \<or> INT_MIN \<le> v \<and> v \<le> INT_MAX \<and> max 0 v < e \<and> starves r (e - max 0 v))"
  by pat_completeness auto

termination by (relation "measure (\<lambda>(s, e). length s)") (auto dest: scan_d_consumes)

declare starves.simps [simp del]

lemma burn_ends: "wp (burn n e) (\<lambda>e' w'. e' = e - int n \<and> stdin w' = stdin w \<and> stdin_open w' = stdin_open w)
    (\<lambda>s _. child_ends s) w"
proof (induction n arbitrary: e w)
  case (Suc n)
  show ?case by (auto simp: wp_rules child_ends_def intro!: wp_mono [OF Suc])
qed (simp add: wp_rules)

text \<open>One round: it blocks, or it ends the child, or it has read a number that leaves something to do.\<close>

definition read_on :: "process \<Rightarrow> int \<Rightarrow> int \<Rightarrow> process \<Rightarrow> bool" where
  "read_on w e e' w' = (\<exists>v. scan_d (stdin w) = Scan_Int v (stdin w') \<and> stdin_open w' = stdin_open w \<and>
     INT_MIN \<le> v \<and> v \<le> INT_MAX \<and> max 0 v < e \<and> e' = e - max 0 v)"

lemma child_round_blocked:
  "scanf_d_ret w = None \<Longrightarrow> child_round nm p e w = None"
  by (simp add: child_round_def bind_def)

lemma scanf_blocked: "scanf_d_ret w = None \<longleftrightarrow> stdin_open w \<and>
    (case scan_d (stdin w) of Scan_EOF \<Rightarrow> True | Scan_Fail r \<Rightarrow> r = [] | Scan_Int v r \<Rightarrow> r = [])"
  by (auto simp: scanf_d_ret_def blocks_def bind_def checked_def return_def undef_def halt_def split: scanned.split)

lemma child_round_ends:
  assumes "scanf_d_ret w \<noteq> None"
  shows "wp (child_round nm p e) (read_on w e) (\<lambda>s _. child_ends s) w"
proof (cases "scan_d (stdin w)")
  case (Scan_Int v r)
  then have "\<not> blocks w r" using assms by (auto simp: scanf_blocked blocks_def)
  with Scan_Int have read: "wp scanf_d_ret Q E w = (if INT_MIN \<le> v \<and> v \<le> INT_MAX then Q (1, Some v) (w\<lparr>stdin := r\<rparr>)
      else E (Undefined Signed_Overflow) (w\<lparr>stdin := r\<rparr>))" for Q E
    by (simp add: wp_def scanf_d_ret_def bind_def checked_def return_def undef_def halt_def)
  show ?thesis
    by (simp add: child_round_def wp_bind read)
      (auto simp: wp_rules child_ends_def read_on_def Scan_Int max_def intro!: wp_mono [OF burn_ends])
next
  case (Scan_Fail r)
  then have "wp scanf_d_ret Q E w = Q (0, None) (w\<lparr>stdin := r\<rparr>)" for Q E
    using assms by (auto simp: wp_def scanf_d_ret_def scanf_blocked)
  then show ?thesis by (simp add: child_round_def wp_rules child_ends_def)
next
  case Scan_EOF
  then have "\<not> stdin_open w" using assms by (simp add: scanf_blocked)
  with Scan_EOF show ?thesis by (simp add: child_round_eof child_ends_def)
qed

lemma child_round_reads:
  assumes "child_round nm p e w = Some (Ret e', w')"
  shows "length (stdin w') < length (stdin w)"
proof -
  have "scanf_d_ret w \<noteq> None" using assms child_round_blocked [of w nm p e] by (metis option.distinct(1))
  from child_round_ends [OF this, of nm p e] assms show ?thesis
    by (auto simp: wp_def read_on_def dest: scan_d_consumes)
qed

lemma forever_step: "whileM (\<lambda>_. True) c e w = bind (c e) (whileM (\<lambda>_. True) c) w"
  by (simp add: whileM_step)

lemma child_loop_ends:
  "whileM (\<lambda>_. True) (child_round nm p) e w = None \<and> stdin_open w \<and> starves (stdin w) e \<or>
    wp (whileM (\<lambda>_. True) (child_round nm p) e) (\<lambda>_ _. False) (\<lambda>s _. child_ends s) w"
proof (induction "length (stdin w)" arbitrary: e w rule: less_induct)
  case less
  show ?case
  proof (cases "scanf_d_ret w")
    case None
    then have "starves (stdin w) e" "stdin_open w"
      by (auto simp: scanf_blocked starves.simps [of "stdin w"] split: scanned.splits)
    with child_round_blocked [OF None, of nm p e] show ?thesis by (simp add: forever_step bind_def)
  next
    case (Some x)
    then have "wp (child_round nm p e) (read_on w e) (\<lambda>s _. child_ends s) w" by (intro child_round_ends) simp
    then obtain r w1 where run: "child_round nm p e w = Some (r, w1)"
      and r: "case r of Ret e' \<Rightarrow> read_on w e e' w1 | Halt s \<Rightarrow> child_ends s"
      by (auto simp: wp_def split: option.splits)
    consider e' w' where "child_round nm p e w = Some (Ret e', w')" "read_on w e e' w'"
      | s w' where "child_round nm p e w = Some (Halt s, w')" "child_ends s"
      using run r by (cases r) auto
    then show ?thesis
    proof cases
      case 1
      then have "length (stdin w') < length (stdin w)" by (simp add: child_round_reads)
      from less [OF this, of e'] 1 show ?thesis
        by (auto simp: forever_step bind_def wp_def read_on_def starves.simps [of "stdin w"])
    next
      case 2
      then show ?thesis by (simp add: forever_step bind_def wp_def)
    qed
  qed
qed

lemma child_round_number:
  assumes "scan_d (stdin w) = Scan_Int c r" "\<not> blocks w r" "INT_MIN \<le> c" "c \<le> INT_MAX" "0 \<le> e" "e \<le> INT_MAX"
    and "os_ok (sys w)"
  shows "wp (child_round nm p e) Q E w = (let n = nat c; h = trace w @ replicate n Ev_Spin in
    if e \<le> max 0 c then E (Exited 0) (w\<lparr>stdin := r, trace := h @ [Ev_Stdout (msg_done p nm)]\<rparr>)
    else Q (e - max 0 c) (w\<lparr>stdin := r, trace := h @ [Ev_Setscheduler 0 97 0]\<rparr>))"
proof -
  have "wp (burn (nat c) e) Q E w1 = Q (e - max 0 c) (w1\<lparr>trace := trace w1 @ replicate (nat c) Ev_Spin\<rparr>)" for Q E w1
    using wp_burn [of e "nat c" Q E w1] assms(3-6) by simp
  with assms show ?thesis
    by (simp add: child_round_def wp_rules wp_scanf_d_ret_int os_ok_setscheduler Let_def)
qed

lemma child_loop_blocks:
  assumes "os_ok (sys w)" "stdin_open w" "starves (stdin w) e" "e \<le> INT_MAX"
  shows "whileM (\<lambda>_. True) (child_round nm p) e w = None"
  using assms
proof (induction "stdin w" e arbitrary: w rule: starves.induct)
  case (1 e)
  show ?case
  proof (cases "scanf_d_ret w")
    case None
    with child_round_blocked [OF None, of nm p e] show ?thesis by (simp add: forever_step bind_def)
  next
    case (Some x)
    then obtain v r where scan: "scan_d (stdin w) = Scan_Int v r" and r: "r \<noteq> []"
      and v: "INT_MIN \<le> v" "v \<le> INT_MAX" "max 0 v < e" "starves r (e - max 0 v)"
      using "1.prems"(2,3) scanf_blocked [of w] by (auto simp: starves.simps [of "stdin w"] split: scanned.splits)
    let ?w = "w\<lparr>stdin := r, trace := (trace w @ replicate (nat v) Ev_Spin) @ [Ev_Setscheduler 0 97 0]\<rparr>"
    have "wp (child_round nm p e) (\<lambda>e' w'. e' = e - max 0 v \<and> w' = ?w) never w"
      using v "1.prems"(1,4) r by (subst child_round_number [OF scan]) (auto simp: blocks_def Let_def)
    then have step: "child_round nm p e w = Some (Ret (e - max 0 v), ?w)" by (auto simp: wp_never_runs)
    have "whileM (\<lambda>_. True) (child_round nm p) (e - max 0 v) ?w = None"
      by (rule "1.hyps") (use scan r v "1.prems" in auto)
    with step show ?thesis by (simp add: forever_step bind_def)
  qed
qed

text \<open>The value of the second argument, and when a child waits for input that does not come.\<close>

definition arg_time :: "string \<Rightarrow> int" where
  "arg_time arg = (case scan_d arg of Scan_Int v _ \<Rightarrow> v | _ \<Rightarrow> 0)"

definition waits_forever :: "process \<Rightarrow> string \<Rightarrow> bool" where
  "waits_forever w arg = (stdin_open w \<and> - (2 ^ 31) \<le> arg_time arg \<and> arg_time arg < 2 ^ 31 \<and>
     starves (stdin w) (arg_time arg))"

lemma atoi_arg: "atoi arg = (checked (arg_time arg) :: (process, int) prog)"
  by (simp add: atoi_def arg_time_def checked_def split: scanned.split)

lemma child_main_loop: "child_main nm arg w = (if - (2 ^ 31) \<le> arg_time arg \<and> arg_time arg < 2 ^ 31
    then bind (whileM (\<lambda>_. True) (child_round nm (own_pid (sys w))) (arg_time arg)) (\<lambda>_. return 0) w
    else Some (Halt (Undefined Signed_Overflow), w))"
  by (auto simp: child_main_def atoi_arg checked_def getpid_def bind_def andThen_def return_def undef_def halt_def)

lemma child_main_ends: "child_main nm arg w = None \<and> waits_forever w arg \<or>
    (\<exists>s w'. child_main nm arg w = Some (Halt s, w') \<and> child_ends s)"
  using child_loop_ends [of nm "own_pid (sys w)" "arg_time arg" w]
  by (auto simp: child_main_loop waits_forever_def child_ends_def wp_halts bind_def)

lemma child_main_blocks: "os_ok (sys w) \<Longrightarrow> waits_forever w arg \<Longrightarrow> child_main nm arg w = None"
  using child_loop_blocks [of w "arg_time arg" nm "own_pid (sys w)"]
  by (simp add: child_main_loop waits_forever_def bind_def)

text \<open>C23: The job process ends or blocks. With every operating system, input and argument it exits with 0, 1 or 2, or
  has read a number or counted to a time that is outside \<open>int\<close>, unless it reads from a pipe that is
  open and whose text is used up before it has its time; on a working system it then does not return.\<close>
theorem child_terminates:
  "(child_main nm arg w = None \<and> waits_forever w arg \<or>
      (\<exists>s w'. child_main nm arg w = Some (Halt s, w') \<and>
        s \<in> {Exited 0, Exited 1, Exited 2, Undefined Signed_Overflow})) \<and>
    (os_ok (sys w) \<and> waits_forever w arg \<longrightarrow> child_main nm arg w = None)"
  using child_main_ends [of nm arg w] child_main_blocks [of w arg nm] unfolding child_ends_def by blast

theorem child_terminates_sample:
  "child_main ''P1'' ''7'' (sample_process\<lparr>stdin := ''5 '', stdin_open := True\<rparr>) = None \<and>
    child_main ''P1'' ''7'' (sample_process\<lparr>stdin := ''5 ''\<rparr>) \<noteq> None"
proof -
  let ?w = "sample_process\<lparr>stdin := ''5 '', stdin_open := True\<rparr>"
  have "waits_forever ?w ''7''"
    by (simp add: waits_forever_def arg_time_def starves.simps scan_d_def scan_number_def is_space_def is_digit_def
        digits_value_def digit_val_def)
  moreover have "\<not> waits_forever (sample_process\<lparr>stdin := ''5 ''\<rparr>) ''7''"
    by (simp add: waits_forever_def sample_process_def)
  ultimately show ?thesis
    using child_terminates [of "''P1''" "''7''" ?w] child_terminates [of "''P1''" "''7''" "sample_process\<lparr>stdin := ''5 ''\<rparr>"]
      sample_process_ok(1) by auto
qed

section \<open>Time and exit status\<close>

text \<open>
  What a child with \<open>e\<close> units of execution time spins for on the numbers \<open>cs\<close>: it stops reading with the
  number that completes it. A number that is not positive is read and has no effect.
\<close>

fun spent :: "int list \<Rightarrow> int \<Rightarrow> int" where
  "spent [] e = 0"
| "spent (c # cs) e = max 0 c + (if e \<le> max 0 c then 0 else spent cs (e - max 0 c))"

fun enough :: "int list \<Rightarrow> int \<Rightarrow> bool" where
  "enough [] e = False"
| "enough (c # cs) e = (e \<le> max 0 c \<or> enough cs (e - max 0 c))"

lemma reads_starves:
  assumes "reads op s cs" "\<not> enough cs e" "\<forall>c \<in> set cs. INT_MIN \<le> c \<and> c \<le> INT_MAX"
  shows "starves s e"
  using assms by (induction cs arbitrary: s e) (auto simp: reads_Cons starves.simps [of s for s])

lemma child_loop_spends:
  assumes "\<forall>c \<in> set cs. INT_MIN \<le> c \<and> c \<le> INT_MAX" "0 \<le> e" "e \<le> INT_MAX" "os_ok (sys w)" "reads (stdin_open w) (stdin w) cs"
    and "stdin_open w \<Longrightarrow> enough cs e"
  shows "wp (whileM (\<lambda>_. True) (child_round nm p) e) (\<lambda>_ _. False)
    (\<lambda>s w'. s = Exited (if enough cs e then 0 else 2) \<and> elapsed (trace w') = elapsed (trace w) + spent cs e) w"
  using assms
proof (induction cs arbitrary: e w)
  case Nil
  then have "\<not> stdin_open w" by auto
  with Nil show ?case by (subst wp_forever) (simp add: child_round_eof)
next
  case (Cons c cs)
  obtain r where scan: "scan_d (stdin w) = Scan_Int c r" "\<not> blocks w r" and r: "reads (stdin_open w) r cs"
    using Cons.prems(5) by (auto simp: reads_Cons blocks_def)
  have c: "INT_MIN \<le> c" "c \<le> INT_MAX" using Cons.prems(1) by simp_all
  show ?case
  proof (cases "e \<le> max 0 c")
    case True
    then show ?thesis
      by (subst wp_forever, subst child_round_number [OF scan c Cons.prems(2-4)]) (simp add: Let_def)
  next
    case False
    then have less: "0 \<le> e - max 0 c" "e - max 0 c \<le> INT_MAX" using Cons.prems(3) by linarith+
    let ?w = "w\<lparr>stdin := r, trace := (trace w @ replicate (nat c) Ev_Spin) @ [Ev_Setscheduler 0 97 0]\<rparr>"
    have IH: "wp (whileM (\<lambda>_. True) (child_round nm p) (e - max 0 c)) (\<lambda>_ _. False)
      (\<lambda>s w'. s = Exited (if enough cs (e - max 0 c) then 0 else 2) \<and>
        elapsed (trace w') = elapsed (trace ?w) + spent cs (e - max 0 c)) ?w"
      by (rule Cons.IH) (use Cons.prems less r False in auto)
    have "elapsed (trace ?w) = elapsed (trace w) + max 0 c" by (simp add: max_def)
    note IH = IH [unfolded this]
    show ?thesis
      by (subst wp_forever, subst child_round_number [OF scan c Cons.prems(2-4)])
        (use False IH in \<open>simp add: Let_def add.assoc\<close>)
  qed
qed

text \<open>C22: On an input of numbers the job process exits with 0 exactly if they add up to its execution time
  (what is not positive counts as 0); its time is the sum of the numbers up to the one that completes it,
  and what follows is not read. If they do not add up it spins for all of them and then exits with 2 at
  the end of the input, or waits for ever if the input is a pipe that stays open.\<close>
theorem child_spends:
  assumes "os_ok (sys w)" "reads (stdin_open w) (stdin w) cs" "\<forall>c \<in> set cs. - (2 ^ 31) \<le> c \<and> c < 2 ^ 31"
    and "0 \<le> e" "e < 2 ^ 31"
  shows "if stdin_open w \<and> \<not> enough cs e then child_main nm (show_int e) w = None
    else \<exists>w'. child_main nm (show_int e) w = Some (Halt (Exited (if enough cs e then 0 else 2)), w') \<and>
      elapsed (trace w') = elapsed (trace w) + spent cs e"
proof -
  have "\<forall>c \<in> set cs. INT_MIN \<le> c \<and> c \<le> INT_MAX" "e \<le> INT_MAX" using assms(3,5) by auto
  note C = this
  have arg: "arg_time (show_int e) = e" using scan_d_show_int [of "[]" e] by (simp add: arg_time_def)
  show ?thesis
  proof (cases "stdin_open w \<and> \<not> enough cs e")
    case True
    then have "waits_forever w (show_int e)"
      using reads_starves [OF assms(2) _ C(1)] assms(4,5) by (simp add: waits_forever_def arg)
    with True child_main_blocks [OF assms(1)] show ?thesis by simp
  next
    case False
    then have "stdin_open w \<Longrightarrow> enough cs e" by simp
    from child_loop_spends [OF C(1) assms(4) C(2) assms(1,2) this, of nm "own_pid (sys w)"] False show ?thesis
      using assms(4,5) by (auto simp: child_main_loop arg wp_halts bind_def)
  qed
qed

theorem child_spends_sample:
  "\<exists>w'. child_main ''P1'' (show_int 7) (sample_process\<lparr>stdin := ''5 -1 4 9''\<rparr>) = Some (Halt (Exited 0), w') \<and>
    elapsed (trace w') = 9"
proof -
  have "reads False ''5 -1 4 9'' [5, -1, 4, 9]"
    by (simp add: reads_Cons scan_d_def scan_number_def is_space_def is_digit_def digits_value_def digit_val_def)
  moreover have "\<not> stdin_open sample_process" by (simp add: sample_process_def)
  ultimately show ?thesis
    using child_spends [of "sample_process\<lparr>stdin := ''5 -1 4 9''\<rparr>" "[5, -1, 4, 9]" 7 "''P1''"] sample_process_ok(1,2)
    by (simp add: elapsed_def)
qed

end
