(* ===== verification/Rr_Zero.thy ===== *)
theory Rr_Zero
  imports Rr Child_Props
begin

text \<open>
  What \<open>rr.c\<close> does with a job whose execution time is 0, which the other theorems leave out.
\<close>

section \<open>A job that needs no time\<close>

lemma wp_run_job_none: "time \<le> 0 \<Longrightarrow> wp (run_job i time arr) Q E w = Q arr w"
  by (simp add: run_job_def wp_return)

lemma runToDie_zero:
  assumes "i < length (p_arr st)" "remain_time (p_arr st ! i) \<le> 0" "ts0 (p_arr st ! i) = None"
    and "p_pid (p_arr st ! i) = Some c"
  shows "wp (runToDie job i st) Q E w = E (Undefined Uninitialised)
    (w\<lparr>trace := trace w @ [Ev_Wait (wait_ret (sys w) (trace w)),
       Ev_Gettime (clock_now (sys w) (trace w @ [Ev_Wait (wait_ret (sys w) (trace w))]))]\<rparr>)"
  using assms by (simp add: runToDie_def wp_rules wp_run_job_none print_result_def Let_def)

text \<open>One job, ready at once: the first round forks it and goes straight to its end.\<close>

lemma RR_zero_round:
  assumes os: "os_ok (sys w)" and p: "r_time p = 0" "remain_time p = 0" "ts0 p = None" "length (show_int (e_time p)) < 50"
  shows "wp (RR_round 1 (RR_start [p])) (\<lambda>_ _. False) (\<lambda>s w'. s = Undefined Uninitialised \<and>
    (\<exists>h e t. trace w' = trace w @ h @ [Ev_Wait e, Ev_Gettime t] \<and> (\<forall>f x. Ev_Write f x \<notin> set h))) w"
proof -
  obtain r s where fd: "pipe_fds (sys w) (trace w) = Some (r, s)" using os_ok_pipe [OF os] by blast
  have one: "qsort rr_cmp [p] = [p]" by (simp add: qsort.simps)
  have fork: "\<not> fork_ret (sys w) h < 0" "fork_ret (sys w) h \<noteq> 0" for h
    using os_ok_fork [OF os, of h] by simp_all
  show ?thesis
    using p fd fork
    by (simp add: RR_round_def forkDue_def fork_child_def RR_start_def one wp_rules add_list_def malloc_node_def
        set_next_def set_last_def load_def arrivesFirst_def runToDie_zero TIME_QUANTUM_def Let_def)
      (intro exI [of _ "[Ev_Pipe r s, Ev_Cloexec r, Ev_Cloexec s, Ev_Fork _, Ev_Close r]"], simp)
qed

text \<open>A job process whose pipe is open and empty never gets past its first read.\<close>

lemma unwritten: "(\<forall>f x. Ev_Write f x \<notin> set h) \<Longrightarrow> pipe_input f h = []"
proof (induction h)
  case (Cons e h)
  then have "written f e = []" by (cases e) auto
  with Cons show ?case by (simp add: pipe_input_def writes_def)
qed (simp add: pipe_input_def)

lemma empty_pipe_blocks: "stdin c = [] \<Longrightarrow> stdin_open c \<Longrightarrow> child_main n (show_int 0) c = None"
proof -
  assume "stdin c = []" "stdin_open c"
  then have "child_round n p e c = None" for p e
    by (intro child_round_blocked) (simp add: scanf_blocked)
  then show ?thesis
    using scan_d_show_int [of "[]" 0] by (simp add: child_main_loop arg_time_def forever_step bind_def)
qed

text \<open>C39: A single job that is ready at time 0 and needs no time: RR writes nothing to its pipe and yet waits for it.
  The child, which reads its pipe first, does not return as long as the pipe is open; if the wait did
  return, the line printed would be made from a start time that was never taken.\<close>
theorem RR_zero_time:
  assumes "os_ok (sys w)" "trace w = []" "reads_workload (stdin w) [(n, 0, 0)]" "length n < 50"
  shows "\<exists>w'. RR w = Some (Halt (Undefined Uninitialised), w') \<and>
    (\<exists>h e t. trace w' = h @ [Ev_Wait e, Ev_Gettime t] \<and> (\<forall>f x. Ev_Write f x \<notin> set h) \<and>
      (\<forall>f c. stdin c = pipe_input f h \<and> stdin_open c \<longrightarrow> child_main n (show_int 0) c = None))"
proof -
  obtain r s1 s2 s3 where scan: "scan_d (stdin w) = Scan_Int 1 r" "scan_s r = Some (n, s1)" "scan_d s1 = Scan_Int 0 s2"
      "scan_d s2 = Scan_Int 0 s3"
    using assms(3) by (auto simp: reads_workload_iff reads_jobs_Cons)
  let ?w = "w\<lparr>trace := [Ev_Setscheduler 0 98 0], stdin := s3\<rparr>"
  let ?p = "\<lparr>p_name = n, r_time = 0, e_time = 0, ts0 = None, ts1 = None, p_pid = None, remain_time = 0, p_fd = None\<rparr>"
  let ?fin = "\<lambda>s w'. s = Undefined Uninitialised \<and>
      (\<exists>h e t. trace w' = h @ [Ev_Wait e, Ev_Gettime t] \<and> (\<forall>f x. Ev_Write f x \<notin> set h))"
  have round: "wp (RR_round (Suc 0) (RR_start [?p])) (\<lambda>_ _. False) ?fin ?w"
  proof (rule wp_mono [OF RR_zero_round [unfolded One_nat_def]], goal_cases)
    case (7 s w')
    then obtain h e t where "s = Undefined Uninitialised" "\<forall>f x. Ev_Write f x \<notin> set h"
      "trace w' = (Ev_Setscheduler 0 98 0 # h) @ [Ev_Wait e, Ev_Gettime t]" by auto
    then show ?case by (intro conjI exI [of _ "Ev_Setscheduler 0 98 0 # h"]) auto
  qed (use assms(1) in \<open>simp_all add: show_int_def show_nat.simps\<close>)
  have go: "finish (RR_start [?p]) < 1" by (simp add: RR_start_def)
  have "wp RR (\<lambda>_ _. False) ?fin w"
    using assms(2,4) scan os_ok_setscheduler [OF assms(1)]
    by (simp add: RR_def wp_rules wp_scanf_d wp_scanf_s readProcess_def malloc_p_def STR_SIZE_def
        whileM_step [of "\<lambda>st. finish st < 1", OF go], intro wp_mono [OF round]) simp_all
  then obtain w' h e t where "RR w = Some (Halt (Undefined Uninitialised), w')" "trace w' = h @ [Ev_Wait e, Ev_Gettime t]"
    and h: "\<forall>f x. Ev_Write f x \<notin> set h"
    by (auto simp: wp_ends)
  moreover have "\<forall>f c. stdin c = pipe_input f h \<and> stdin_open c \<longrightarrow> child_main n (show_int 0) c = None"
    using unwritten [OF h] empty_pipe_blocks by simp
  ultimately show ?thesis by blast
qed

theorem RR_zero_time_sample:
  "\<exists>w'. RR (sample_process\<lparr>stdin := show_workload [(''P1'', 0, 0)]\<rparr>) = Some (Halt (Undefined Uninitialised), w')"
  using RR_zero_time [of "sample_process\<lparr>stdin := show_workload [(''P1'', 0, 0)]\<rparr>" "''P1''"] sample_process_ok(1,2)
  by (auto simp: reads_show_workload words_ok_def is_space_def)

end
