(* ===== verification/Child2_Code.thy ===== *)
theory Child2_Code
  imports Child
begin

text \<open>
  \<open>prj1/child2.c\<close>: the job process with its progress written to the standard streams, which the
  Makefile does not build. The loop that spins is that of \<open>child.c\<close>.
\<close>

section \<open>The program\<close>

definition msg_step :: "int \<Rightarrow> string \<Rightarrow> int \<Rightarrow> int \<Rightarrow> string" where
  "msg_step pid arg1 x execution_time =
     ''children'' @ show_int pid @ '': '' @ arg1 @ '' '' @ show_int x @ '', '' @ show_int execution_time @ newline"

definition msg_finish :: "int \<Rightarrow> string" where
  "msg_finish execution_time = ''children:: finish '' @ show_int execution_time @ newline"

definition child2_round :: "string \<Rightarrow> int \<Rightarrow> int \<Rightarrow> (process, int) prog" where
  "child2_round arg1 pid execution_time =
     bind scanf_d_ret (\<lambda>(ret, x).
     if ret = -1 \<or> ret = 0 then
       andThen (eprint (msg_eof pid arg1)) (exit_with 2)
     else case x of None \<Rightarrow> undef Uninitialised | Some x \<Rightarrow>
       andThen (eprint (msg_step pid arg1 x execution_time))
       (bind (burn (nat x) execution_time) (\<lambda>execution_time.
        if execution_time \<le> 0 then exit_with 0
        else
          andThen (eprint (msg_finish execution_time))
          (bind (sys_setscheduler 0 97) (\<lambda>r.
           if r < 0 then
             andThen (eprint (msg_sched pid arg1)) (exit_with 1)
           else return execution_time)))))"

definition child2_main :: "string \<Rightarrow> string \<Rightarrow> (process, int) prog" where
  "child2_main arg1 arg2 =
     bind getpid (\<lambda>pid.
     bind (atoi arg2) (\<lambda>execution_time.
     andThen (print (msg_done pid arg1))
     (andThen (whileM (\<lambda>_. True) (child2_round arg1 pid) execution_time)
     (andThen (eprint (''children'' @ show_int pid @ '': '' @ arg1 @ '' end'' @ newline))
     (return 0)))))"

end
