(* ===== verification/Child2.thy ===== *)
theory Child2
  imports Child_Props Child2_Code
begin

text \<open>
  The two job processes, \<open>child.c\<close> and \<open>child2.c\<close>, do the same up to what they print.
\<close>

section \<open>Programs that differ in their output only\<close>

fun is_output :: "event \<Rightarrow> bool" where
  "is_output (Ev_Stdout s) = True"
| "is_output (Ev_Stderr s) = True"
| "is_output _ = False"

definition silent :: "event list \<Rightarrow> event list" where
  "silent h = filter (\<lambda>e. \<not> is_output e) h"

lemma silent_append [simp]: "silent (h @ h') = silent h @ silent h'"
  by (simp add: silent_def)

definition same_but_output :: "process \<Rightarrow> process \<Rightarrow> bool" where
  "same_but_output w v = (sys v = sys w \<and> stdin v = stdin w \<and> stdin_open v = stdin_open w \<and> silent (trace v) = silent (trace w) \<and> os_ok (sys w))"

fun related :: "('a res \<times> process) option \<Rightarrow> ('a res \<times> process) option \<Rightarrow> bool" where
  "related (Some (r, w)) (Some (s, v)) = (s = r \<and> same_but_output w v)"
| "related None None = True"
| "related _ _ = False"

definition agree :: "(process, 'a) prog \<Rightarrow> (process, 'a) prog \<Rightarrow> bool" where
  "agree m n = (\<forall>w v. same_but_output w v \<longrightarrow> related (m w) (n v))"

named_theorems agree_rules \<open>programs that agree up to their output\<close>

lemma related_bind:
  assumes "related x y" "\<And>a w v. x = Some (Ret a, w) \<Longrightarrow> same_but_output w v \<Longrightarrow> related (f a w) (g a v)"
  shows "related (case x of None \<Rightarrow> None | Some (Ret a, w) \<Rightarrow> f a w | Some (Halt s, w) \<Rightarrow> Some (Halt s, w))
    (case y of None \<Rightarrow> None | Some (Ret a, w) \<Rightarrow> g a w | Some (Halt s, w) \<Rightarrow> Some (Halt s, w))"
  using assms by (cases "(x, y)" rule: related.cases) (auto split: res.splits)

lemma agree_bind [agree_rules]: "agree m n \<Longrightarrow> (\<And>a. agree (f a) (g a)) \<Longrightarrow> agree (bind m f) (bind n g)"
  unfolding agree_def bind_def by (auto intro!: related_bind)

lemma agree_andThen [agree_rules]: "agree m n \<Longrightarrow> agree m' n' \<Longrightarrow> agree (andThen m m') (andThen n n')"
  unfolding andThen_def by (rule agree_bind)

lemma agree_plain [agree_rules]:
  "agree (return a) (return a)" "agree (halt s) (halt s)" "agree (undef u) (undef u)" "agree (exit_with c) (exit_with c)"
  by (simp_all add: agree_def return_def halt_def undef_def exit_with_def)

text \<open>What one of the two prints does not matter.\<close>

lemma output_same [simp]: "is_output e \<Longrightarrow> same_but_output (log_event e w) v = same_but_output w v"
  "is_output e \<Longrightarrow> same_but_output w (log_event e v) = same_but_output w v"
  by (simp_all add: same_but_output_def silent_def)

lemma agree_output_right:
  "agree m n \<Longrightarrow> agree m (andThen (print s) n)" "agree m n \<Longrightarrow> agree m (andThen (eprint s) n)"
  by (simp_all add: agree_def andThen_def bind_def print_def eprint_def emit_def)

lemma agree_output_left:
  "agree m n \<Longrightarrow> agree (andThen (print s) m) n" "agree m n \<Longrightarrow> agree (andThen (eprint s) m) n"
  by (simp_all add: agree_def andThen_def bind_def print_def eprint_def emit_def)

lemma event_same: "same_but_output w v \<Longrightarrow> same_but_output (log_event e w) (log_event e v)"
  by (simp add: same_but_output_def)

lemma agree_calls [agree_rules]: "agree getpid getpid" "agree (checked v) (checked v)" "agree (sub_i a b) (sub_i a b)"
  "agree spin spin" "agree scanf_d_ret scanf_d_ret" "agree (atoi t) (atoi t)"
  "agree (sys_setscheduler p prio) (sys_setscheduler p prio)"
proof -
  show checked: "agree (checked v) (checked v)" for v
    by (simp add: checked_def agree_plain)
  then show "agree (sub_i a b) (sub_i a b)" by (simp add: sub_i_def)
  show "agree getpid getpid" by (simp add: agree_def getpid_def same_but_output_def)
  show "agree spin spin" by (simp add: agree_def spin_def emit_def event_same)
  show "agree (atoi t) (atoi t)" by (simp add: atoi_def checked agree_plain split: scanned.split)
  show "agree (sys_setscheduler p prio) (sys_setscheduler p prio)"
    by (auto simp: agree_def sys_setscheduler_def syscall_def Let_def same_but_output_def os_ok_setscheduler)
  show "agree scanf_d_ret scanf_d_ret"
    by (auto simp: agree_def scanf_d_ret_def blocks_def bind_def checked_def return_def undef_def halt_def
        same_but_output_def split: scanned.split)
qed

lemma agree_burn [agree_rules]: "agree (burn n e) (burn n e)"
proof (induction n arbitrary: e)
  case (Suc n)
  then show ?case unfolding burn.simps by (intro agree_rules)
qed (simp add: agree_plain)

section \<open>The two job processes\<close>

lemma child2_round_agrees: "agree (child_round nm p e) (child2_round nm p e)"
  unfolding child_round_def child2_round_def
proof (rule agree_bind [OF agree_calls(5)], clarify)
  fix ret x
  show "agree (if ret = -1 \<or> ret = 0 then andThen (eprint (msg_eof p nm)) (exit_with 2)
      else case x of None \<Rightarrow> undef Uninitialised | Some x \<Rightarrow>
        bind (burn (nat x) e) (\<lambda>e. if e \<le> 0 then andThen (print (msg_done p nm)) (exit_with 0)
          else bind (sys_setscheduler 0 97) (\<lambda>r.
            if r < 0 then andThen (eprint (msg_sched p nm)) (exit_with 1) else return e)))
    (if ret = -1 \<or> ret = 0 then andThen (eprint (msg_eof p nm)) (exit_with 2)
      else case x of None \<Rightarrow> undef Uninitialised | Some x \<Rightarrow>
        andThen (eprint (msg_step p nm x e)) (bind (burn (nat x) e) (\<lambda>e. if e \<le> 0 then exit_with 0
          else andThen (eprint (msg_finish e)) (bind (sys_setscheduler 0 97) (\<lambda>r.
            if r < 0 then andThen (eprint (msg_sched p nm)) (exit_with 1) else return e)))))"
    by (cases "ret = -1 \<or> ret = 0"; cases x)
      (auto intro!: agree_output_left agree_output_right agree_rules split: if_split)
qed

lemma child2_loop_agrees:
  assumes "same_but_output w v"
  shows "related (whileM (\<lambda>_. True) (child_round nm p) e w) (whileM (\<lambda>_. True) (child2_round nm p) e v)"
  using assms
proof (induction "length (stdin w)" arbitrary: e w v rule: less_induct)
  case less
  have "related (bind (child_round nm p e) (whileM (\<lambda>_. True) (child_round nm p)) w)
      (bind (child2_round nm p e) (whileM (\<lambda>_. True) (child2_round nm p)) v)"
    unfolding bind_def
  proof (rule related_bind)
    show "related (child_round nm p e w) (child2_round nm p e v)"
      using child2_round_agrees less.prems by (simp add: agree_def)
    fix a w' v'
    assume run: "child_round nm p e w = Some (Ret a, w')" and same: "same_but_output w' v'"
    from less.hyps [OF child_round_reads [OF run] same] show "related (whileM (\<lambda>_. True) (child_round nm p) a w')
      (whileM (\<lambda>_. True) (child2_round nm p) a v')" .
  qed
  then show ?case by (simp add: whileM_step)
qed

text \<open>C24: The two job processes are equivalent: from the same input, arguments and operating system either both end,
  with the same status, having read the same input and made the same system calls in the same
  order, apart from what they write to the standard streams; or both wait for ever on a pipe that is open.\<close>
theorem child2_equivalent:
  assumes "os_ok (sys w)"
  shows "if waits_forever w arg then child_main nm arg w = None \<and> child2_main nm arg w = None
    else \<exists>s w1 w2. child_main nm arg w = Some (Halt s, w1) \<and> child2_main nm arg w = Some (Halt s, w2) \<and>
      stdin w2 = stdin w1 \<and> silent (trace w2) = silent (trace w1)"
proof -
  have loop: "agree (whileM (\<lambda>_. True) (child_round nm p) e) (whileM (\<lambda>_. True) (child2_round nm p) e)" for p e
    by (simp add: agree_def child2_loop_agrees)
  have "agree (child_main nm arg) (child2_main nm arg)"
    unfolding child_main_def child2_main_def
    by (intro agree_bind agree_calls agree_output_right agree_andThen loop agree_plain)
  moreover have "same_but_output w w" using assms by (simp add: same_but_output_def)
  ultimately have rel: "related (child_main nm arg w) (child2_main nm arg w)" by (simp add: agree_def)
  show ?thesis
  proof (cases "waits_forever w arg")
    case True
    with rel child_main_blocks [OF assms True, of nm] show ?thesis by (cases "child2_main nm arg w") auto
  next
    case False
    then obtain s w1 where "child_main nm arg w = Some (Halt s, w1)" using child_main_ends [of nm arg w] by blast
    with rel False show ?thesis
      by (cases "(child_main nm arg w, child2_main nm arg w)" rule: related.cases)
        (auto simp: same_but_output_def)
  qed
qed

theorem child2_equivalent_sample:
  "\<exists>s w1 w2. child_main ''P1'' ''7'' sample_process = Some (Halt s, w1) \<and>
    child2_main ''P1'' ''7'' sample_process = Some (Halt s, w2) \<and> silent (trace w2) = silent (trace w1)"
proof -
  have "\<not> waits_forever sample_process ''7''" by (simp add: waits_forever_def sample_process_def)
  then show ?thesis using child2_equivalent [OF sample_process_ok(1), of "''7''" "''P1''"] by auto
qed

end
