(* ===== verification/Input_Types.thy ===== *)
theory Input_Types
  imports Samples
begin

text \<open>
  The text that comes in and goes out of the schedulers: what \<open>readFile\<close> makes of an arbitrary input, with
  no assumption on its format or its length, and the size of a result line.
\<close>

section \<open>Input\<close>

text \<open>
  The jobs of a text, without arrays or processes: a name of fewer than 32 bytes and two numbers of type
  \<open>int\<close> for each, and the text behind them; or what is wrong with the first bad field.
\<close>

definition parse_name :: "string \<Rightarrow> undefined_behaviour + string \<times> string" where
  "parse_name s = (case scan_s s of
       None \<Rightarrow> Inl Uninitialised
     | Some (n, r) \<Rightarrow> if length n < 32 then Inr (n, r) else Inl Buffer_Overrun)"

definition parse_int :: "string \<Rightarrow> undefined_behaviour + int \<times> string" where
  "parse_int s = (case scan_d s of
       Scan_Int v r \<Rightarrow> if - (2 ^ 31) \<le> v \<and> v < 2 ^ 31 then Inr (v, r) else Inl Signed_Overflow
     | _ \<Rightarrow> Inl Uninitialised)"

definition parse_job :: "string \<Rightarrow> undefined_behaviour + (string \<times> int \<times> int) \<times> string" where
  "parse_job s = (case parse_name s of Inl u \<Rightarrow> Inl u | Inr (n, s) \<Rightarrow>
     (case parse_int s of Inl u \<Rightarrow> Inl u | Inr (ready, s) \<Rightarrow>
     (case parse_int s of Inl u \<Rightarrow> Inl u | Inr (exec, s) \<Rightarrow> Inr ((n, ready, exec), s))))"

primrec parse_jobs :: "nat \<Rightarrow> string \<Rightarrow> undefined_behaviour + workload \<times> string" where
  "parse_jobs 0 s = Inr ([], s)"
| "parse_jobs (Suc n) s = (case parse_jobs n s of Inl u \<Rightarrow> Inl u | Inr (js, s) \<Rightarrow>
     (case parse_job s of Inl u \<Rightarrow> Inl u | Inr (j, s) \<Rightarrow> Inr (js @ [j], s)))"

text \<open>A bad field stops the reading.\<close>

lemma parse_jobs_stops: "parse_jobs k s = Inl u \<Longrightarrow> k \<le> n \<Longrightarrow> parse_jobs n s = Inl u"
  by (induction n) (auto simp: le_Suc_eq)

lemma wp_scanf_name: "wp (scanf_s 32) Q E w = (case parse_name (stdin w) of
     Inr (n, r) \<Rightarrow> Q n (w\<lparr>stdin := r\<rparr>)
   | Inl u \<Rightarrow> E (Undefined u) (case scan_s (stdin w) of None \<Rightarrow> w | Some (n, r) \<Rightarrow> w\<lparr>stdin := r\<rparr>))"
  by (auto simp: wp_def scanf_s_def parse_name_def return_def undef_def halt_def split: option.split)

lemma wp_scanf_int: "wp scanf_d Q E w = (case parse_int (stdin w) of
     Inr (v, r) \<Rightarrow> Q v (w\<lparr>stdin := r\<rparr>)
   | Inl u \<Rightarrow> E (Undefined u) (case scan_d (stdin w) of Scan_Int v r \<Rightarrow> w\<lparr>stdin := r\<rparr> | _ \<Rightarrow> w))"
  by (auto simp: wp_def scanf_d_def parse_int_def checked_def return_def undef_def halt_def split: scanned.split)

text \<open>An entry of the array with what was read of it.\<close>

definition entry_read :: "DATA \<Rightarrow> string \<times> int \<times> int" where
  "entry_read d = (name d, ready_time d, execution_time d)"

definition entry_typed :: "DATA \<Rightarrow> bool" where
  "entry_typed d = (length (name d) < 32 \<and> - (2 ^ 31) \<le> ready_time d \<and> ready_time d < 2 ^ 31 \<and>
     - (2 ^ 31) \<le> execution_time d \<and> execution_time d < 2 ^ 31 \<and> flag d = 1)"

lemma readJob_parses:
  assumes "i < length arr" "\<forall>h. pipe_fds (sys w) h \<noteq> None"
  shows "wp (readJob i arr)
    (\<lambda>arr' w'. \<exists>d fds. arr' = arr[i := d] \<and> entry_typed d \<and> fd d = fds \<and> pid d = pid (arr ! i) \<and>
       parse_job (stdin w) = Inr (entry_read d, stdin w') \<and>
       sys w' = sys w \<and> pipes (trace w') = pipes (trace w) @ [fds])
    (\<lambda>s _. \<exists>u. s = Undefined u \<and> parse_job (stdin w) = Inl u) w"
proof -
  obtain a b where fds: "pipe_fds (sys w) (trace w) = Some (a, b)" using assms(2) by fastforce
  have later: "pipes (trace w @ [Ev_Pipe a b, Ev_Cloexec a, Ev_Cloexec b]) = pipes (trace w) @ [(a, b)]"
    by (simp add: pipes_def)
  show ?thesis
    using assms(1) fds later
    by (auto simp: readJob_def wp_bind wp_andThen wp_scanf_name wp_scanf_int wp_sys_pipe wp_sys_plain wp_at wp_return
        parse_job_def split: sum.split)
      ((intro exI conjI, rule refl), auto simp: entry_read_def entry_typed_def parse_name_def parse_int_def
        split: option.splits scanned.splits if_splits)
qed

text \<open>C34: On every input \<open>readFile\<close> reads exactly the jobs that the text holds. If a field is missing, too long or no
  \<open>int\<close>, the run is undefined in just that way. Otherwise it returns an array of as many entries as
  asked for, each with the name, ready time and execution time of its job in the order of the text, the
  pipe made for it and its flag set, with a name that fits its 32 bytes and times of type \<open>int\<close>; and
  the text behind the jobs is left unread.\<close>
theorem readFile_types:
  assumes "\<forall>h. pipe_fds (sys w) h \<noteq> None"
  shows "case parse_jobs N (stdin w) of
      Inl u \<Rightarrow> \<exists>w'. readFile N (malloc_DATA N) w = Some (Halt (Undefined u), w')
    | Inr (js, rest) \<Rightarrow> \<exists>arr w'. readFile N (malloc_DATA N) w = Some (Ret arr, w') \<and> length arr = N \<and>
        map entry_read arr = js \<and> list_all entry_typed arr \<and>
        pipes (trace w') = pipes (trace w) @ map fd arr \<and> stdin w' = rest"
proof -
  let ?I = "\<lambda>k arr w'. length arr = N \<and> sys w' = sys w \<and>
      parse_jobs k (stdin w) = Inr (map entry_read (take k arr), stdin w') \<and> list_all entry_typed (take k arr) \<and>
      pipes (trace w') = pipes (trace w) @ map fd (take k arr)"
  have "wp (readFile N (malloc_DATA N)) (?I N) (\<lambda>s _. \<exists>u. s = Undefined u \<and> parse_jobs N (stdin w) = Inl u) w"
    unfolding readFile_def
  proof (rule wp_forM [where I = ?I], goal_cases)
    case (2 k arr w1)
    then have k: "k < length arr" "[0..<N] ! k = k" by simp_all
    have "\<forall>h. pipe_fds (sys w1) h \<noteq> None" using 2 assms by simp
    from readJob_parses [OF k(1) this] show ?case unfolding k(2)
    proof (rule wp_mono, goal_cases)
      case (1 arr' w2)
      then show ?case using 2 k(1) by (auto simp: take_Suc_conv_app_nth)
    next
      case (2 s w2)
      then obtain u where u: "s = Undefined u" "parse_job (stdin w1) = Inl u" by auto
      with \<open>?I k arr w1\<close> have "parse_jobs (Suc k) (stdin w) = Inl u" by simp
      from parse_jobs_stops [OF this, of N] u(1) \<open>?I k arr w1\<close> k(1) show ?case by auto
    qed
  qed (auto simp: malloc_DATA_def)
  then obtain r w' where run: "readFile N (malloc_DATA N) w = Some (r, w')"
    and post: "case r of Ret arr \<Rightarrow> ?I N arr w' | Halt s \<Rightarrow> \<exists>u. s = Undefined u \<and> parse_jobs N (stdin w) = Inl u"
    by (auto simp: wp_def split: option.splits)
  then show ?thesis by (cases r) auto
qed

theorem readFile_types_sample:
  "\<exists>arr w'. readFile 2 (malloc_DATA 2) (sample_process\<lparr>stdin := ''P1 2 5 P2 0 3 rest''\<rparr>) = Some (Ret arr, w') \<and>
    map entry_read arr = [(''P1'', 2, 5), (''P2'', 0, 3)] \<and> stdin w' = '' rest''"
proof -
  have "parse_jobs 2 ''P1 2 5 P2 0 3 rest'' = Inr ([(''P1'', 2, 5), (''P2'', 0, 3)], '' rest'')"
    by (simp add: eval_nat_numeral parse_job_def parse_name_def parse_int_def scan_s_def scan_d_def scan_number_def
        is_space_def is_digit_def digits_value_def digit_val_def)
  then show ?thesis
    using readFile_types [of "sample_process\<lparr>stdin := ''P1 2 5 P2 0 3 rest''\<rparr>" 2]
    by (auto simp: sample_process_def sample_os_def)
qed

section \<open>Output\<close>

text \<open>C35: The line for a finished job, for every process number and all times of less than 10^18 seconds, needs at
  most 81 of the 100 bytes of the buffer it is built in, and is handed to the kernel in one call.\<close>
theorem print_result_fits:
  assumes "- (2 ^ 31) \<le> p" "p < 2 ^ 31" "time_ok t0" "time_ok t1"
  shows "\<exists>w' l. print_result p (Some t0) (Some t1) w = Some (Ret (), w') \<and>
    trace w' = trace w @ [Ev_Myprint l] \<and> length l \<le> 81"
proof -
  have p: "INT_MIN \<le> p" "p \<le> INT_MAX" using assms(1,2) by simp_all
  have "wp (print_result p (Some t0) (Some t1)) (\<lambda>_ w'. trace w' = trace w @ [Ev_Myprint (result_line p t0 t1)]) never w"
    using print_result_ok [OF p assms(3,4)] by simp
  with length_result_line [OF p assms(3,4)] show ?thesis by (auto simp: wp_never_runs)
qed

theorem print_result_fits_sample:
  "\<exists>w' l. print_result 42 (Some \<lparr>tv_sec = 5, tv_nsec = 7\<rparr>) (Some \<lparr>tv_sec = 6, tv_nsec = 0\<rparr>) sample_process =
    Some (Ret (), w') \<and> trace w' = [Ev_Myprint l] \<and> length l \<le> 81"
  using print_result_fits [of 42 "\<lparr>tv_sec = 5, tv_nsec = 7\<rparr>" "\<lparr>tv_sec = 6, tv_nsec = 0\<rparr>" sample_process]
    sample_process_ok(2) by (simp add: time_ok_def)

end
