(* ===== verification/Kernel_World.thy ===== *)
theory Kernel_World
  imports C_Library
begin

text \<open>
  The world of \<open>prj2\<close>: one machine with its kernel's socket layer, memory and open files, as the
  modules \<open>ksocket\<close>, \<open>master_device\<close>, \<open>slave_device\<close> and the programs \<open>master\<close> and \<open>slave\<close> see it.
  Code that is not in the repository (the protocol's operations, the allocator, user copies) is the
  parameter \<open>env\<close> of the model: a function of the log of everything that happened before, so
  that every behaviour is possible. Each call is logged with the address limit in force.
  The record is extended by each module with its static variables; the operations here and in
  \<open>ksocket\<close> work on every extension.
\<close>

section \<open>Data\<close>

type_synonym bytes = string

datatype mm_segment = USER_DS | KERNEL_DS

record sockaddr_in =
  sin_family :: int
  sin_port :: "16 word"
  s_addr :: "32 word"

text \<open>What the modules read and write of a \<open>struct socket\<close>; \<open>sk_ops\<close> names the table of operations.\<close>

record ksock =
  sk_family :: int
  sk_type :: int
  sk_protocol :: int
  sk_ops :: nat

datatype sock_op =
    Bind sockaddr_in int
  | Listen int
  | Connect sockaddr_in int int
  | Accept nat int
  | Getname int
  | Shutdown int
  | Release
  | Setsockopt int int bytes int

datatype call =
    Sock_create int int int
  | Op nat nat sock_op
  | Sock_release nat
  | Sock_sendmsg nat bytes int "(sockaddr_in \<times> int) option"
  | Sock_recvmsg nat nat int
  | Sock_setsockopt nat int int bytes int
  | Misc_register | Misc_deregister | Debugfs_create | Debugfs_remove
  | Kmalloc | Get_zeroed_page
  | Copy_from_user nat | Copy_to_user nat
  | Printk string | Set_comm string
  | Open_file string | Open_device string | Stat string
  | Read_file nat | Write_file bytes | Mmap_file nat nat | Mmap_device | Munmap_file nat
  | Close_file | Close_device
  | Perror string | Report "64 word"

record entry =
  at_fs :: mm_segment
  the_call :: call
  result :: int
  received :: bytes

record env =
  answer :: "entry list \<Rightarrow> call \<Rightarrow> int"
  new_socket :: "entry list \<Rightarrow> (nat \<times> ksock) option"
  name_stored :: "entry list \<Rightarrow> call \<Rightarrow> sockaddr_in \<times> int"
  incoming :: "entry list \<Rightarrow> call \<Rightarrow> int + bytes"
  uninitialised :: "entry list \<Rightarrow> 32 word"
  pte_of :: "64 word \<Rightarrow> 64 word"

record mmap_info =
  data :: "nat option"
  reference :: "32 word"

record vm_area =
  has_vm_ops :: bool
  vm_flags :: "64 word"
  vm_private_data :: "nat option"

record machine =
  env_of :: env
  klog :: "entry list"
  fs :: mm_segment
  socks :: "nat \<Rightarrow> ksock option"
  infos :: "nat \<Rightarrow> mmap_info option"
  pages :: "nat \<Rightarrow> bytes option"
  unused_address :: nat
  private_data :: "nat \<Rightarrow> nat option"
  vmas :: "nat \<Rightarrow> vm_area option"
  file_data :: bytes
  file_pos :: nat

text \<open>
  \<open>private_data\<close> maps an open device file to the value of that field (\<open>None\<close> for \<open>NULL\<close>);
  \<open>file_data\<close> and \<open>file_pos\<close> belong to the one regular file that a user program has open.
\<close>

text \<open>
  The tables of handlers through which the kernel calls a driver; \<open>None\<close> is a field that the driver
  leaves \<open>NULL\<close>. A request has besides its number and parameter the text in the user's memory at the
  parameter.
\<close>

record 'w file_operations =
  op_ioctl :: "nat \<Rightarrow> 32 word \<Rightarrow> 64 word \<Rightarrow> string \<Rightarrow> ('w, int) prog"
  op_open :: "nat \<Rightarrow> ('w, int) prog"
  op_read :: "(nat \<Rightarrow> ('w, int \<times> bytes) prog) option"
  op_write :: "(bytes \<Rightarrow> nat \<Rightarrow> ('w, int) prog) option"
  op_release :: "nat \<Rightarrow> ('w, int) prog"
  op_mmap :: "nat \<Rightarrow> nat \<Rightarrow> ('w, int) prog"

record 'w vm_operations =
  vop_open :: "nat \<Rightarrow> ('w, unit) prog"
  vop_close :: "nat \<Rightarrow> ('w, unit) prog"
  vop_fault :: "nat \<Rightarrow> ('w, int \<times> nat option) prog"

section \<open>Calls\<close>

definition gets :: "('w \<Rightarrow> 'a) \<Rightarrow> ('w, 'a) prog" where
  "gets f = (\<lambda>w. Some (Ret (f w), w))"

definition update :: "('w \<Rightarrow> 'w) \<Rightarrow> ('w, unit) prog" where
  "update f = (\<lambda>w. Some (Ret (), f w))"

definition log_call :: "call \<Rightarrow> int \<Rightarrow> bytes \<Rightarrow> 'm machine_scheme \<Rightarrow> 'm machine_scheme" where
  "log_call c r bs w = w\<lparr>klog := klog w @ [\<lparr>at_fs = fs w, the_call = c, result = r, received = bs\<rparr>]\<rparr>"

definition do_call :: "call \<Rightarrow> ('m machine_scheme, int) prog" where
  "do_call c = (\<lambda>w. let r = answer (env_of w) (klog w) c in Some (Ret r, log_call c r [] w))"

definition printk :: "string \<Rightarrow> ('m machine_scheme, unit) prog" where
  "printk s = (\<lambda>w. Some (Ret (), log_call (Printk s) 0 [] w))"

definition get_fs :: "('m machine_scheme, mm_segment) prog" where
  "get_fs = (\<lambda>w. Some (Ret (fs w), w))"

definition set_fs :: "mm_segment \<Rightarrow> ('m machine_scheme, unit) prog" where
  "set_fs s = (\<lambda>w. Some (Ret (), w\<lparr>fs := s\<rparr>))"

text \<open>Following a socket pointer: \<open>NULL\<close> and memory given back to the kernel have no object.\<close>

definition socket_at :: "nat option \<Rightarrow> ('m machine_scheme, nat \<times> ksock) prog" where
  "socket_at p = (\<lambda>w. case p of
       None \<Rightarrow> undef Null_Dereference w
     | Some a \<Rightarrow> (case socks w a of
         None \<Rightarrow> undef Null_Dereference w
       | Some k \<Rightarrow> return (a, k) w))"

definition sock_create :: "int \<Rightarrow> int \<Rightarrow> int \<Rightarrow> ('m machine_scheme, int \<times> nat option) prog" where
  "sock_create family type protocol = (\<lambda>w.
     let c = Sock_create family type protocol;
         r = answer (env_of w) (klog w) c;
         s = (if r < 0 then None else new_socket (env_of w) (klog w));
         w' = log_call c r [] w
     in case s of
          None \<Rightarrow> Some (Ret (r, None), w')
        | Some (a, k) \<Rightarrow> Some (Ret (r, Some a), w'\<lparr>socks := (socks w')(a \<mapsto> k)\<rparr>))"

definition sock_release :: "nat option \<Rightarrow> ('m machine_scheme, unit) prog" where
  "sock_release p = bind (socket_at p) (\<lambda>(a, k).
     bind (do_call (Sock_release a)) (\<lambda>_. \<lambda>w. Some (Ret (), w\<lparr>socks := (socks w)(a := None)\<rparr>)))"

text \<open>\<open>sk->ops->op(sk, ...)\<close>\<close>

definition sock_call :: "nat option \<Rightarrow> sock_op \<Rightarrow> ('m machine_scheme, int) prog" where
  "sock_call p op = bind (socket_at p) (\<lambda>(a, k). do_call (Op (sk_ops k) a op))"

text \<open>\<open>sk->ops->getname\<close> also stores a name and its length through its arguments.\<close>

definition sock_getname :: "nat option \<Rightarrow> int \<Rightarrow> ('m machine_scheme, int \<times> sockaddr_in \<times> int) prog" where
  "sock_getname p peer = bind (socket_at p) (\<lambda>(a, k). \<lambda>w.
     let c = Op (sk_ops k) a (Getname peer); r = answer (env_of w) (klog w) c in
     Some (Ret (r, name_stored (env_of w) (klog w) c), log_call c r [] w))"

text \<open>A message of \<open>length\<close> bytes read from a buffer that must be that long.\<close>

definition sock_sendmsg :: "nat option \<Rightarrow> bytes \<Rightarrow> nat \<Rightarrow> int \<Rightarrow> (sockaddr_in \<times> int) option
    \<Rightarrow> ('m machine_scheme, int) prog" where
  "sock_sendmsg p buffer n flags to =
     bind (socket_at p) (\<lambda>(a, k).
     if length buffer < n then undef Out_Of_Bounds
     else do_call (Sock_sendmsg a (take n buffer) flags to))"

text \<open>The result and the bytes stored in the buffer, at most \<open>n\<close>.\<close>

definition sock_recvmsg :: "nat option \<Rightarrow> nat \<Rightarrow> int \<Rightarrow> ('m machine_scheme, int \<times> bytes) prog" where
  "sock_recvmsg p n flags = bind (socket_at p) (\<lambda>(a, k). \<lambda>w.
     let c = Sock_recvmsg a n flags in
     case incoming (env_of w) (klog w) c of
       Inl e \<Rightarrow> Some (Ret (e, []), log_call c e [] w)
     | Inr bs \<Rightarrow> Some (Ret (int (length bs), bs), log_call c (int (length bs)) bs w))"

text \<open>The same with a sender's name stored.\<close>

definition sock_recvfrom :: "nat option \<Rightarrow> nat \<Rightarrow> int
    \<Rightarrow> ('m machine_scheme, int \<times> bytes \<times> sockaddr_in \<times> int) prog" where
  "sock_recvfrom p n flags = bind (socket_at p) (\<lambda>(a, k). \<lambda>w.
     let name = name_stored (env_of w) (klog w) (Sock_recvmsg a n flags) in
     bind (sock_recvmsg p n flags) (\<lambda>(len, buffer). return (len, buffer, name)) w)"

section \<open>Memory\<close>

text \<open>Page size; the answer 0 to an allocation is \<open>NULL\<close>.\<close>

definition PAGE_SIZE :: nat where "PAGE_SIZE = 4096"

definition kmalloc_info :: "('m machine_scheme, nat option) prog" where
  "kmalloc_info = bind (do_call Kmalloc) (\<lambda>r.
     if r = 0 then return None
     else (\<lambda>w. let a = unused_address w in
       Some (Ret (Some a), w\<lparr>infos := (infos w)(a \<mapsto> \<lparr>data = None, reference = uninitialised (env_of w) (klog w)\<rparr>),
         unused_address := a + 1\<rparr>)))"

definition get_zeroed_page :: "('m machine_scheme, nat option) prog" where
  "get_zeroed_page = bind (do_call Get_zeroed_page) (\<lambda>r.
     if r = 0 then return None
     else (\<lambda>w. let a = unused_address w in
       Some (Ret (Some a), w\<lparr>pages := (pages w)(a \<mapsto> replicate PAGE_SIZE (CHR 0x00)),
         unused_address := a + 1\<rparr>)))"

definition free_page :: "nat option \<Rightarrow> ('m machine_scheme, unit) prog" where
  "free_page p = update (\<lambda>w. case p of None \<Rightarrow> w | Some a \<Rightarrow> w\<lparr>pages := (pages w)(a := None)\<rparr>)"

definition kfree_info :: "nat option \<Rightarrow> ('m machine_scheme, unit) prog" where
  "kfree_info p = update (\<lambda>w. case p of None \<Rightarrow> w | Some a \<Rightarrow> w\<lparr>infos := (infos w)(a := None)\<rparr>)"

text \<open>Following a pointer to an info or to a page.\<close>

definition info_at :: "nat option \<Rightarrow> ('m machine_scheme, nat \<times> mmap_info) prog" where
  "info_at p = (\<lambda>w. case p of
       None \<Rightarrow> undef Null_Dereference w
     | Some a \<Rightarrow> (case infos w a of
         None \<Rightarrow> undef Null_Dereference w
       | Some i \<Rightarrow> return (a, i) w))"

definition set_info :: "nat \<Rightarrow> mmap_info \<Rightarrow> ('m machine_scheme, unit) prog" where
  "set_info a i = update (\<lambda>w. w\<lparr>infos := (infos w)(a \<mapsto> i)\<rparr>)"

definition vma_at :: "nat \<Rightarrow> ('m machine_scheme, vm_area) prog" where
  "vma_at v = (\<lambda>w. case vmas w v of None \<Rightarrow> undef Null_Dereference w | Some a \<Rightarrow> return a w)"

definition page_bytes :: "nat option \<Rightarrow> ('m machine_scheme, bytes) prog" where
  "page_bytes p = gets (\<lambda>w. case p of None \<Rightarrow> []
     | Some a \<Rightarrow> (case pages w a of None \<Rightarrow> [] | Some bs \<Rightarrow> bs))"

text \<open>Bytes stored at the start of a page.\<close>

definition store_page :: "nat option \<Rightarrow> bytes \<Rightarrow> ('m machine_scheme, unit) prog" where
  "store_page p bs = (if bs = [] then return () else (\<lambda>w. case p of
       None \<Rightarrow> undef Null_Dereference w
     | Some a \<Rightarrow> (case pages w a of
         None \<Rightarrow> undef Null_Dereference w
       | Some old \<Rightarrow> (if length bs \<le> length old
           then Some (Ret (), w\<lparr>pages := (pages w)(a \<mapsto> bs @ drop (length bs) old)\<rparr>)
           else undef Buffer_Overrun w))))"

section \<open>Printing\<close>

text \<open>\<open>%lX\<close> prints with the letters from \<open>A\<close>, \<open>%p\<close> with those from \<open>a\<close>.\<close>

definition hex_digit :: "char \<Rightarrow> nat \<Rightarrow> char" where
  "hex_digit ten d = char_of (if d < 10 then 48 + d else of_char ten + (d - 10))"

fun show_hex_from :: "char \<Rightarrow> nat \<Rightarrow> string" where
  "show_hex_from ten n = (if n < 16 then [hex_digit ten n]
     else show_hex_from ten (n div 16) @ [hex_digit ten (n mod 16)])"

declare show_hex_from.simps [simp del]

definition show_hex :: "nat \<Rightarrow> string" where
  "show_hex = show_hex_from (CHR ''A'')"

definition show_pointer :: "nat option \<Rightarrow> string" where
  "show_pointer p = (case p of None \<Rightarrow> pad_blank 16 ''(null)''
     | Some a \<Rightarrow> (let s = show_hex_from (CHR ''a'') a in replicate (16 - length s) (CHR ''0'') @ s))"

definition show_text :: "string option \<Rightarrow> string" where
  "show_text s = (case s of None \<Rightarrow> ''(null)'' | Some t \<Rightarrow> t)"

definition htons :: "16 word \<Rightarrow> 16 word" where
  "htons x = or (push_bit 8 x) (drop_bit 8 x)"

section \<open>Symbolic execution\<close>

lemma wp_gets [wp_rules]: "wp (gets f) Q E w = Q (f w) w"
  by (simp add: wp_def gets_def)

lemma wp_update [wp_rules]: "wp (update f) Q E w = Q () (f w)"
  by (simp add: wp_def update_def)

lemma wp_info_at [wp_rules]: "wp (info_at p) Q E w =
    (case Option.bind p (infos w) of
       None \<Rightarrow> E (Undefined Null_Dereference) w | Some i \<Rightarrow> Q (the p, i) w)"
  by (auto simp: wp_def info_at_def undef_def halt_def return_def split: option.split)

lemma wp_vma_at [wp_rules]: "wp (vma_at v) Q E w =
    (case vmas w v of None \<Rightarrow> E (Undefined Null_Dereference) w | Some a \<Rightarrow> Q a w)"
  by (auto simp: wp_def vma_at_def undef_def halt_def return_def split: option.split)

lemma wp_page_bytes [wp_rules]: "wp (page_bytes p) Q E w = Q (case Option.bind p (pages w) of
    None \<Rightarrow> [] | Some bs \<Rightarrow> bs) w"
  by (simp add: page_bytes_def wp_gets split: option.split)

lemma wp_store_page [wp_rules]: "wp (store_page p bs) Q E w =
    (if bs = [] then Q () w
     else case Option.bind p (pages w) of
       None \<Rightarrow> E (Undefined Null_Dereference) w
     | Some old \<Rightarrow> if length bs \<le> length old
         then Q () (w\<lparr>pages := (pages w)(the p \<mapsto> bs @ drop (length bs) old)\<rparr>)
         else E (Undefined Buffer_Overrun) w)"
  by (auto simp: wp_def store_page_def undef_def halt_def return_def split: option.split)

lemmas wp_memory [wp_rules] = wp_update [where f = "\<lambda>w. w\<lparr>infos := (infos w)(a \<mapsto> i)\<rparr>" for a i, folded set_info_def]

lemma wp_free_page [wp_rules]: "wp (free_page p) Q E w =
    Q () (case p of None \<Rightarrow> w | Some a \<Rightarrow> w\<lparr>pages := (pages w)(a := None)\<rparr>)"
  by (simp add: free_page_def wp_update)

lemma wp_kfree_info [wp_rules]: "wp (kfree_info p) Q E w =
    Q () (case p of None \<Rightarrow> w | Some a \<Rightarrow> w\<lparr>infos := (infos w)(a := None)\<rparr>)"
  by (simp add: kfree_info_def wp_update)

lemma wp_do_call [wp_rules]: "wp (do_call c) Q E w =
    Q (answer (env_of w) (klog w) c) (log_call c (answer (env_of w) (klog w) c) [] w)"
  by (simp add: wp_def do_call_def Let_def)

lemma wp_printk [wp_rules]: "wp (printk s) Q E w = Q () (log_call (Printk s) 0 [] w)"
  by (simp add: wp_def printk_def)

lemma wp_get_fs [wp_rules]: "wp get_fs Q E w = Q (fs w) w"
  by (simp add: wp_def get_fs_def)

lemma wp_set_fs [wp_rules]: "wp (set_fs s) Q E w = Q () (w\<lparr>fs := s\<rparr>)"
  by (simp add: wp_def set_fs_def)

lemma wp_socket_at [wp_rules]: "wp (socket_at p) Q E w =
    (case Option.bind p (socks w) of
       None \<Rightarrow> E (Undefined Null_Dereference) w | Some k \<Rightarrow> Q (the p, k) w)"
  by (auto simp: wp_def socket_at_def undef_def halt_def return_def split: option.split)

lemma log_call_simps [simp]:
  "klog (log_call c r bs w) = klog w @ [\<lparr>at_fs = fs w, the_call = c, result = r, received = bs\<rparr>]"
  "env_of (log_call c r bs w) = env_of w" "fs (log_call c r bs w) = fs w"
  "socks (log_call c r bs w) = socks w" "infos (log_call c r bs w) = infos w"
  "pages (log_call c r bs w) = pages w" "unused_address (log_call c r bs w) = unused_address w"
  "private_data (log_call c r bs w) = private_data w" "vmas (log_call c r bs w) = vmas w"
  "file_data (log_call c r bs w) = file_data w" "file_pos (log_call c r bs w) = file_pos w"
  "machine.more (log_call c r bs w) = machine.more w"
  by (simp_all add: log_call_def)

end
