(* ===== verification/Ksocket.thy ===== *)
theory Ksocket
  imports Kernel_World
begin

text \<open>
  \<open>prj2/src/sample/ksocket/ksocket.c\<close>: BSD-style socket calls for kernel code, function by
  function, and the two address helpers. \<open>sxg_debug\<close> expands to nothing; \<open>KSOCKET_ADDR_SAFE\<close> is not
  defined, so the functions that hand a kernel buffer to the socket layer lift the address limit
  to \<open>KERNEL_DS\<close> around the call. A pointer argument through which a value comes back is a
  component of the result.
\<close>

section \<open>Sockets\<close>

definition SOMAXCONN :: int where "SOMAXCONN = 128"
definition SOL_SOCKET :: int where "SOL_SOCKET = 1"
definition ENOSYS :: int where "ENOSYS = 38"

type_synonym ksocket_t = "nat option"

definition ksocket :: "int \<Rightarrow> int \<Rightarrow> int \<Rightarrow> ('m machine_scheme, ksocket_t) prog" where
  "ksocket domain type protocol =
     bind (sock_create domain type protocol) (\<lambda>(ret, sk).
     if ret < 0 then return None else return sk)"

definition kbind :: "ksocket_t \<Rightarrow> sockaddr_in \<Rightarrow> int \<Rightarrow> ('m machine_scheme, int) prog" where
  "kbind socket address address_len = sock_call socket (Bind address address_len)"

text \<open>The comparison is unsigned: a negative backlog is a large one.\<close>

definition klisten :: "ksocket_t \<Rightarrow> int \<Rightarrow> ('m machine_scheme, int) prog" where
  "klisten socket backlog =
     (let backlog = (if uint (word_of_int backlog :: 32 word) > SOMAXCONN then SOMAXCONN else backlog)
      in sock_call socket (Listen backlog))"

definition kconnect :: "ksocket_t \<Rightarrow> sockaddr_in \<Rightarrow> int \<Rightarrow> ('m machine_scheme, int) prog" where
  "kconnect socket address address_len = sock_call socket (Connect address address_len 0)"

text \<open>\<open>new_sk->type = sk->type; new_sk->ops = sk->ops;\<close>\<close>

definition copy_type_and_ops :: "nat \<Rightarrow> ksock \<Rightarrow> ('m machine_scheme, unit) prog" where
  "copy_type_and_ops new k = bind (socket_at (Some new)) (\<lambda>(a, n). \<lambda>w.
     Some (Ret (), w\<lparr>socks := (socks w)(a \<mapsto> n\<lparr>sk_type := sk_type k, sk_ops := sk_ops k\<rparr>)\<rparr>))"

definition error_kaccept :: "nat \<Rightarrow> ('m machine_scheme, ksocket_t) prog" where
  "error_kaccept new_sk = andThen (sock_release (Some new_sk)) (return None)"

text \<open>
  \<open>address\<close> is \<open>None\<close> for \<open>NULL\<close>, else the present contents of the caller's variables; the
  second component of the result is what they hold afterwards.
\<close>

definition kaccept :: "ksocket_t \<Rightarrow> (sockaddr_in \<times> int) option
    \<Rightarrow> ('m machine_scheme, ksocket_t \<times> (sockaddr_in \<times> int) option) prog" where
  "kaccept socket address =
     bind (socket_at socket) (\<lambda>(sk, k).
     bind (sock_create (sk_family k) (sk_type k) (sk_protocol k)) (\<lambda>(ret, new_sk).
     if ret < 0 then return (None, address)
     else case new_sk of
       None \<Rightarrow> return (None, address)
     | Some new_sk \<Rightarrow>
         andThen (copy_type_and_ops new_sk k)
         (bind (sock_call socket (Accept new_sk 0)) (\<lambda>ret.
          if ret < 0 then bind (error_kaccept new_sk) (\<lambda>r. return (r, address))
          else case address of
            None \<Rightarrow> return (Some new_sk, None)
          | Some _ \<Rightarrow>
              bind (sock_getname (Some new_sk) 2) (\<lambda>(ret, name).
              if ret < 0 then bind (error_kaccept new_sk) (\<lambda>r. return (r, Some name))
              else return (Some new_sk, Some name))))))"

definition krecv :: "ksocket_t \<Rightarrow> nat \<Rightarrow> int \<Rightarrow> ('m machine_scheme, int \<times> bytes) prog" where
  "krecv socket n flags =
     bind get_fs (\<lambda>old_fs.
     andThen (set_fs KERNEL_DS)
     (bind (sock_recvmsg socket n flags) (\<lambda>(ret, buffer).
      andThen (set_fs old_fs)
      (return (ret, buffer)))))"

definition ksend :: "ksocket_t \<Rightarrow> bytes \<Rightarrow> nat \<Rightarrow> int \<Rightarrow> ('m machine_scheme, int) prog" where
  "ksend socket buffer n flags =
     bind get_fs (\<lambda>old_fs.
     andThen (set_fs KERNEL_DS)
     (bind (sock_sendmsg socket buffer n flags None) (\<lambda>len.
      andThen (set_fs old_fs)
      (return len))))"

definition kshutdown :: "ksocket_t \<Rightarrow> int \<Rightarrow> ('m machine_scheme, int) prog" where
  "kshutdown socket how = (if socket \<noteq> None then sock_call socket (Shutdown how) else return 0)"

definition kclose :: "ksocket_t \<Rightarrow> ('m machine_scheme, int) prog" where
  "kclose socket =
     bind (sock_call socket Release) (\<lambda>ret.
     andThen (if socket \<noteq> None then sock_release socket else return ())
     (return ret))"

text \<open>
  The sender's address comes back through \<open>msg_name\<close> (the buffer \<open>address\<close>) and \<open>msg_namelen\<close>,
  which is 128 before the call.
\<close>

definition krecvfrom :: "ksocket_t \<Rightarrow> nat \<Rightarrow> int \<Rightarrow> bool
    \<Rightarrow> ('m machine_scheme, int \<times> bytes \<times> (sockaddr_in \<times> int) option) prog" where
  "krecvfrom socket n flags wants_address =
     bind get_fs (\<lambda>old_fs.
     andThen (set_fs KERNEL_DS)
     (bind (sock_recvfrom socket n flags) (\<lambda>(len, buffer, name).
      andThen (set_fs old_fs)
      (return (len, buffer, if wants_address then Some name else None)))))"

text \<open>Without a destination, \<open>msg_name\<close> and \<open>msg_namelen\<close> are never set.\<close>

definition ksendto :: "ksocket_t \<Rightarrow> bytes \<Rightarrow> nat \<Rightarrow> int \<Rightarrow> sockaddr_in option \<Rightarrow> int
    \<Rightarrow> ('m machine_scheme, int) prog" where
  "ksendto socket message n flags dest_addr dest_len =
     bind get_fs (\<lambda>old_fs.
     andThen (set_fs KERNEL_DS)
     (case dest_addr of
        None \<Rightarrow> undef Uninitialised
      | Some address \<Rightarrow>
          bind (sock_sendmsg socket message n flags (Some (address, dest_len))) (\<lambda>len.
          andThen (set_fs old_fs)
          (return len))))"

definition kgetsockname :: "ksocket_t \<Rightarrow> ('m machine_scheme, int \<times> sockaddr_in \<times> int) prog" where
  "kgetsockname socket = sock_getname socket 0"

definition kgetpeername :: "ksocket_t \<Rightarrow> ('m machine_scheme, int \<times> sockaddr_in \<times> int) prog" where
  "kgetpeername socket = sock_getname socket 1"

definition ksetsockopt :: "ksocket_t \<Rightarrow> int \<Rightarrow> int \<Rightarrow> bytes \<Rightarrow> int \<Rightarrow> ('m machine_scheme, int) prog" where
  "ksetsockopt socket level optname optval optlen =
     bind get_fs (\<lambda>old_fs.
     andThen (set_fs KERNEL_DS)
     (bind (if level = SOL_SOCKET
            then bind (socket_at socket) (\<lambda>(a, k). do_call (Sock_setsockopt a level optname optval optlen))
            else sock_call socket (Setsockopt level optname optval optlen)) (\<lambda>ret.
      andThen (set_fs old_fs)
      (return ret))))"

definition kgetsockopt :: "ksocket_t \<Rightarrow> int \<Rightarrow> int \<Rightarrow> ('m machine_scheme, int) prog" where
  "kgetsockopt socket level optname = return (- ENOSYS)"

section \<open>Addresses\<close>

text \<open>
  The kernel's \<open>sscanf\<close> with \<open>"%d.%d.%d.%d"\<close>: blanks, an optional minus sign and digits for
  each number, the dots as they are; the numbers after the first mismatch are not stored. A number
  too large for \<open>int\<close> is reduced modulo a power of two, which the later cut to \<open>char\<close> does not see.
\<close>

definition sscanf_d :: "string \<Rightarrow> (int \<times> string) option" where
  "sscanf_d s = (case dropWhile is_space s of
       [] \<Rightarrow> None
     | c # cs \<Rightarrow> (let neg = (c = CHR ''-''); t = (if neg then cs else c # cs);
           ds = takeWhile is_digit t; v = int (digits_value ds) in
         if ds = [] then None else Some (if neg then - v else v, dropWhile is_digit t)))"

fun sscanf_dots :: "nat \<Rightarrow> string \<Rightarrow> int list" where
  "sscanf_dots 0 s = []"
| "sscanf_dots (Suc n) s = (case sscanf_d s of
       None \<Rightarrow> []
     | Some (v, r) \<Rightarrow> v # (if n = 0 then [] else if r \<noteq> [] \<and> hd r = CHR ''.'' then sscanf_dots n (tl r) else []))"

text \<open>The low byte of a number, and a little-endian \<open>unsigned int\<close> of four bytes.\<close>

definition low_byte :: "int \<Rightarrow> 32 word" where
  "low_byte v = word_of_int (v mod 256)"

definition inet_addr :: "string \<Rightarrow> ('w, 32 word) prog" where
  "inet_addr ip = (case sscanf_dots 4 ip of
       [a, b, c, d] \<Rightarrow> return (low_byte a + push_bit 8 (low_byte b) + push_bit 16 (low_byte c) +
          push_bit 24 (low_byte d))
     | _ \<Rightarrow> undef Uninitialised)"

definition dotted :: "32 word \<Rightarrow> string" where
  "dotted int_ip =
     show_int (uint (and int_ip 0xFF)) @ ''.'' @
     show_int (uint (and (drop_bit 8 int_ip) 0xFF)) @ ''.'' @
     show_int (uint (and (drop_bit 16 int_ip) 0xFF)) @ ''.'' @
     show_int (uint (and (drop_bit 24 int_ip) 0xFF))"

text \<open>A failed \<open>kmalloc\<close> is the answer 0 to the call.\<close>

definition inet_ntoa :: "32 word \<Rightarrow> ('m machine_scheme, string option) prog" where
  "inet_ntoa int_ip =
     bind (do_call Kmalloc) (\<lambda>str_ip.
     if str_ip = 0 then return None
     else bind (sprintf 16 (dotted int_ip)) (\<lambda>str_ip. return (Some str_ip)))"

definition ksocket_init :: "('m machine_scheme, int) prog" where
  "ksocket_init =
     andThen (printk (''ksocket version 0.0.2'' @ [CHR 0x0A] @ ''BSD-style socket APIs for kernel 2.6 developers'' @ [CHR 0x0A] @
        ''msn : song.xian-guang@hotmail.com'' @ [CHR 0x0A] @ ''blog: http://sxg.cublog.cn'' @ [CHR 0x0A]))
     (return 0)"

definition ksocket_exit :: "('m machine_scheme, unit) prog" where
  "ksocket_exit = printk (''ksocket exit'' @ [CHR 0x0A])"

end
