(* ===== verification/Kernel_Samples.thy ===== *)
theory Kernel_Samples
  imports Kernel_World
begin

text \<open>
  A concrete machine on which the hypotheses of the theorems about \<open>prj2\<close> hold: socket 7 listens,
  the allocator and the socket layer always succeed, addresses are handed out in increasing order.
\<close>

definition sample_sock :: ksock where
  "sample_sock = \<lparr>sk_family = 2, sk_type = 1, sk_protocol = 6, sk_ops = 1\<rparr>"

definition sample_peer :: sockaddr_in where
  "sample_peer = \<lparr>sin_family = 2, sin_port = 4242, s_addr = 0x0100007F\<rparr>"

fun sample_answer :: "entry list \<Rightarrow> call \<Rightarrow> int" where
  "sample_answer h (Sock_sendmsg a bs flags to) = int (length bs)"
| "sample_answer h (Write_file bs) = int (length bs)"
| "sample_answer h (Read_file n) = int n"
| "sample_answer h Kmalloc = 1"
| "sample_answer h Get_zeroed_page = 1"
| "sample_answer h c = 0"

definition sample_env :: env where
  "sample_env = \<lparr>answer = sample_answer, new_socket = (\<lambda>h. Some (8 + length h, sample_sock)),
     name_stored = (\<lambda>h c. (sample_peer, 16)), incoming = (\<lambda>h c. Inr ''hello''),
     uninitialised = (\<lambda>h. 0xDEADBEEF), pte_of = (\<lambda>a. 0)\<rparr>"

definition sample_machine :: machine where
  "sample_machine = \<lparr>env_of = sample_env, klog = [], fs = USER_DS, socks = [7 \<mapsto> sample_sock],
     infos = Map.empty, pages = Map.empty, unused_address = 100, private_data = Map.empty, vmas = Map.empty,
     file_data = [], file_pos = 0\<rparr>"

lemma sample_machine_simps [simp]:
  "env_of sample_machine = sample_env" "klog sample_machine = []" "fs sample_machine = USER_DS"
  "socks sample_machine = [7 \<mapsto> sample_sock]" "answer sample_env = sample_answer"
  "new_socket sample_env h = Some (8 + length h, sample_sock)"
  by (simp_all add: sample_machine_def sample_env_def)

end
