(* ===== verification/Ksocket_Props.thy ===== *)
theory Ksocket_Props
  imports Ksocket Kernel_Samples
begin

text \<open>
  Facts about \<open>ksocket.c\<close>: how each call runs on a socket that exists (collection
  \<open>socket_run\<close>), that the address limit is lifted for the call and only for it, that a failed
  \<open>kaccept\<close> leaves no socket behind, and that the two address helpers are inverse to each other.
\<close>

named_theorems socket_run \<open>runs of the socket calls on a socket that exists\<close>

section \<open>Calls on a socket that exists\<close>

lemma sock_call_null: "Option.bind p (socks w) = None \<Longrightarrow>
    wp (sock_call p op) Q E w = E (Undefined Null_Dereference) w"
  by (simp add: sock_call_def wp_rules)

lemma wp_sock_call [socket_run]: "socks w a = Some k \<Longrightarrow> wp (sock_call (Some a) op) Q E w =
    (let c = Op (sk_ops k) a op; r = answer (env_of w) (klog w) c in Q r (log_call c r [] w))"
  by (simp add: sock_call_def wp_rules Let_def)

lemma wp_sock_release [socket_run]: "socks w a = Some k \<Longrightarrow> wp (sock_release (Some a)) Q E w =
    (let r = answer (env_of w) (klog w) (Sock_release a) in
     Q () (log_call (Sock_release a) r [] w\<lparr>socks := (socks w)(a := None)\<rparr>))"
  unfolding sock_release_def by (simp add: wp_rules Let_def) (simp add: wp_def)

lemma wp_sock_getname [socket_run]: "socks w a = Some k \<Longrightarrow> wp (sock_getname (Some a) peer) Q E w =
    (let c = Op (sk_ops k) a (Getname peer); r = answer (env_of w) (klog w) c in
     Q (r, name_stored (env_of w) (klog w) c) (log_call c r [] w))"
  unfolding sock_getname_def by (simp add: wp_rules Let_def) (simp add: wp_def)

lemma wp_sock_sendmsg [socket_run]: "socks w a = Some k \<Longrightarrow> n \<le> length buf \<Longrightarrow>
    wp (sock_sendmsg (Some a) buf n flags to) Q E w =
    (let c = Sock_sendmsg a (take n buf) flags to; r = answer (env_of w) (klog w) c in
     Q r (log_call c r [] w))"
  by (simp add: sock_sendmsg_def wp_rules Let_def)

lemma sock_sendmsg_overread: "socks w a = Some k \<Longrightarrow> length buf < n \<Longrightarrow>
    wp (sock_sendmsg (Some a) buf n flags to) Q E w = E (Undefined Out_Of_Bounds) w"
  by (simp add: sock_sendmsg_def wp_rules)

text \<open>What a receive returns and stores.\<close>

definition recv_ret :: "int + bytes \<Rightarrow> int" where
  "recv_ret r = (case r of Inl e \<Rightarrow> e | Inr bs \<Rightarrow> int (length bs))"

definition recv_bytes :: "int + bytes \<Rightarrow> bytes" where
  "recv_bytes r = (case r of Inl _ \<Rightarrow> [] | Inr bs \<Rightarrow> bs)"

lemma recv_simps [simp]: "recv_ret (Inl e) = e" "recv_ret (Inr bs) = int (length bs)"
    "recv_bytes (Inl e) = []" "recv_bytes (Inr bs) = bs"
  by (simp_all add: recv_ret_def recv_bytes_def)

lemma wp_sock_recvmsg [socket_run]: "socks w a = Some k \<Longrightarrow> wp (sock_recvmsg (Some a) n flags) Q E w =
    (let c = Sock_recvmsg a n flags; r = incoming (env_of w) (klog w) c in
     Q (recv_ret r, recv_bytes r) (log_call c (recv_ret r) (recv_bytes r) w))"
  unfolding sock_recvmsg_def
  by (simp add: wp_rules Let_def) (simp add: wp_def split: sum.split)

lemma wp_sock_recvfrom [socket_run]: "socks w a = Some k \<Longrightarrow> wp (sock_recvfrom (Some a) n flags) Q E w =
    (let c = Sock_recvmsg a n flags; r = incoming (env_of w) (klog w) c in
     Q (recv_ret r, recv_bytes r, name_stored (env_of w) (klog w) c)
       (log_call c (recv_ret r) (recv_bytes r) w))"
  unfolding sock_recvfrom_def sock_recvmsg_def
  by (simp add: wp_rules Let_def)
    (simp add: wp_def bind_def return_def socket_at_def split: sum.split)

section \<open>The address limit\<close>

text \<open>
  \<open>lifted m w\<close>: \<open>m\<close> makes one call, with the limit lifted to \<open>KERNEL_DS\<close>, and returns with
  the limit of its caller and no other change.
\<close>

definition lifted :: "('m machine_scheme, 'a) prog \<Rightarrow> 'm machine_scheme \<Rightarrow> bool" where
  "lifted m w = (\<exists>r c ret bs. m w = Some (Ret r,
     w\<lparr>klog := klog w @ [\<lparr>at_fs = KERNEL_DS, the_call = c, result = ret, received = bs\<rparr>]\<rparr>))"

lemma wp_ksend [socket_run]: "socks w a = Some k \<Longrightarrow> n \<le> length buf \<Longrightarrow> wp (ksend (Some a) buf n flags) Q E w =
    (let c = Sock_sendmsg a (take n buf) flags None; r = answer (env_of w) (klog w) c in
     Q r (w\<lparr>klog := klog w @ [\<lparr>at_fs = KERNEL_DS, the_call = c, result = r, received = []\<rparr>]\<rparr>))"
  by (simp add: ksend_def wp_rules socket_run Let_def log_call_def)

lemma wp_krecv [socket_run]: "socks w a = Some k \<Longrightarrow> wp (krecv (Some a) n flags) Q E w =
    (let c = Sock_recvmsg a n flags; r = incoming (env_of w) (klog w) c in
     Q (recv_ret r, recv_bytes r) (w\<lparr>klog := klog w @
       [\<lparr>at_fs = KERNEL_DS, the_call = c, result = recv_ret r, received = recv_bytes r\<rparr>]\<rparr>))"
  by (simp add: krecv_def wp_rules socket_run Let_def log_call_def)

lemma wp_ksendto [socket_run]: "socks w a = Some k \<Longrightarrow> n \<le> length buf \<Longrightarrow>
    wp (ksendto (Some a) buf n flags (Some dest) dlen) Q E w =
    (let c = Sock_sendmsg a (take n buf) flags (Some (dest, dlen)); r = answer (env_of w) (klog w) c in
     Q r (w\<lparr>klog := klog w @ [\<lparr>at_fs = KERNEL_DS, the_call = c, result = r, received = []\<rparr>]\<rparr>))"
  by (simp add: ksendto_def wp_rules socket_run Let_def log_call_def)

lemma wp_krecvfrom [socket_run]: "socks w a = Some k \<Longrightarrow> wp (krecvfrom (Some a) n flags want) Q E w =
    (let c = Sock_recvmsg a n flags; r = incoming (env_of w) (klog w) c in
     Q (recv_ret r, recv_bytes r, if want then Some (name_stored (env_of w) (klog w) c) else None)
       (w\<lparr>klog := klog w @
       [\<lparr>at_fs = KERNEL_DS, the_call = c, result = recv_ret r, received = recv_bytes r\<rparr>]\<rparr>))"
  by (simp add: krecvfrom_def wp_rules socket_run Let_def log_call_def)

lemma wp_ksetsockopt [socket_run]: "socks w a = Some k \<Longrightarrow> wp (ksetsockopt (Some a) level opt v len) Q E w =
    (let c = (if level = SOL_SOCKET then Sock_setsockopt a level opt v len
              else Op (sk_ops k) a (Setsockopt level opt v len));
         r = answer (env_of w) (klog w) c in
     Q r (w\<lparr>klog := klog w @ [\<lparr>at_fs = KERNEL_DS, the_call = c, result = r, received = []\<rparr>]\<rparr>))"
  by (simp add: ksetsockopt_def wp_rules socket_run Let_def log_call_def)

lemma liftedI:
  assumes "wp m (\<lambda>r w'. \<exists>c ret bs. w' =
      w\<lparr>klog := klog w @ [\<lparr>at_fs = KERNEL_DS, the_call = c, result = ret, received = bs\<rparr>]\<rparr>) never w"
  shows "lifted m w"
  using assms unfolding wp_never_runs lifted_def by fastforce

text \<open>C26: On a socket that exists each of \<open>ksend\<close>, \<open>krecv\<close>, \<open>ksendto\<close>, \<open>krecvfrom\<close> and \<open>ksetsockopt\<close>
  makes exactly one call to the socket layer, with the address limit lifted to \<open>KERNEL_DS\<close> so that
  the kernel buffer is accepted, and restores the limit of its caller whatever the call returns.\<close>
theorem ksocket_address_limit:
  assumes "socks w a = Some k" "n \<le> length buf"
  shows "lifted (ksend (Some a) buf n flags) w \<and> lifted (krecv (Some a) m flags) w \<and>
    lifted (ksendto (Some a) buf n flags (Some dest) dlen) w \<and> lifted (krecvfrom (Some a) m flags want) w \<and>
    lifted (ksetsockopt (Some a) level opt v len) w"
  using assms by (intro conjI liftedI) (auto simp: socket_run Let_def)

theorem ksocket_address_limit_sample:
  "lifted (ksend (Some 7) ''hello'' 5 0) sample_machine \<and> lifted (krecv (Some 7) 4096 0) sample_machine"
  using ksocket_address_limit [of sample_machine 7 sample_sock 5 "''hello''"] by simp

section \<open>Accepting and closing\<close>

lemma wp_sock_create: "wp (sock_create family type protocol) Q E w =
    (let r = answer (env_of w) (klog w) (Sock_create family type protocol);
         w' = log_call (Sock_create family type protocol) r [] w in
     if r < 0 then Q (r, None) w'
     else case new_socket (env_of w) (klog w) of
       None \<Rightarrow> Q (r, None) w'
     | Some (a, k) \<Rightarrow> Q (r, Some a) (w'\<lparr>socks := (socks w')(a \<mapsto> k)\<rparr>))"
  by (simp add: wp_def sock_create_def Let_def split: option.split)

lemma wp_copy_type_and_ops [socket_run]: "socks w a = Some n \<Longrightarrow> wp (copy_type_and_ops a k) Q E w =
    Q () (w\<lparr>socks := (socks w)(a \<mapsto> n\<lparr>sk_type := sk_type k, sk_ops := sk_ops k\<rparr>)\<rparr>)"
  unfolding copy_type_and_ops_def by (simp add: wp_rules) (simp add: wp_def)

lemma wp_error_kaccept [socket_run]: "socks w a = Some n \<Longrightarrow> wp (error_kaccept a) Q E w =
    (let r = answer (env_of w) (klog w) (Sock_release a) in
     Q None (log_call (Sock_release a) r [] w\<lparr>socks := (socks w)(a := None)\<rparr>))"
  by (simp add: error_kaccept_def wp_rules socket_run Let_def)

text \<open>The socket layer never hands out the address of a socket in use.\<close>

definition fresh_sockets :: "'m machine_scheme \<Rightarrow> bool" where
  "fresh_sockets w = (\<forall>b k. new_socket (env_of w) (klog w) = Some (b, k) \<longrightarrow> socks w b = None)"

definition calls :: "'m machine_scheme \<Rightarrow> (call \<times> int) list" where
  "calls w = map (\<lambda>e. (the_call e, result e)) (klog w)"

lemma calls_log [simp]: "calls (log_call c r bs w) = calls w @ [(c, r)]"
  by (simp add: calls_def)

lemma calls_update [simp]:
  "calls (w\<lparr>socks := S\<rparr>) = calls w" "calls (w\<lparr>fs := s\<rparr>) = calls w" "calls (w\<lparr>infos := I\<rparr>) = calls w"
  "calls (w\<lparr>pages := P\<rparr>) = calls w" "calls (w\<lparr>unused_address := u\<rparr>) = calls w"
  "calls (w\<lparr>private_data := D\<rparr>) = calls w" "calls (w\<lparr>vmas := V\<rparr>) = calls w"
  by (simp_all add: calls_def)

text \<open>What \<open>kaccept\<close> on socket \<open>a\<close> leaves behind in \<open>w'\<close>, by its result.\<close>

definition accepted :: "nat \<Rightarrow> ksock \<Rightarrow> 'm machine_scheme \<Rightarrow> ksocket_t \<Rightarrow> 'm machine_scheme \<Rightarrow> bool" where
  "accepted a k w r w' = (case r of
       None \<Rightarrow> socks w' = socks w
     | Some b \<Rightarrow> \<exists>k' ret. socks w b = None \<and> socks w' = (socks w)(b \<mapsto> k') \<and>
         sk_type k' = sk_type k \<and> sk_ops k' = sk_ops k \<and>
         (Op (sk_ops k) a (Accept b 0), ret) \<in> set (calls w') \<and> 0 \<le> ret)"

lemma kaccept_accepted:
  assumes "socks w a = Some k" "fresh_sockets w"
  shows "wp (kaccept (Some a) address) (\<lambda>(r, name) w'. fs w' = fs w \<and> accepted a k w r w' \<and>
    machine.more w' = machine.more w) never w"
proof (cases "new_socket (env_of w) (klog w)")
  case None
  with assms(1) show ?thesis
    by (simp add: kaccept_def wp_rules wp_sock_create accepted_def Let_def)
next
  case (Some p)
  obtain b n where p: "p = (b, n)" by (cases p)
  with Some assms have new: "socks w b = None" "a \<noteq> b"
    by (auto simp: fresh_sockets_def)
  then have undone: "(socks w)(b := None) = socks w" by auto
  show ?thesis
    using assms(1) new Some p undone
    by (auto simp: kaccept_def wp_rules wp_sock_create socket_run accepted_def Let_def not_less)
qed

text \<open>C25: \<open>kaccept\<close> on a listening socket returns without undefined behaviour. Either it returns \<open>NULL\<close>
  and the table of sockets is as before, so that a socket made for a connection that was not
  accepted or has no name is released again; or it returns a new socket of the type and
  operations of the listening one, on which the protocol's \<open>accept\<close> has succeeded.\<close>
theorem kaccept_no_leak:
  assumes "socks w a = Some k" "fresh_sockets w"
  shows "\<exists>r name w'. kaccept (Some a) address w = Some (Ret (r, name), w') \<and> fs w' = fs w \<and>
    (case r of
       None \<Rightarrow> socks w' = socks w
     | Some b \<Rightarrow> \<exists>k' ret. socks w b = None \<and> socks w' = (socks w)(b \<mapsto> k') \<and>
         sk_type k' = sk_type k \<and> sk_ops k' = sk_ops k \<and>
         (Op (sk_ops k) a (Accept b 0), ret) \<in> set (calls w') \<and> 0 \<le> ret)"
  using kaccept_accepted [OF assms, of address] by (fastforce simp: wp_never_runs accepted_def)

theorem kaccept_no_leak_sample:
  "\<exists>r name w'. kaccept (Some 7) None sample_machine = Some (Ret (r, name), w') \<and> fs w' = USER_DS"
  using kaccept_no_leak [of sample_machine 7 sample_sock None]
  by (auto simp: fresh_sockets_def)

lemma wp_kclose [socket_run]: "socks w a = Some k \<Longrightarrow> wp (kclose (Some a)) Q E w =
    (let r = answer (env_of w) (klog w) (Op (sk_ops k) a Release);
         w1 = log_call (Op (sk_ops k) a Release) r [] w;
         r' = answer (env_of w) (klog w1) (Sock_release a) in
     Q r (log_call (Sock_release a) r' [] w1\<lparr>socks := (socks w)(a := None)\<rparr>))"
  by (simp add: kclose_def wp_rules socket_run Let_def)

text \<open>\<open>kclose\<close> on a socket that exists calls the protocol's \<open>release\<close>, then \<open>sock_release\<close>, returns the
  former's result and leaves no socket; closing the same pointer once more is a use of freed memory.\<close>
theorem kclose_once:
  assumes "socks w a = Some k"
  shows "\<exists>r r' w'. kclose (Some a) w = Some (Ret r, w') \<and> socks w' = (socks w)(a := None) \<and>
    calls w' = calls w @ [(Op (sk_ops k) a Release, r), (Sock_release a, r')] \<and>
    kclose (Some a) w' = Some (Halt (Undefined Null_Dereference), w')"
proof -
  have "wp (kclose (Some a)) (\<lambda>r w'. \<exists>r'. socks w' = (socks w)(a := None) \<and>
      calls w' = calls w @ [(Op (sk_ops k) a Release, r), (Sock_release a, r')]) never w"
    using assms by (simp add: socket_run Let_def)
  moreover have "socks w' a = None \<Longrightarrow> kclose (Some a) w' = Some (Halt (Undefined Null_Dereference), w')"
    for w' :: "'a machine_scheme"
    by (simp add: kclose_def bind_def sock_call_def socket_at_def undef_def halt_def)
  ultimately show ?thesis by (force simp: wp_never_runs)
qed

theorem kclose_once_sample:
  "\<exists>r r' w'. kclose (Some 7) sample_machine = Some (Ret r, w') \<and>
    calls w' = [(Op 1 7 Release, r), (Sock_release 7, r')]"
  using kclose_once [of sample_machine 7 sample_sock] by (auto simp: sample_sock_def calls_def)

text \<open>The functions on a \<open>NULL\<close> argument: \<open>kclose\<close> follows the pointer before it tests it, \<open>kshutdown\<close>
  tests it first and returns 0, \<open>ksendto\<close> without a destination sends with a \<open>msg_name\<close> that was
  never set, and \<open>kgetsockopt\<close> is not implemented.\<close>
lemma ksocket_null_arguments:
  "kclose None w = Some (Halt (Undefined Null_Dereference), w) \<and>
   kshutdown None how w = Some (Ret 0, w) \<and>
   (\<exists>w'. ksendto socket buf n flags None len w = Some (Halt (Undefined Uninitialised), w')) \<and>
   kgetsockopt socket level optname w = Some (Ret (- 38), w)"
  by (simp add: kclose_def kshutdown_def ksendto_def kgetsockopt_def ENOSYS_def bind_def andThen_def
      sock_call_def socket_at_def undef_def halt_def return_def get_fs_def set_fs_def)

text \<open>\<open>klisten\<close> hands the protocol a backlog between 0 and 128, its argument where that is in range.\<close>
lemma klisten_backlog:
  assumes "socks w a = Some k" "INT_MIN \<le> backlog" "backlog \<le> INT_MAX"
  shows "\<exists>b r w'. klisten (Some a) backlog w = Some (Ret r, w') \<and>
    calls w' = calls w @ [(Op (sk_ops k) a (Listen b), r)] \<and> 0 \<le> b \<and> b \<le> 128 \<and>
    (0 \<le> backlog \<and> backlog \<le> 128 \<longrightarrow> b = backlog)"
proof -
  have u: "uint (word_of_int backlog :: 32 word) = (if 0 \<le> backlog then backlog else backlog + 2 ^ 32)"
    using assms(2,3) by (auto simp: uint_word_of_int intro!: mod_pos_pos_trivial
      mod_pos_pos_trivial [of "backlog + 4294967296" 4294967296, simplified, symmetric, THEN sym])
  have "wp (klisten (Some a) backlog) (\<lambda>r w'. \<exists>b. calls w' = calls w @ [(Op (sk_ops k) a (Listen b), r)] \<and>
      0 \<le> b \<and> b \<le> 128 \<and> (0 \<le> backlog \<and> backlog \<le> 128 \<longrightarrow> b = backlog)) never w"
    using assms by (simp add: klisten_def socket_run u SOMAXCONN_def Let_def)
  then show ?thesis by (auto simp: wp_never_runs)
qed

lemma klisten_backlog_sample:
  "\<exists>b r w'. klisten (Some 7) (- 1) sample_machine = Some (Ret r, w') \<and> 0 \<le> b \<and> b \<le> 128 \<and>
    calls w' = [(Op 1 7 (Listen b), r)]"
  using klisten_backlog [of sample_machine 7 sample_sock "-1"] by (auto simp: sample_sock_def calls_def)

end
