(* ===== verification/Ksocket_Address.thy ===== *)
theory Ksocket_Address
  imports Ksocket_Props
begin

text \<open>
  \<open>inet_addr\<close> and \<open>inet_ntoa\<close> of \<open>ksocket.c\<close>: the printed form of an address fits the 16 bytes
  that are allocated for it, and reading it back gives the address.
\<close>

section \<open>The four bytes of an address\<close>

definition octet :: "nat \<Rightarrow> 32 word \<Rightarrow> int" where
  "octet k ip = uint (and (drop_bit k ip) 0xFF)"

lemma octet_value: "octet k ip = uint ip div 2 ^ k mod 256"
proof -
  have "uint (drop_bit k ip) = uint ip div 2 ^ k"
    unfolding drop_bit_eq_div [symmetric, where ?'a = int]
    by (rule bit_eqI) (simp add: bit_unsigned_iff bit_drop_bit_eq)
  moreover have "uint (and (drop_bit k ip) (mask 8)) = uint (drop_bit k ip) mod 2 ^ 8"
    by (simp only: take_bit_eq_mask [symmetric] unsigned_take_bit_eq) (simp only: take_bit_eq_mod)
  moreover have "(0xFF :: 32 word) = mask 8" by (simp add: mask_eq_exp_minus_1)
  ultimately show ?thesis unfolding octet_def by simp
qed

lemma octet_range: "0 \<le> octet k ip" "octet k ip < 256"
  by (simp_all add: octet_value)

lemma four_octets:
  fixes x :: int
  assumes "0 \<le> x" "x < 2 ^ 32"
  shows "x mod 256 + 256 * (x div 256 mod 256) + 65536 * (x div 65536 mod 256) +
    16777216 * (x div 16777216 mod 256) = x"
proof -
  have a: "x div 65536 = x div 256 div 256" "x div 16777216 = x div 256 div 256 div 256"
    by (simp_all add: zdiv_zmult2_eq [symmetric])
  have "x div 16777216 < 256" "0 \<le> x div 16777216" using assms by auto
  then have "x div 256 div 256 div 256 mod 256 = x div 256 div 256 div 256"
    by (simp add: a(2) [symmetric])
  moreover have "x = 256 * (x div 256) + x mod 256" by simp
  moreover have "x div 256 = 256 * (x div 256 div 256) + x div 256 mod 256" by simp
  moreover have "x div 256 div 256 = 256 * (x div 256 div 256 div 256) + x div 256 div 256 mod 256" by simp
  ultimately show ?thesis unfolding a by linarith
qed

lemma push_bit_of_int: "push_bit k (word_of_int v :: 32 word) = word_of_int (2 ^ k * v)"
  by (simp add: push_bit_eq_mult mult.commute)

lemma low_octet: "low_byte (octet k ip) = word_of_int (octet k ip)"
  by (simp add: low_byte_def octet_range)

lemma octets_sum: "octet 0 ip + 2 ^ 8 * octet 8 ip + 2 ^ 16 * octet 16 ip + 2 ^ 24 * octet 24 ip = uint ip"
proof -
  have "uint ip < 2 ^ 32" using uint_lt2p [of ip] by simp
  moreover have "(2::int) ^ 0 = 1" "(2::int) ^ 8 = 256" "(2::int) ^ 16 = 65536" "(2::int) ^ 24 = 16777216"
    by simp_all
  ultimately show ?thesis
    by (simp only: octet_value div_by_1 four_octets [OF uint_ge_0])
qed

lemma octets_word:
  "low_byte (octet 0 ip) + push_bit 8 (low_byte (octet 8 ip)) + push_bit 16 (low_byte (octet 16 ip)) +
   push_bit 24 (low_byte (octet 24 ip)) = ip"
  by (simp only: low_octet push_bit_of_int of_int_add [symmetric] octets_sum word_of_int_uint)

section \<open>Printing and reading\<close>

lemma dotted_octets: "dotted ip = show_int (octet 0 ip) @ ''.'' @ show_int (octet 8 ip) @ ''.'' @
    show_int (octet 16 ip) @ ''.'' @ show_int (octet 24 ip)"
  by (simp add: dotted_def octet_def)

lemma sscanf_d_show_int:
  assumes "0 \<le> v" "r = [] \<or> \<not> is_digit (hd r)"
  shows "sscanf_d (show_int v @ r) = Some (v, r)"
proof -
  obtain c cs where cs: "show_nat (nat v) = c # cs"
    by (cases "show_nat (nat v)") auto
  then have c: "is_digit c" using digits_show_nat [of c "nat v"] by simp
  have "takeWhile is_digit (show_nat (nat v) @ r) = show_nat (nat v) \<and>
      dropWhile is_digit (show_nat (nat v) @ r) = r"
    using digits_show_nat assms(2) by (intro takeWhile_digits) auto
  moreover have "digits_value (show_nat (nat v)) = nat v" by (rule digits_value_show_nat)
  ultimately show ?thesis
    using assms(1) c digit_not_sign [OF c] digit_not_space [OF c]
    by (simp add: sscanf_d_def show_int_def cs Let_def)
qed

lemma sscanf_dots_step: "sscanf_dots (Suc n) (show_int (octet k ip) @ ''.'' @ s) =
    octet k ip # (if n = 0 then [] else sscanf_dots n s)"
  using sscanf_d_show_int [OF octet_range(1), of "''.'' @ s" k ip] by simp

lemma sscanf_dots_last: "sscanf_dots (Suc n) (show_int (octet k ip)) = [octet k ip]"
  using sscanf_d_show_int [OF octet_range(1), of "[]" k ip] by simp

declare sscanf_dots.simps(2) [simp del]

lemma four: "(4::nat) = Suc (Suc (Suc (Suc 0)))"
  by simp

lemma sscanf_dotted: "sscanf_dots 4 (dotted ip) = [octet 0 ip, octet 8 ip, octet 16 ip, octet 24 ip]"
  by (simp only: dotted_octets four sscanf_dots_step sscanf_dots_last nat.simps if_False)

lemma length_octet: "length (show_int (octet k ip)) \<le> 3"
  using length_show_nat [of "nat (octet k ip)" 3] octet_range [of k ip]
  by (simp add: show_int_def nat_less_iff)

lemma length_dotted: "length (dotted ip) \<le> 15"
  using length_octet [of 0 ip] length_octet [of 8 ip] length_octet [of 16 ip] length_octet [of 24 ip]
  by (simp add: dotted_octets)

text \<open>Reading the printed form of an address gives the address back, for each of the 2^32 addresses.\<close>
lemma inet_addr_dotted: "inet_addr (dotted ip) w = Some (Ret ip, w)"
  by (simp add: inet_addr_def sscanf_dotted octets_word return_def)

text \<open>C27: \<open>inet_ntoa\<close> always returns: \<open>NULL\<close> when the allocation fails, else the dotted form, which with
  its final NUL fits the 16 bytes of the buffer; \<open>inet_addr\<close> reads it back.\<close>
theorem inet_ntoa_fits:
  "\<exists>r w'. inet_ntoa ip w = Some (Ret r, w') \<and> length (dotted ip) + 1 \<le> 16 \<and>
    r = (if answer (env_of w) (klog w) Kmalloc = 0 then None else Some (dotted ip)) \<and>
    inet_addr (dotted ip) w' = Some (Ret ip, w')"
proof -
  have "wp (inet_ntoa ip) (\<lambda>r w'. r = (if answer (env_of w) (klog w) Kmalloc = 0 then None
      else Some (dotted ip))) never w"
    using length_dotted [of ip] by (simp add: inet_ntoa_def wp_rules)
  then show ?thesis
    using length_dotted [of ip]
    by (auto simp: wp_never_runs inet_addr_def sscanf_dotted octets_word return_def)
qed

text \<open>\<open>inet_addr\<close> does not reject text that is no address: a number above 255 keeps its low byte
  only, and fewer than four numbers leave the rest of the address uninitialised.\<close>
theorem inet_addr_unchecked:
  "inet_addr (show_int (256 + octet 0 ip) @ ''.'' @ show_int (octet 8 ip) @ ''.'' @ show_int (octet 16 ip) @
     ''.'' @ show_int (octet 24 ip)) w = Some (Ret ip, w) \<and>
   inet_addr (show_int (octet 0 ip) @ ''.'' @ show_int (octet 8 ip)) w = Some (Halt (Undefined Uninitialised), w)"
proof -
  have "low_byte (256 + octet 0 ip) = low_byte (octet 0 ip)" by (simp add: low_byte_def)
  moreover have "sscanf_dots 4 (show_int (256 + octet 0 ip) @ ''.'' @ s) =
      (256 + octet 0 ip) # sscanf_dots 3 s" for s
    using sscanf_d_show_int [of "256 + octet 0 ip" "''.'' @ s"] octet_range(1) [of 0 ip]
      sscanf_dots.simps(2) [of 3 "show_int (256 + octet 0 ip) @ ''.'' @ s"] by simp
  moreover have "sscanf_dots 3 (show_int (octet 8 ip) @ ''.'' @ show_int (octet 16 ip) @
     ''.'' @ show_int (octet 24 ip)) = [octet 8 ip, octet 16 ip, octet 24 ip]"
    by (simp only: numeral_3_eq_3 sscanf_dots_step sscanf_dots_last nat.simps if_False)
  moreover have "sscanf_dots 4 (show_int (octet 0 ip) @ ''.'' @ show_int (octet 8 ip)) = [octet 0 ip, octet 8 ip]"
    by (simp only: four sscanf_dots_step sscanf_dots_last nat.simps if_False)
  ultimately show ?thesis
    by (simp only: inet_addr_def octets_word return_def undef_def halt_def list.case)
qed

end
