(* ===== verification/Frames.thy ===== *)
theory Frames
  imports Ksocket_Props
begin

text \<open>
  What a call does not change. A locale \<open>frame\<close> fixes a view of the machine that neither the log nor
  the table of sockets shows in; every function of \<open>ksocket.c\<close> that does not touch the address limit keeps it.
  \<open>deep_frame\<close> adds that the view does not show the address limit either. Views are the
  memory of the devices, the static variables of a module, the regular file, and the limit itself.
\<close>

definition keeps :: "('w \<Rightarrow> 'x) \<Rightarrow> ('w, 'a) prog \<Rightarrow> bool" where
  "keeps view m = (\<forall>w r w'. m w = Some (Ret r, w') \<longrightarrow> view w' = view w)"

lemma keepsD: "keeps view m \<Longrightarrow> m w = Some (Ret r, w') \<Longrightarrow> view w' = view w"
  by (simp add: keeps_def)

lemma keeps_bind:
  assumes "keeps view m" "\<And>a. keeps view (f a)"
  shows "keeps view (bind m f)"
  unfolding keeps_def
proof (intro allI impI)
  fix w r w'
  assume "bind m f w = Some (Ret r, w')"
  then obtain a w1 where "m w = Some (Ret a, w1)" "f a w1 = Some (Ret r, w')"
    by (auto simp: bind_def split: option.splits res.splits)
  then show "view w' = view w" using assms by (metis keepsD)
qed

lemma keeps_andThen: "keeps view m \<Longrightarrow> keeps view n \<Longrightarrow> keeps view (andThen m n)"
  unfolding andThen_def by (rule keeps_bind)

lemma keeps_if: "keeps view m \<Longrightarrow> keeps view n \<Longrightarrow> keeps view (if b then m else n)"
  by simp

lemma keeps_option: "keeps view m \<Longrightarrow> (\<And>x. keeps view (f x)) \<Longrightarrow>
    keeps view (case y of None \<Rightarrow> m | Some x \<Rightarrow> f x)"
  by (cases y) simp_all

lemma keeps_prod: "(\<And>x y. keeps view (f x y)) \<Longrightarrow> keeps view (case p of (x, y) \<Rightarrow> f x y)"
  by (cases p) simp

lemma keeps_let: "(\<And>x. keeps view (f x)) \<Longrightarrow> keeps view (Let v f)"
  by (simp add: Let_def)

lemma keeps_read:
  "keeps view (return a)" "keeps view (undef u)" "keeps view get_fs" "keeps view (gets g)"
  "keeps view (socket_at p)" "keeps view (info_at i)" "keeps view (vma_at v)" "keeps view (page_bytes p)"
  "keeps view (sprintf n t)"
  by (auto simp: keeps_def return_def undef_def halt_def get_fs_def gets_def socket_at_def info_at_def
      vma_at_def page_bytes_def sprintf_def split: option.splits if_splits)

lemma keeps_update: "(\<And>w. view (f w) = view w) \<Longrightarrow> keeps view (update f)"
  by (auto simp: keeps_def update_def)

lemmas keeps_structure = keeps_bind keeps_andThen keeps_if keeps_option keeps_prod keeps_let keeps_read

section \<open>Views that show neither the log nor the sockets\<close>

locale frame =
  fixes view :: "'m machine_scheme \<Rightarrow> 'x"
  assumes view_log: "view (log_call c r bs w) = view w"
    and view_socks: "view (w\<lparr>socks := S\<rparr>) = view w"
begin

lemma keeps_calls: "keeps view (do_call c)" "keeps view (printk s)" "keeps view (sock_create i j k)"
  by (auto simp: keeps_def do_call_def printk_def sock_create_def Let_def view_log view_socks
      split: option.splits if_splits)

lemma keeps_set_socks: "keeps view (\<lambda>w. Some (Ret (), w\<lparr>socks := (socks w)(a := x)\<rparr>))"
  by (simp add: keeps_def view_socks)

lemma keeps_getname_recvmsg: "keeps view (sock_getname p i)" "keeps view (sock_recvmsg p n flags)"
  unfolding sock_getname_def sock_recvmsg_def Let_def
  by (rule keeps_bind, rule keeps_read, rule keeps_prod, simp add: keeps_def view_log split: sum.split)+

lemma keeps_socket_calls: "keeps view (sock_call p op)" "keeps view (sock_release p)"
  "keeps view (sock_sendmsg p buf n flags to)" "keeps view (copy_type_and_ops new k)"
  unfolding sock_call_def sock_release_def sock_sendmsg_def copy_type_and_ops_def
  by (intro keeps_structure keeps_calls keeps_set_socks)+

lemma keeps_ksocket: "keeps view (kclose p)" "keeps view (kaccept p address)" "keeps view (inet_ntoa ip)"
  "keeps view (ksocket i j k)" "keeps view (kbind p addr len)" "keeps view (klisten p b)"
  "keeps view (kconnect p addr len)" "keeps view (inet_addr ip_text)"
  unfolding kclose_def kaccept_def error_kaccept_def inet_ntoa_def ksocket_def kbind_def klisten_def
    kconnect_def inet_addr_def
  by (intro keeps_structure keeps_calls keeps_socket_calls keeps_getname_recvmsg
      | simp add: keeps_read split: list.split)+

end

section \<open>Views that do not show the address limit\<close>

locale deep_frame = frame +
  assumes view_fs: "view (w\<lparr>fs := s\<rparr>) = view w"
begin

lemma keeps_set_fs: "keeps view (set_fs s)"
  by (simp add: keeps_def set_fs_def view_fs)

lemma keeps_transfer: "keeps view (ksend p buf n flags)" "keeps view (krecv p n flags)"
  unfolding ksend_def krecv_def
  by (intro keeps_structure keeps_set_fs keeps_socket_calls keeps_getname_recvmsg)+

end

section \<open>The views\<close>

definition memory :: "'m machine_scheme \<Rightarrow> (nat \<Rightarrow> mmap_info option) \<times> (nat \<Rightarrow> bytes option) \<times>
    (nat \<Rightarrow> nat option) \<times> (nat \<Rightarrow> vm_area option) \<times> nat" where
  "memory w = (infos w, pages w, private_data w, vmas w, unused_address w)"

definition regular_file :: "'m machine_scheme \<Rightarrow> bytes \<times> nat" where
  "regular_file w = (file_data w, file_pos w)"

interpretation memory: deep_frame memory
  by unfold_locales (simp_all add: memory_def)

interpretation regular_file: deep_frame regular_file
  by unfold_locales (simp_all add: regular_file_def)

interpretation statics: deep_frame machine.more
  by unfold_locales simp_all

interpretation env_of: deep_frame env_of
  by unfold_locales simp_all

interpretation limit: frame fs
  by unfold_locales simp_all

text \<open>Sending and receiving restore the limit themselves.\<close>

lemma limit_transfer: "keeps fs (ksend p buf n flags)" "keeps fs (krecv p n flags)"
  by (auto simp: keeps_def ksend_def krecv_def bind_def andThen_def get_fs_def set_fs_def return_def
      split: option.splits res.splits)

end
