(* ===== verification/Master_Device.thy ===== *)
theory Master_Device
  imports Ksocket
begin

text \<open>
  \<open>prj2/src/sample/master_device/master_device.c\<close>: the character device of the sending side,
  function by function. The module's static variables extend the machine. A \<open>struct file\<close> and a
  \<open>struct vm_area_struct\<close> are keys of the tables \<open>private_data\<close> and \<open>vmas\<close>. The code never stores to
  the static \<open>buffer\<close>, and freeing the text of \<open>inet_ntoa\<close> has no effect that the model could show.
\<close>

section \<open>Static variables and constants\<close>

record master = machine +
  sockfd_srv :: ksocket_t
  sockfd_cli :: ksocket_t
  addr_srv :: sockaddr_in
  addr_cli :: sockaddr_in
  old_fs :: mm_segment
  addr_len :: int

definition DEFAULT_PORT :: "16 word" where "DEFAULT_PORT = 2325"
definition master_IOCTL_CREATESOCK :: "32 word" where "master_IOCTL_CREATESOCK = 0x12345677"
definition master_IOCTL_MMAP :: "32 word" where "master_IOCTL_MMAP = 0x12345678"
definition master_IOCTL_EXIT :: "32 word" where "master_IOCTL_EXIT = 0x12345679"

definition AF_INET :: int where "AF_INET = 2"
definition SOCK_STREAM :: int where "SOCK_STREAM = 1"
definition ENOMEM :: int where "ENOMEM = 12"
definition sizeof_sockaddr_in :: int where "sizeof_sockaddr_in = 16"

definition zero_addr :: sockaddr_in where
  "zero_addr = \<lparr>sin_family = 0, sin_port = 0, s_addr = 0\<rparr>"

text \<open>\<open>VM_RESERVED\<close> is \<open>VM_DONTEXPAND | VM_DONTDUMP\<close> of the kernel's headers.\<close>

definition VM_RESERVED :: "64 word" where
  "VM_RESERVED = or 0x00040000 0x04000000"

definition line :: "string \<Rightarrow> string" where
  "line s = s @ [CHR 0x0A]"

section \<open>Loading and unloading\<close>

definition master_init :: "('m master_scheme, int) prog" where
  "master_init =
     bind (do_call Debugfs_create) (\<lambda>_.
     bind (do_call Misc_register) (\<lambda>ret.
     if ret < 0 then andThen (printk (line ''misc_register failed!'')) (return ret)
     else
       andThen (printk (line ''master has been registered!''))
       (bind get_fs (\<lambda>s.
        andThen (update (\<lambda>w. w\<lparr>old_fs := s\<rparr>))
        (andThen (set_fs KERNEL_DS)
        (andThen (update (\<lambda>w. w\<lparr>sockfd_srv := None, sockfd_cli := None, addr_cli := zero_addr,
            addr_srv := \<lparr>sin_family = AF_INET, sin_port = htons DEFAULT_PORT, s_addr = 0\<rparr>,
            addr_len := sizeof_sockaddr_in\<rparr>))
        (bind (ksocket AF_INET SOCK_STREAM 0) (\<lambda>sk.
         andThen (update (\<lambda>w. w\<lparr>sockfd_srv := sk\<rparr>))
         (andThen (printk (line (''sockfd_srv = 0x'' @ show_pointer sk @ ''  socket is created '')))
         (if sk = None then andThen (printk (line ''socket failed'')) (return (-1))
          else
            bind (gets addr_srv) (\<lambda>addr. bind (gets addr_len) (\<lambda>len.
            bind (kbind sk addr len) (\<lambda>r.
            if r < 0 then andThen (printk (line ''bind failed'')) (return (-1))
            else
              bind (klisten sk 10) (\<lambda>r.
              if r < 0 then andThen (printk (line ''listen failed'')) (return (-1))
              else return 0))))))))))))))"

definition master_exit :: "('m master_scheme, unit) prog" where
  "master_exit =
     bind (do_call Misc_deregister) (\<lambda>_.
     bind (gets sockfd_srv) (\<lambda>srv.
     bind (kclose srv) (\<lambda>r.
     if r = -1 then printk (line ''kclose srv error'')
     else
       bind (gets old_fs) (\<lambda>s.
       andThen (set_fs s)
       (andThen (printk (line ''master exited!''))
       (bind (do_call Debugfs_remove) (\<lambda>_. return ())))))))"

section \<open>Open files\<close>

definition master_close :: "nat \<Rightarrow> ('m machine_scheme, int) prog" where
  "master_close filp =
     bind (gets (\<lambda>w. private_data w filp)) (\<lambda>p.
     bind (info_at p) (\<lambda>(a, info).
     andThen (free_page (data info))
     (andThen (kfree_info p)
     (andThen (update (\<lambda>w. w\<lparr>private_data := (private_data w)(filp := None)\<rparr>))
     (return 0)))))"

definition master_open :: "nat \<Rightarrow> ('m machine_scheme, int) prog" where
  "master_open filp =
     bind kmalloc_info (\<lambda>p.
     bind get_zeroed_page (\<lambda>pg.
     bind (info_at p) (\<lambda>(a, info).
     andThen (set_info a (info\<lparr>data := pg\<rparr>))
     (andThen (update (\<lambda>w. w\<lparr>private_data := (private_data w)(filp := p)\<rparr>))
     (return 0)))))"

section \<open>Mappings of the device\<close>

definition mmap_open :: "nat \<Rightarrow> ('m machine_scheme, unit) prog" where
  "mmap_open vma =
     bind (vma_at vma) (\<lambda>v.
     bind (info_at (vm_private_data v)) (\<lambda>(a, info).
     set_info a (info\<lparr>reference := reference info + 1\<rparr>)))"

definition mmap_close :: "nat \<Rightarrow> ('m machine_scheme, unit) prog" where
  "mmap_close vma =
     bind (vma_at vma) (\<lambda>v.
     bind (info_at (vm_private_data v)) (\<lambda>(a, info).
     set_info a (info\<lparr>reference := reference info - 1\<rparr>)))"

text \<open>The result and the page stored in \<open>vmf->page\<close>, if one is.\<close>

definition mmap_fault :: "nat \<Rightarrow> ('m machine_scheme, int \<times> nat option) prog" where
  "mmap_fault vma =
     bind (vma_at vma) (\<lambda>v.
     bind (info_at (vm_private_data v)) (\<lambda>(a, info).
     if data info = None then andThen (printk (line ''No data'')) (return (0, None))
     else return (0, data info)))"

definition mmap_mmap :: "nat \<Rightarrow> nat \<Rightarrow> ('m machine_scheme, int) prog" where
  "mmap_mmap filp vma =
     bind (vma_at vma) (\<lambda>v.
     bind (gets (\<lambda>w. private_data w filp)) (\<lambda>p.
     andThen (update (\<lambda>w. w\<lparr>vmas := (vmas w)(vma \<mapsto> v\<lparr>has_vm_ops := True,
        vm_flags := or (vm_flags v) VM_RESERVED, vm_private_data := p\<rparr>)\<rparr>))
     (andThen (mmap_open vma)
     (return 0))))"

section \<open>Requests\<close>

definition master_createsock :: "('m master_scheme, int) prog" where
  "master_createsock =
     bind (gets sockfd_srv) (\<lambda>srv. bind (gets addr_cli) (\<lambda>addr. bind (gets addr_len) (\<lambda>len.
     bind (kaccept srv (Some (addr, len))) (\<lambda>(cli, name).
     andThen (update (\<lambda>w. w\<lparr>sockfd_cli := cli,
        addr_cli := (case name of None \<Rightarrow> addr | Some (a, l) \<Rightarrow> a),
        addr_len := (case name of None \<Rightarrow> len | Some (a, l) \<Rightarrow> l)\<rparr>))
     (if cli = None then andThen (printk (line ''accept failed'')) (return (-1))
      else
        andThen (printk (line (''aceept sockfd_cli = 0x'' @ show_pointer cli)))
        (bind (gets addr_cli) (\<lambda>addr.
         bind (inet_ntoa (s_addr addr)) (\<lambda>tmp.
         andThen (printk (line (''got connected from : '' @ show_text tmp @ '' '' @
            show_int (uint (htons (sin_port addr))))))
         (return 0)))))))))"

definition master_ioctl :: "nat \<Rightarrow> 32 word \<Rightarrow> 64 word \<Rightarrow> ('m master_scheme, int) prog" where
  "master_ioctl file ioctl_num ioctl_param =
     (if ioctl_num = master_IOCTL_CREATESOCK then master_createsock
      else if ioctl_num = master_IOCTL_MMAP then
        bind (gets (\<lambda>w. private_data w file)) (\<lambda>p.
        bind (info_at p) (\<lambda>(a, info).
        bind (page_bytes (data info)) (\<lambda>msg.
        bind (gets sockfd_cli) (\<lambda>cli.
        bind (ksend cli msg (unat ioctl_param) 0) (\<lambda>_.
        return 0)))))
      else if ioctl_num = master_IOCTL_EXIT then
        bind (gets sockfd_cli) (\<lambda>cli.
        bind (kclose cli) (\<lambda>r.
        if r = -1 then andThen (printk (line ''kclose cli error'')) (return (-1))
        else return 0))
      else
        bind (gets (\<lambda>w. pte_of (env_of w) ioctl_param)) (\<lambda>pte.
        andThen (printk (line (''master: '' @ show_hex (unat pte))))
        (return 0)))"

text \<open>
  \<open>buf\<close> is the user's memory at the address of the call, at least \<open>n\<close> bytes. \<open>copy_from_user\<close>
  writes \<open>n\<close> bytes to \<open>msg\<close> (what it cannot copy it clears), and returns what is left.
\<close>

definition send_msg :: "bytes \<Rightarrow> nat \<Rightarrow> ('m master_scheme, int) prog" where
  "send_msg buf n =
     (if PAGE_SIZE < n then undef Buffer_Overrun
      else
        bind (do_call (Copy_from_user n)) (\<lambda>left.
        if left \<noteq> 0 then return (- ENOMEM)
        else
          bind (gets sockfd_cli) (\<lambda>cli.
          bind (ksend cli (take n buf) n 0) (\<lambda>_.
          return (int n)))))"

section \<open>The tables of handlers\<close>

definition simple_remap_vm_ops :: "'m machine_scheme vm_operations" where
  "simple_remap_vm_ops = \<lparr>vop_open = mmap_open, vop_close = mmap_close, vop_fault = mmap_fault\<rparr>"

definition master_fops :: "'m master_scheme file_operations" where
  "master_fops = \<lparr>op_ioctl = (\<lambda>file num param _. master_ioctl file num param), op_open = master_open,
     op_read = None, op_write = Some send_msg, op_release = master_close, op_mmap = mmap_mmap\<rparr>"

end
