(* ===== verification/Slave_Device.thy ===== *)
theory Slave_Device
  imports Master_Device
begin

text \<open>
  \<open>prj2/src/sample/slave_device/slave_device.c\<close>: the character device of the receiving side, function
  by function. The file has its own copies of the mapping and open/close handlers of
  \<open>master_device.c\<close> (here with the prefix \<open>slave_\<close>) and of the constants.
\<close>

section \<open>Static variables and constants\<close>

record slave = machine +
  s_old_fs :: mm_segment
  s_sockfd_cli :: ksocket_t
  s_addr_srv :: sockaddr_in

definition slave_IOCTL_CREATESOCK :: "32 word" where "slave_IOCTL_CREATESOCK = 0x12345677"
definition slave_IOCTL_MMAP :: "32 word" where "slave_IOCTL_MMAP = 0x12345678"
definition slave_IOCTL_EXIT :: "32 word" where "slave_IOCTL_EXIT = 0x12345679"

section \<open>Mappings, loading, open files\<close>

definition slave_mmap_open :: "nat \<Rightarrow> ('m machine_scheme, unit) prog" where
  "slave_mmap_open vma =
     bind (vma_at vma) (\<lambda>v.
     bind (info_at (vm_private_data v)) (\<lambda>(a, info).
     set_info a (info\<lparr>reference := reference info + 1\<rparr>)))"

definition slave_mmap_close :: "nat \<Rightarrow> ('m machine_scheme, unit) prog" where
  "slave_mmap_close vma =
     bind (vma_at vma) (\<lambda>v.
     bind (info_at (vm_private_data v)) (\<lambda>(a, info).
     set_info a (info\<lparr>reference := reference info - 1\<rparr>)))"

definition slave_mmap_fault :: "nat \<Rightarrow> ('m machine_scheme, int \<times> nat option) prog" where
  "slave_mmap_fault vma =
     bind (vma_at vma) (\<lambda>v.
     bind (info_at (vm_private_data v)) (\<lambda>(a, info).
     if data info = None then andThen (printk (line ''No data'')) (return (0, None))
     else return (0, data info)))"

definition slave_mmap_mmap :: "nat \<Rightarrow> nat \<Rightarrow> ('m machine_scheme, int) prog" where
  "slave_mmap_mmap filp vma =
     bind (vma_at vma) (\<lambda>v.
     bind (gets (\<lambda>w. private_data w filp)) (\<lambda>p.
     andThen (update (\<lambda>w. w\<lparr>vmas := (vmas w)(vma \<mapsto> v\<lparr>has_vm_ops := True,
        vm_flags := or (vm_flags v) VM_RESERVED, vm_private_data := p\<rparr>)\<rparr>))
     (andThen (slave_mmap_open vma)
     (return 0))))"

definition slave_init :: "('m machine_scheme, int) prog" where
  "slave_init =
     bind (do_call Debugfs_create) (\<lambda>_.
     bind (do_call Misc_register) (\<lambda>ret.
     if ret < 0 then andThen (printk (line ''misc_register failed!'')) (return ret)
     else andThen (printk (line ''slave has been registered!'')) (return 0)))"

definition slave_exit :: "('m machine_scheme, unit) prog" where
  "slave_exit =
     bind (do_call Misc_deregister) (\<lambda>_.
     andThen (printk (line ''slave exited!''))
     (bind (do_call Debugfs_remove) (\<lambda>_. return ())))"

definition slave_close :: "nat \<Rightarrow> ('m machine_scheme, int) prog" where
  "slave_close filp =
     bind (gets (\<lambda>w. private_data w filp)) (\<lambda>p.
     bind (info_at p) (\<lambda>(a, info).
     andThen (free_page (data info))
     (andThen (kfree_info p)
     (andThen (update (\<lambda>w. w\<lparr>private_data := (private_data w)(filp := None)\<rparr>))
     (return 0)))))"

definition slave_open :: "nat \<Rightarrow> ('m machine_scheme, int) prog" where
  "slave_open filp =
     bind kmalloc_info (\<lambda>p.
     bind get_zeroed_page (\<lambda>pg.
     bind (info_at p) (\<lambda>(a, info).
     andThen (set_info a (info\<lparr>data := pg\<rparr>))
     (andThen (update (\<lambda>w. w\<lparr>private_data := (private_data w)(filp := p)\<rparr>))
     (return 0)))))"

section \<open>Requests\<close>

text \<open>
  \<open>ip\<close> is the text at the user address \<open>ioctl_param\<close>; the 20 bytes copied from there must contain
  its end, since \<open>sscanf\<close> is defined on strings only.
\<close>

definition slave_createsock :: "string \<Rightarrow> ('m slave_scheme, int) prog" where
  "slave_createsock ip =
     bind (do_call (Copy_from_user 20)) (\<lambda>left.
     if left \<noteq> 0 then return (- ENOMEM)
     else if 20 \<le> length ip then undef Out_Of_Bounds
     else
       andThen (bind (do_call (Set_comm ''ksktcli'')) (\<lambda>_. return ()))
       (bind (inet_addr ip) (\<lambda>addr.
        let srv = \<lparr>sin_family = AF_INET, sin_port = htons 2325, s_addr = addr\<rparr> in
        andThen (update (\<lambda>w. w\<lparr>s_addr_srv := srv\<rparr>))
        (bind (ksocket AF_INET SOCK_STREAM 0) (\<lambda>cli.
         andThen (update (\<lambda>w. w\<lparr>s_sockfd_cli := cli\<rparr>))
         (andThen (printk (line (''sockfd_cli = 0x'' @ show_pointer cli @ ''  socket is created'')))
         (if cli = None then andThen (printk (line ''socket failed'')) (return (-1))
          else
            bind (kconnect cli srv sizeof_sockaddr_in) (\<lambda>r.
            if r < 0 then andThen (printk (line ''connect failed'')) (return (-1))
            else
              bind (inet_ntoa (s_addr srv)) (\<lambda>tmp.
              andThen (printk (line (''connected to : '' @ show_text tmp @ '' '' @
                 show_int (uint (htons (sin_port srv))))))
              (return 0))))))))))"

definition slave_ioctl :: "nat \<Rightarrow> 32 word \<Rightarrow> 64 word \<Rightarrow> string \<Rightarrow> ('m slave_scheme, int) prog" where
  "slave_ioctl file ioctl_num ioctl_param user_text =
     bind get_fs (\<lambda>s.
     andThen (update (\<lambda>w. w\<lparr>s_old_fs := s\<rparr>))
     (andThen (set_fs KERNEL_DS)
     (if ioctl_num = slave_IOCTL_CREATESOCK then slave_createsock user_text
      else if ioctl_num = slave_IOCTL_MMAP then
        bind (gets s_sockfd_cli) (\<lambda>cli.
        bind (gets (\<lambda>w. private_data w file)) (\<lambda>p.
        bind (info_at p) (\<lambda>(a, info).
        bind (krecv cli PAGE_SIZE 0) (\<lambda>(ret, bs).
        andThen (store_page (data info) bs)
        (return ret)))))
      else if ioctl_num = slave_IOCTL_EXIT then
        bind (gets s_sockfd_cli) (\<lambda>cli.
        bind (kclose cli) (\<lambda>r.
        if r = -1 then andThen (printk (line ''kclose cli error'')) (return (-1))
        else
          bind (gets s_old_fs) (\<lambda>s.
          andThen (set_fs s) (return 0))))
      else
        bind (gets (\<lambda>w. pte_of (env_of w) ioctl_param)) (\<lambda>pte.
        andThen (printk (line (''slave: '' @ show_hex (unat pte))))
        (return 0)))))"

text \<open>
  \<open>copy_to_user\<close> of \<open>n\<close> bytes from the array \<open>msg\<close>: with the address limit of a user a range of
  \<open>2^63\<close> bytes or more is refused, so that nothing is copied; else all bytes must be in the array.
  The result is what is left to copy.
\<close>

definition copy_to_user :: "64 word \<Rightarrow> ('m machine_scheme, int) prog" where
  "copy_to_user n =
     bind get_fs (\<lambda>s.
     if s = USER_DS \<and> 2 ^ 63 \<le> uint n then return 1
     else if PAGE_SIZE < unat n then undef Out_Of_Bounds
     else do_call (Copy_to_user (unat n)))"

text \<open>The result and the bytes stored at \<open>buf\<close>; the size of the caller's buffer is not used.\<close>

definition receive_msg :: "nat \<Rightarrow> ('m slave_scheme, int \<times> bytes) prog" where
  "receive_msg n =
     bind (gets s_sockfd_cli) (\<lambda>cli.
     bind (krecv cli PAGE_SIZE 0) (\<lambda>(r, msg).
     let len = (word_of_int r :: 64 word) in
     bind (copy_to_user len) (\<lambda>left.
     if left \<noteq> 0 then return (- ENOMEM, [])
     else return (sint (ucast len :: 32 word), msg))))"

section \<open>The tables of handlers\<close>

definition slave_remap_vm_ops :: "'m machine_scheme vm_operations" where
  "slave_remap_vm_ops = \<lparr>vop_open = slave_mmap_open, vop_close = slave_mmap_close, vop_fault = slave_mmap_fault\<rparr>"

definition slave_fops :: "'m slave_scheme file_operations" where
  "slave_fops = \<lparr>op_ioctl = slave_ioctl, op_open = slave_open, op_read = Some receive_msg, op_write = None,
     op_release = slave_close, op_mmap = slave_mmap_mmap\<rparr>"

text \<open>The copies are those of \<open>master_device.c\<close>.\<close>

lemma slave_copies:
  "slave_mmap_open = mmap_open" "slave_mmap_close = mmap_close" "slave_mmap_fault = mmap_fault"
  "slave_mmap_mmap = mmap_mmap" "slave_close = master_close" "slave_open = master_open"
  by (simp_all add: fun_eq_iff slave_mmap_open_def mmap_open_def slave_mmap_close_def mmap_close_def
      slave_mmap_fault_def mmap_fault_def slave_mmap_mmap_def mmap_mmap_def slave_close_def
      master_close_def slave_open_def master_open_def)

end
