(* ===== verification/Device_Samples.thy ===== *)
theory Device_Samples
  imports Slave_Device Kernel_Samples
begin

text \<open>
  Concrete states of the two devices: each is loaded, file 3 is open on it with the info 50 and the
  page 60, socket 7 listens, socket 5 is a connection.
\<close>

definition sample_socks :: "nat \<Rightarrow> ksock option" where
  "sample_socks = [7 \<mapsto> sample_sock, 5 \<mapsto> sample_sock]"

definition sample_infos :: "nat \<Rightarrow> mmap_info option" where
  "sample_infos = [50 \<mapsto> \<lparr>data = Some 60, reference = 0\<rparr>]"

definition sample_page :: bytes where
  "sample_page = ''hello'' @ replicate 4091 (CHR 0x00)"

definition sample_devices :: machine where
  "sample_devices = sample_machine\<lparr>socks := sample_socks, infos := sample_infos,
     pages := [60 \<mapsto> sample_page], private_data := [3 \<mapsto> 50]\<rparr>"

definition master_of :: "machine \<Rightarrow> ksocket_t \<Rightarrow> ksocket_t \<Rightarrow> master" where
  "master_of m srv cli = machine.extend m (master.fields srv cli zero_addr zero_addr USER_DS 16)"

definition slave_of :: "machine \<Rightarrow> ksocket_t \<Rightarrow> slave" where
  "slave_of m cli = machine.extend m (slave.fields USER_DS cli zero_addr)"

definition sample_master :: master where
  "sample_master = master_of sample_devices (Some 7) (Some 5)"

definition sample_slave :: slave where
  "sample_slave = slave_of sample_devices (Some 5)"

lemmas device_samples = master_of_def slave_of_def machine.extend_def master.fields_def slave.fields_def

lemma length_sample_page [simp]: "length sample_page = 4096"
  by (simp add: sample_page_def)

lemma take_sample_page [simp]: "take 5 sample_page = ''hello''"
  by (simp add: sample_page_def)

lemma sample_socks_simps [simp]: "sample_socks 7 = Some sample_sock" "sample_socks 5 = Some sample_sock"
  "8 \<le> a \<Longrightarrow> sample_socks a = None"
  by (simp_all add: sample_socks_def)

lemma device_states [simp]:
  "env_of (master_of m s c) = env_of m" "klog (master_of m s c) = klog m" "fs (master_of m s c) = fs m"
  "socks (master_of m s c) = socks m" "infos (master_of m s c) = infos m" "pages (master_of m s c) = pages m"
  "private_data (master_of m s c) = private_data m" "vmas (master_of m s c) = vmas m"
  "file_data (master_of m s c) = file_data m" "file_pos (master_of m s c) = file_pos m"
  "sockfd_srv (master_of m s c) = s" "sockfd_cli (master_of m s c) = c"
  "env_of (slave_of m c) = env_of m" "klog (slave_of m c) = klog m" "fs (slave_of m c) = fs m"
  "socks (slave_of m c) = socks m" "infos (slave_of m c) = infos m" "pages (slave_of m c) = pages m"
  "private_data (slave_of m c) = private_data m" "vmas (slave_of m c) = vmas m"
  "file_data (slave_of m c) = file_data m" "file_pos (slave_of m c) = file_pos m"
  "s_sockfd_cli (slave_of m c) = c"
  by (simp_all add: device_samples)

lemma sample_devices_simps [simp]:
  "env_of sample_devices = sample_env" "klog sample_devices = []" "fs sample_devices = USER_DS"
  "socks sample_devices = sample_socks" "infos sample_devices = sample_infos"
  "pages sample_devices = [60 \<mapsto> sample_page]" "private_data sample_devices = [3 \<mapsto> 50]"
  "vmas sample_devices = Map.empty" "file_data sample_devices = []"
  by (simp_all add: sample_devices_def) (simp_all add: sample_machine_def)

end
