(* ===== verification/Device_Life.thy ===== *)
theory Device_Life
  imports Frames Device_Samples
begin

text \<open>
  The life of the open files and mappings of the two devices: which info and which page belong to
  which open file, as an invariant over the kernel's tables, preserved by every operation of the
  drivers. The operations of \<open>slave_device.c\<close> are copies, so one development serves both.
\<close>

lemma wp_result: "wp m Q E w \<Longrightarrow> m w = Some (Ret a, w') \<Longrightarrow> Q a w'"
  by (simp add: wp_def)

section \<open>The invariant\<close>

definition owns :: "(nat \<Rightarrow> mmap_info option) \<Rightarrow> nat \<Rightarrow> nat \<Rightarrow> bool" where
  "owns I p g = (\<exists>i. I p = Some i \<and> data i = Some g)"

definition files_inv :: "(nat \<Rightarrow> nat option) \<Rightarrow> (nat \<Rightarrow> mmap_info option) \<Rightarrow> bool" where
  "files_inv D I = ((\<forall>f f' p. D f = Some p \<and> D f' = Some p \<longrightarrow> f = f') \<and> dom I = ran D)"

definition pages_inv :: "(nat \<Rightarrow> mmap_info option) \<Rightarrow> (nat \<Rightarrow> bytes option) \<Rightarrow> bool" where
  "pages_inv I P = ((\<forall>p q g. owns I p g \<and> owns I q g \<longrightarrow> p = q) \<and> dom P = {g. \<exists>p. owns I p g} \<and>
     (\<forall>g bs. P g = Some bs \<longrightarrow> length bs = PAGE_SIZE))"

definition maps_inv :: "(nat \<Rightarrow> vm_area option) \<Rightarrow> (nat \<Rightarrow> nat option) \<Rightarrow> bool" where
  "maps_inv V D = (\<forall>v a. V v = Some a \<longrightarrow> (\<exists>p \<in> ran D. vm_private_data a = Some p))"

definition bound_inv :: "(nat \<Rightarrow> mmap_info option) \<Rightarrow> (nat \<Rightarrow> bytes option) \<Rightarrow> nat \<Rightarrow> bool" where
  "bound_inv I P u = (\<forall>a \<in> dom I \<union> dom P. a < u)"

definition device_inv :: "'m machine_scheme \<Rightarrow> bool" where
  "device_inv w = (files_inv (private_data w) (infos w) \<and> pages_inv (infos w) (pages w) \<and>
     maps_inv (vmas w) (private_data w) \<and> bound_inv (infos w) (pages w) (unused_address w))"

lemma device_inv_same: "memory w' = memory w \<Longrightarrow> device_inv w' = device_inv w"
  by (simp add: memory_def device_inv_def)

lemma owns_upd: "owns (I(p \<mapsto> i)) q g = (if q = p then data i = Some g else owns I q g)"
  by (auto simp: owns_def)

lemma owns_del: "owns (I(p := None)) q g = (q \<noteq> p \<and> owns I q g)"
  by (auto simp: owns_def)

lemma device_inv_file:
  assumes "device_inv w" "private_data w f = Some p"
  obtains i where "infos w p = Some i"
    and "\<And>g. data i = Some g \<Longrightarrow> \<exists>bs. pages w g = Some bs \<and> length bs = PAGE_SIZE"
proof -
  from assms have "p \<in> dom (infos w)" by (auto simp: device_inv_def files_inv_def ran_def)
  then obtain i where i: "infos w p = Some i" by auto
  have "\<exists>bs. pages w g = Some bs \<and> length bs = PAGE_SIZE" if "data i = Some g" for g
  proof -
    from that i have "owns (infos w) p g" by (simp add: owns_def)
    with assms(1) have "g \<in> dom (pages w)" by (auto simp: device_inv_def pages_inv_def)
    with assms(1) show ?thesis by (fastforce simp: device_inv_def pages_inv_def)
  qed
  with i that show ?thesis by blast
qed

section \<open>Opening a file\<close>

lemma wp_kmalloc_info: "wp kmalloc_info Q E w =
    (let r = answer (env_of w) (klog w) Kmalloc; w1 = log_call Kmalloc r [] w in
     if r = 0 then Q None w1
     else Q (Some (unused_address w)) (w1\<lparr>infos := (infos w)(unused_address w \<mapsto>
        \<lparr>data = None, reference = uninitialised (env_of w) (klog w1)\<rparr>), unused_address := unused_address w + 1\<rparr>))"
  unfolding kmalloc_info_def by (simp add: wp_rules Let_def) (simp add: wp_def return_def)

lemma wp_get_zeroed_page: "wp get_zeroed_page Q E w =
    (let r = answer (env_of w) (klog w) Get_zeroed_page; w1 = log_call Get_zeroed_page r [] w in
     if r = 0 then Q None w1
     else Q (Some (unused_address w)) (w1\<lparr>pages := (pages w)(unused_address w \<mapsto> replicate PAGE_SIZE (CHR 0x00)),
        unused_address := unused_address w + 1\<rparr>))"
  unfolding get_zeroed_page_def by (simp add: wp_rules Let_def) (simp add: wp_def return_def)

lemma files_inv_add:
  assumes "files_inv D I" "D f = None" "u \<notin> dom I"
  shows "files_inv (D(f \<mapsto> u)) (I(u \<mapsto> i))"
proof -
  have "ran (D(f \<mapsto> u)) = insert u (ran D)" using assms(2) by (rule ran_map_upd)
  moreover have "D f' \<noteq> Some u" for f' using assms by (auto simp: files_inv_def ran_def)
  ultimately show ?thesis using assms by (auto simp: files_inv_def)
qed

lemma pages_inv_add:
  assumes "pages_inv I P" "u \<notin> dom I" "data i = None"
  shows "pages_inv (I(u \<mapsto> i)) P"
  using assms unfolding pages_inv_def owns_upd by (auto simp: owns_def)

lemma pages_inv_add_page:
  assumes "pages_inv I P" "u \<notin> dom I" "g \<notin> dom P" "length bs = PAGE_SIZE" "data i = Some g"
  shows "pages_inv (I(u \<mapsto> i)) (P(g \<mapsto> bs))"
proof -
  have "\<not> owns I q g" for q using assms(1,3) by (auto simp: pages_inv_def)
  with assms show ?thesis
    unfolding pages_inv_def owns_upd by (auto simp: owns_def split: if_splits)
qed

lemma maps_inv_add: "maps_inv V D \<Longrightarrow> D f = None \<Longrightarrow> maps_inv V (D(f \<mapsto> u))"
  by (fastforce simp: maps_inv_def ran_map_upd)

lemma open_keeps:
  assumes "device_inv w" "private_data w f = None"
  shows "wp (master_open f) (\<lambda>r w'. r = 0 \<and> device_inv w') (\<lambda>s _. s = Undefined Null_Dereference) w"
proof -
  let ?u = "unused_address w"
  have files: "files_inv (private_data w) (infos w)" and pages: "pages_inv (infos w) (pages w)"
    and maps: "maps_inv (vmas w) (private_data w)" and bound: "bound_inv (infos w) (pages w) ?u"
    using assms(1) by (simp_all add: device_inv_def)
  have fresh: "?u \<notin> dom (infos w)" "Suc ?u \<notin> dom (infos w)" "?u \<notin> dom (pages w)" "Suc ?u \<notin> dom (pages w)"
    using bound unfolding bound_inv_def by (metis UnI1 UnI2 Suc_n_not_le_n less_imp_le_nat less_irrefl_nat)+
  have bounds: "bound_inv ((infos w)(?u \<mapsto> i)) (pages w) (Suc ?u)"
      "bound_inv ((infos w)(?u \<mapsto> i)) ((pages w)(Suc ?u \<mapsto> bs)) (Suc (Suc ?u))" for i bs
    using bound by (auto simp: bound_inv_def less_SucI)
  show ?thesis
    using files_inv_add [OF files assms(2) fresh(1)] maps_inv_add [OF maps assms(2)]
      pages_inv_add [OF pages fresh(1)]
      pages_inv_add_page [OF pages fresh(1) fresh(4), of "replicate PAGE_SIZE (CHR 0x00)"] bounds
    by (simp add: master_open_def wp_rules wp_kmalloc_info wp_get_zeroed_page Let_def device_inv_def)
qed

section \<open>Releasing a file\<close>

lemma ran_del: "(\<forall>f f' p. D f = Some p \<and> D f' = Some p \<longrightarrow> f = f') \<Longrightarrow> D f = Some p \<Longrightarrow>
    ran (D(f := None)) = ran D - {p}"
  by (auto simp: ran_def split: if_splits) (metis option.inject)+

lemma close_keeps:
  assumes "device_inv w" "private_data w f = Some p"
    and free: "\<And>v a. vmas w v = Some a \<Longrightarrow> vm_private_data a \<noteq> Some p"
  shows "wp (master_close f) (\<lambda>r w'. r = 0 \<and> device_inv w' \<and> private_data w' = (private_data w)(f := None) \<and>
    infos w' = (infos w)(p := None)) never w"
proof -
  obtain i where i: "infos w p = Some i" using device_inv_file [OF assms(1,2)] by metis
  have files: "files_inv (private_data w) (infos w)" and pages: "pages_inv (infos w) (pages w)"
    and maps: "maps_inv (vmas w) (private_data w)" and bound: "bound_inv (infos w) (pages w) (unused_address w)"
    using assms(1) by (simp_all add: device_inv_def)
  have ran: "ran ((private_data w)(f := None)) = ran (private_data w) - {p}"
    using files assms(2) by (intro ran_del) (auto simp: files_inv_def)
  have 1: "files_inv ((private_data w)(f := None)) ((infos w)(p := None))"
    using files unfolding files_inv_def ran by auto
  have 2: "maps_inv (vmas w) ((private_data w)(f := None))"
    using maps free unfolding maps_inv_def ran by fastforce
  have owned: "owns (infos w) p g = (data i = Some g)" for g using i by (simp add: owns_def)
  have 3: "pages_inv ((infos w)(p := None)) (case data i of None \<Rightarrow> pages w | Some g \<Rightarrow> (pages w)(g := None))"
  proof (cases "data i")
    case None
    then have "(q \<noteq> p \<and> owns (infos w) q g) = owns (infos w) q g" for q g using owned by auto
    with pages None show ?thesis unfolding pages_inv_def owns_del by simp
  next
    case (Some g)
    then have "owns (infos w) p g" by (simp add: owned)
    moreover have "owns (infos w) q h \<Longrightarrow> h \<noteq> g \<Longrightarrow> q \<noteq> p" for q h using owned Some by auto
    ultimately have "dom (pages w) - {g} = {h. \<exists>q. q \<noteq> p \<and> owns (infos w) q h}"
      using pages owned Some unfolding pages_inv_def by blast
    with pages Some show ?thesis unfolding pages_inv_def owns_del by (auto split: if_splits)
  qed
  have 4: "bound_inv ((infos w)(p := None)) (case data i of None \<Rightarrow> pages w | Some g \<Rightarrow> (pages w)(g := None))
      (unused_address w)"
    using bound by (auto simp: bound_inv_def split: option.split)
  show ?thesis
    using i assms(2) 1 2 3 4
    by (cases "data i") (simp_all add: master_close_def wp_rules device_inv_def)
qed

section \<open>Mappings\<close>

lemma reference_keeps:
  assumes "I p = Some i"
  shows "files_inv D (I(p \<mapsto> i\<lparr>reference := r\<rparr>)) = files_inv D I"
    and "pages_inv (I(p \<mapsto> i\<lparr>reference := r\<rparr>)) P = pages_inv I P"
    and "bound_inv (I(p \<mapsto> i\<lparr>reference := r\<rparr>)) P u = bound_inv I P u"
proof -
  have dom: "dom (I(p \<mapsto> j)) = dom I" for j using assms by auto
  have "owns (I(p \<mapsto> i\<lparr>reference := r\<rparr>)) = owns I" using assms by (auto simp: fun_eq_iff owns_def)
  with dom show "files_inv D (I(p \<mapsto> i\<lparr>reference := r\<rparr>)) = files_inv D I"
    "pages_inv (I(p \<mapsto> i\<lparr>reference := r\<rparr>)) P = pages_inv I P"
    "bound_inv (I(p \<mapsto> i\<lparr>reference := r\<rparr>)) P u = bound_inv I P u"
    by (simp_all only: files_inv_def pages_inv_def bound_inv_def)
qed

definition new_area :: "nat \<Rightarrow> 64 word \<Rightarrow> 'm machine_scheme \<Rightarrow> 'm machine_scheme" where
  "new_area v flags w = w\<lparr>vmas := (vmas w)(v \<mapsto> \<lparr>has_vm_ops = False, vm_flags = flags, vm_private_data = None\<rparr>)\<rparr>"

lemma mmap_mmap_run:
  assumes "private_data w f = Some p" "infos w p = Some i"
  shows "wp (mmap_mmap f v) Q E (new_area v flags w) = Q 0 (w\<lparr>vmas := (vmas w)(v \<mapsto>
      \<lparr>has_vm_ops = True, vm_flags = or flags VM_RESERVED, vm_private_data = Some p\<rparr>),
    infos := (infos w)(p \<mapsto> i\<lparr>reference := reference i + 1\<rparr>)\<rparr>)"
  using assms by (simp add: mmap_mmap_def mmap_open_def new_area_def wp_rules)

lemma mapping_owner:
  assumes "device_inv w" "vmas w v = Some a"
  obtains p i where "vm_private_data a = Some p" "infos w p = Some i" "p \<in> ran (private_data w)"
  using assms by (fastforce simp: device_inv_def maps_inv_def files_inv_def)

lemma mmap_open_run:
  assumes "vmas w v = Some a" "vm_private_data a = Some p" "infos w p = Some i"
  shows "wp (mmap_open v) Q E w = Q () (w\<lparr>infos := (infos w)(p \<mapsto> i\<lparr>reference := reference i + 1\<rparr>)\<rparr>)"
    and "wp (mmap_close v) Q E w = Q () (w\<lparr>infos := (infos w)(p \<mapsto> i\<lparr>reference := reference i - 1\<rparr>)\<rparr>)"
  using assms by (simp_all add: mmap_open_def mmap_close_def wp_rules)

lemma maps_inv_upd: "maps_inv V D \<Longrightarrow> vm_private_data a = Some p \<Longrightarrow> p \<in> ran D \<Longrightarrow> maps_inv (V(v \<mapsto> a)) D"
  by (auto simp: maps_inv_def)

lemma maps_inv_del: "maps_inv V D \<Longrightarrow> maps_inv (V(v := None)) D"
  by (auto simp: maps_inv_def split: if_splits)

lemma store_keeps:
  assumes "device_inv w"
  shows "wp (store_page (Some g) bs) (\<lambda>_ w'. device_inv w') (\<lambda>_ _. True) w"
proof -
  have "device_inv (w\<lparr>pages := (pages w)(g \<mapsto> bs @ drop (length bs) old)\<rparr>)"
    if "pages w g = Some old" "length bs \<le> length old" for old
  proof -
    have "dom ((pages w)(g \<mapsto> x)) = dom (pages w)" for x using that by auto
    with assms that show ?thesis
      by (auto simp: device_inv_def pages_inv_def bound_inv_def)
  qed
  with assms show ?thesis by (simp add: wp_rules split: option.split)
qed

section \<open>Reachable states\<close>

text \<open>
  The steps of the kernel that involve an open device file. The kernel itself sees to it that a file
  is released only when no mapping of it is left, and that a new mapping has a new area.
\<close>

inductive device_step :: "'m master_scheme \<Rightarrow> 'm master_scheme \<Rightarrow> bool" where
  Open: "private_data w f = None \<Longrightarrow> master_open f w = Some (Ret r, w') \<Longrightarrow> device_step w w'"
| Release: "private_data w f = Some p \<Longrightarrow>
    (\<And>v a. vmas w v = Some a \<Longrightarrow> vm_private_data a \<noteq> Some p) \<Longrightarrow>
    master_close f w = Some (Ret r, w') \<Longrightarrow> device_step w w'"
| Map: "private_data w f = Some p \<Longrightarrow> vmas w v = None \<Longrightarrow>
    mmap_mmap f v (new_area v flags w) = Some (Ret r, w') \<Longrightarrow> device_step w w'"
| Copy: "vmas w v = Some a \<Longrightarrow> vmas w v' = None \<Longrightarrow>
    mmap_open v' (w\<lparr>vmas := (vmas w)(v' \<mapsto> a)\<rparr>) = Some (Ret r', w') \<Longrightarrow> device_step w w'"
| Unmap: "vmas w v = Some a \<Longrightarrow> mmap_close v w = Some (Ret r', w') \<Longrightarrow>
    device_step w (w'\<lparr>vmas := (vmas w')(v := None)\<rparr>)"
| Touch: "mmap_fault v w = Some (Ret (r, Some g), w1) \<Longrightarrow> store_page (Some g) bs w1 = Some (Ret r', w') \<Longrightarrow>
    device_step w w'"
| Request: "master_ioctl f num param w = Some (Ret r, w') \<Longrightarrow> device_step w w'"
| Write: "send_msg buf n w = Some (Ret r, w') \<Longrightarrow> device_step w w'"

inductive device_reachable :: "'m master_scheme \<Rightarrow> bool" where
  Start: "private_data w = Map.empty \<Longrightarrow> infos w = Map.empty \<Longrightarrow> pages w = Map.empty \<Longrightarrow> vmas w = Map.empty \<Longrightarrow>
    device_reachable w"
| Step: "device_reachable w \<Longrightarrow> device_step w w' \<Longrightarrow> device_reachable w'"

lemma requests_memory:
  "keeps memory (mmap_fault v)" "keeps memory (master_ioctl f num param)" "keeps memory (send_msg buf n)"
  unfolding mmap_fault_def master_ioctl_def master_createsock_def send_msg_def
  by (intro keeps_structure memory.keeps_calls memory.keeps_ksocket memory.keeps_transfer keeps_update
      | simp add: memory_def)+

lemma map_keeps:
  assumes "device_inv w" "private_data w f = Some p" "mmap_mmap f v (new_area v flags w) = Some (Ret r, w')"
  shows "device_inv w'"
proof -
  obtain i where i: "infos w p = Some i" using device_inv_file [OF assms(1,2)] by metis
  have "p \<in> ran (private_data w)" using assms(2) by (auto simp: ran_def)
  with assms(1) i have "wp (mmap_mmap f v) (\<lambda>_ w'. device_inv w') never (new_area v flags w)"
    by (simp add: mmap_mmap_run [OF assms(2) i] device_inv_def reference_keeps maps_inv_upd)
  from wp_result [OF this assms(3)] show ?thesis .
qed

lemma copy_keeps:
  assumes "device_inv w" "vmas w v = Some a" "mmap_open v' (w\<lparr>vmas := (vmas w)(v' \<mapsto> a)\<rparr>) = Some (Ret r, w')"
  shows "device_inv w'"
proof -
  obtain p i where p: "vm_private_data a = Some p" "infos w p = Some i" "p \<in> ran (private_data w)"
    using mapping_owner [OF assms(1,2)] by metis
  with assms(1) have "wp (mmap_open v') (\<lambda>_ w'. device_inv w') never (w\<lparr>vmas := (vmas w)(v' \<mapsto> a)\<rparr>)"
    by (simp add: mmap_open_run(1) [OF _ p(1)] device_inv_def reference_keeps maps_inv_upd)
  from wp_result [OF this assms(3)] show ?thesis .
qed

lemma unmap_keeps:
  assumes "device_inv w" "vmas w v = Some a" "mmap_close v w = Some (Ret r, w')"
  shows "device_inv (w'\<lparr>vmas := (vmas w')(v := None)\<rparr>)"
proof -
  obtain p i where p: "vm_private_data a = Some p" "infos w p = Some i" "p \<in> ran (private_data w)"
    using mapping_owner [OF assms(1,2)] by metis
  with assms(1) have "wp (mmap_close v) (\<lambda>_ w'. device_inv (w'\<lparr>vmas := (vmas w')(v := None)\<rparr>)) never w"
    by (simp add: mmap_open_run(2) [OF assms(2) p(1,2)] device_inv_def reference_keeps maps_inv_del)
  from wp_result [OF this assms(3)] show ?thesis .
qed

lemma keeps_memory_inv: "keeps memory m \<Longrightarrow> m w = Some (Ret r, w') \<Longrightarrow> device_inv w \<Longrightarrow> device_inv w'"
  using device_inv_same [of w' w] by (simp add: keeps_def)

lemma device_step_inv: "device_step w w' \<Longrightarrow> device_inv w \<Longrightarrow> device_inv w'"
proof (induction rule: device_step.induct)
  case (Open w f r w')
  from wp_result [OF open_keeps [OF this(3,1)] Open(2)] show ?case by simp
next
  case (Release w f p r w')
  from wp_result [OF close_keeps [OF Release(4,1,2)] Release(3)] show ?case by simp
next
  case (Touch v w r g w1 bs r' w')
  have "device_inv w1" by (rule keeps_memory_inv [OF requests_memory(1) Touch(1,3)])
  from wp_result [OF store_keeps [OF this] Touch(2)] show ?case .
next
  case (Request f num param w r w')
  show ?case by (rule keeps_memory_inv [OF requests_memory(2) Request])
next
  case (Write buf n w r w')
  show ?case by (rule keeps_memory_inv [OF requests_memory(3) Write])
qed (blast intro: map_keeps copy_keeps unmap_keeps)+

text \<open>C9: In every reachable state of the device each open file has an info of its own and, if the
  allocation succeeded, a page of its own, 4096 bytes long; there are no other infos or pages (nothing
  leaks), and every mapping belongs to an open file.\<close>
theorem device_files_separate:
  assumes "device_reachable w"
  shows "dom (infos w) = ran (private_data w) \<and>
    (\<forall>f f' p. private_data w f = Some p \<and> private_data w f' = Some p \<longrightarrow> f = f') \<and>
    (\<forall>p q g. owns (infos w) p g \<and> owns (infos w) q g \<longrightarrow> p = q) \<and>
    dom (pages w) = {g. \<exists>p. owns (infos w) p g} \<and>
    (\<forall>g bs. pages w g = Some bs \<longrightarrow> length bs = 4096) \<and>
    (\<forall>v a. vmas w v = Some a \<longrightarrow> (\<exists>p \<in> ran (private_data w). vm_private_data a = Some p))"
proof -
  have "device_inv w" using assms
  proof (induction rule: device_reachable.induct)
    case (Start w)
    then show ?case
      by (simp add: device_inv_def files_inv_def pages_inv_def maps_inv_def bound_inv_def owns_def)
  qed (rule device_step_inv)
  then show ?thesis
    by (simp add: device_inv_def files_inv_def pages_inv_def maps_inv_def PAGE_SIZE_def)
qed

theorem device_files_separate_sample:
  "\<exists>w. master_open 3 (master_of sample_machine None None) = Some (Ret 0, w) \<and>
    dom (infos w) = ran (private_data w) \<and> dom (pages w) = {g. \<exists>p. owns (infos w) p g}"
proof -
  let ?w = "master_of sample_machine None None"
  have "wp (master_open 3) (\<lambda>r _. r = 0) never ?w"
    by (simp add: master_open_def wp_rules wp_kmalloc_info wp_get_zeroed_page Let_def)
  then obtain w where run: "master_open 3 ?w = Some (Ret 0, w)" by (auto simp: wp_never_runs)
  have "device_reachable ?w" by (rule Start) (simp_all add: sample_machine_def)
  moreover have "device_step ?w w" by (rule Open [OF _ run]) (simp add: sample_machine_def)
  ultimately have "device_reachable w" by (rule Step)
  from device_files_separate [OF this] run show ?thesis by blast
qed

end
