(* ===== verification/Slave_Life.thy ===== *)
theory Slave_Life
  imports Device_Life
begin

text \<open>
  The life of the open files of \<open>slave_device.c\<close>. Unlike the sending device this one writes to a page itself,
  when a request has received a message; so the steps are shown to preserve the invariant of
  \<open>Device_Life\<close> by the rules of \<open>Prelude\<close> for each construct of a program.
\<close>

section \<open>What leaves the tables of the devices alone\<close>

lemma preserves_memory: "keeps memory m \<Longrightarrow> preserves device_inv m"
  by (auto simp: preserves_def intro: keeps_memory_inv)

lemma store_preserves: "preserves device_inv (store_page p bs)"
proof (cases p)
  case None
  then show ?thesis by (simp add: preserves_def store_page_def undef_def halt_def return_def)
next
  case (Some g)
  then show ?thesis using wp_result [OF store_keeps] by (auto simp: preserves_def)
qed

section \<open>The requests of the receiving device\<close>

lemma createsock_memory: "keeps memory (slave_createsock ip)"
  unfolding slave_createsock_def
  by (intro keeps_structure memory.keeps_calls memory.keeps_ksocket keeps_update | simp add: memory_def)+

lemma receive_memory: "keeps memory (receive_msg n)"
  unfolding receive_msg_def copy_to_user_def
  by (intro keeps_structure memory.keeps_calls memory.keeps_transfer)+

lemma request_preserves: "preserves device_inv (slave_ioctl f num param user_text)"
  unfolding slave_ioctl_def
  by (intro preserves_rules store_preserves preserves_memory [OF createsock_memory]
      preserves_memory [OF memory.keeps_set_fs] preserves_memory [OF memory.keeps_transfer(2)]
      preserves_memory [OF memory.keeps_ksocket(1)] preserves_memory [OF memory.keeps_calls(2)]
      preserves_memory [OF keeps_read(1)] preserves_memory [OF keeps_read(3)] preserves_memory [OF keeps_read(4)]
      preserves_memory [OF keeps_read(6)] preserves_memory [OF keeps_update]
    | simp add: memory_def)+

section \<open>Reachable states\<close>

text \<open>The steps are those of the sending device, with the handlers of this one.\<close>

inductive slave_step :: "'m slave_scheme \<Rightarrow> 'm slave_scheme \<Rightarrow> bool" where
  Slave_Open: "private_data w f = None \<Longrightarrow> slave_open f w = Some (Ret r, w') \<Longrightarrow> slave_step w w'"
| Slave_Release: "private_data w f = Some p \<Longrightarrow>
    (\<And>v a. vmas w v = Some a \<Longrightarrow> vm_private_data a \<noteq> Some p) \<Longrightarrow>
    slave_close f w = Some (Ret r, w') \<Longrightarrow> slave_step w w'"
| Slave_Map: "private_data w f = Some p \<Longrightarrow> vmas w v = None \<Longrightarrow>
    slave_mmap_mmap f v (new_area v flags w) = Some (Ret r, w') \<Longrightarrow> slave_step w w'"
| Slave_Copy: "vmas w v = Some a \<Longrightarrow> vmas w v' = None \<Longrightarrow>
    slave_mmap_open v' (w\<lparr>vmas := (vmas w)(v' \<mapsto> a)\<rparr>) = Some (Ret r', w') \<Longrightarrow> slave_step w w'"
| Slave_Unmap: "vmas w v = Some a \<Longrightarrow> slave_mmap_close v w = Some (Ret r', w') \<Longrightarrow>
    slave_step w (w'\<lparr>vmas := (vmas w')(v := None)\<rparr>)"
| Slave_Touch: "slave_mmap_fault v w = Some (Ret (r, Some g), w1) \<Longrightarrow> store_page (Some g) bs w1 = Some (Ret r', w') \<Longrightarrow>
    slave_step w w'"
| Slave_Request: "slave_ioctl f num param user_text w = Some (Ret r, w') \<Longrightarrow> slave_step w w'"
| Slave_Read: "receive_msg n w = Some (Ret r, w') \<Longrightarrow> slave_step w w'"

inductive slave_reachable :: "'m slave_scheme \<Rightarrow> bool" where
  Slave_Start: "private_data w = Map.empty \<Longrightarrow> infos w = Map.empty \<Longrightarrow> pages w = Map.empty \<Longrightarrow>
    vmas w = Map.empty \<Longrightarrow> slave_reachable w"
| Slave_Then: "slave_reachable w \<Longrightarrow> slave_step w w' \<Longrightarrow> slave_reachable w'"

lemma slave_step_inv: "slave_step w w' \<Longrightarrow> device_inv w \<Longrightarrow> device_inv w'"
proof (induction rule: slave_step.induct)
  case (Slave_Open w f r w')
  from wp_result [OF open_keeps [OF this(3,1)] Slave_Open(2) [unfolded slave_copies]] show ?case by simp
next
  case (Slave_Release w f p r w')
  from wp_result [OF close_keeps [OF Slave_Release(4,1,2)] Slave_Release(3) [unfolded slave_copies]] show ?case by simp
next
  case (Slave_Touch v w r g w1 bs r' w')
  have "device_inv w1"
    by (rule keeps_memory_inv [OF requests_memory(1) Slave_Touch(1) [unfolded slave_copies] Slave_Touch(3)])
  from wp_result [OF store_keeps [OF this] Slave_Touch(2)] show ?case .
next
  case (Slave_Request f num param user_text w r w')
  show ?case by (rule preservesD [OF request_preserves Slave_Request])
next
  case (Slave_Read n w r w')
  show ?case by (rule keeps_memory_inv [OF receive_memory Slave_Read])
qed (auto simp: slave_copies intro: map_keeps copy_keeps unmap_keeps)

text \<open>C14: In every reachable state of the receiving device each open file has an info of its own and, if the
  allocation succeeded, a page of its own, 4096 bytes long whatever messages were received into it; there are
  no other infos or pages, and every mapping belongs to an open file.\<close>
theorem slave_files_separate:
  assumes "slave_reachable w"
  shows "dom (infos w) = ran (private_data w) \<and>
    (\<forall>f f' p. private_data w f = Some p \<and> private_data w f' = Some p \<longrightarrow> f = f') \<and>
    (\<forall>p q g. owns (infos w) p g \<and> owns (infos w) q g \<longrightarrow> p = q) \<and>
    dom (pages w) = {g. \<exists>p. owns (infos w) p g} \<and>
    (\<forall>g bs. pages w g = Some bs \<longrightarrow> length bs = 4096) \<and>
    (\<forall>v a. vmas w v = Some a \<longrightarrow> (\<exists>p \<in> ran (private_data w). vm_private_data a = Some p))"
proof -
  have "device_inv w" using assms
  proof (induction rule: slave_reachable.induct)
    case (Slave_Start w)
    then show ?case
      by (simp add: device_inv_def files_inv_def pages_inv_def maps_inv_def bound_inv_def owns_def)
  qed (rule slave_step_inv)
  then show ?thesis
    by (simp add: device_inv_def files_inv_def pages_inv_def maps_inv_def PAGE_SIZE_def)
qed

theorem slave_files_separate_sample:
  "\<exists>w. slave_open 3 (slave_of sample_machine None) = Some (Ret 0, w) \<and>
    dom (infos w) = ran (private_data w) \<and> dom (pages w) = {g. \<exists>p. owns (infos w) p g}"
proof -
  let ?w = "slave_of sample_machine None"
  have "wp (slave_open 3) (\<lambda>r _. r = 0) never ?w"
    by (simp add: slave_open_def wp_rules wp_kmalloc_info wp_get_zeroed_page Let_def)
  then obtain w where run: "slave_open 3 ?w = Some (Ret 0, w)" by (auto simp: wp_never_runs)
  have "slave_reachable ?w" by (rule Slave_Start) (simp_all add: sample_machine_def)
  moreover have "slave_step ?w w" by (rule Slave_Open [OF _ run]) (simp add: sample_machine_def)
  ultimately have "slave_reachable w" by (rule Slave_Then)
  from slave_files_separate [OF this] run show ?thesis by blast
qed

end
