(* ===== verification/Device_Requests.thy ===== *)
theory Device_Requests
  imports Device_Life Ksocket_Address
begin

text \<open>
  What the requests to the two devices do, on every branch: setting up and accepting connections,
  sending a page or a buffer, receiving, and what happens to the address limit of the
  calling process.
\<close>

section \<open>The sending device\<close>

lemma calls_more [simp]:
  "calls (sockfd_srv_update f m) = calls m" "calls (sockfd_cli_update f m) = calls m"
  "calls (addr_cli_update g m) = calls m" "calls (addr_len_update h m) = calls m"
  "calls (addr_srv_update g m) = calls m" "calls (old_fs_update i m) = calls m"
  "calls (w\<lparr>klog := l\<rparr>) = map (\<lambda>e. (the_call e, result e)) l"
  by (simp_all add: calls_def)

lemma statics_log [simp]:
  "sockfd_srv (log_call c r bs m) = sockfd_srv m" "sockfd_cli (log_call c r bs m) = sockfd_cli m"
  "addr_srv (log_call c r bs m) = addr_srv m" "addr_cli (log_call c r bs m) = addr_cli m"
  "old_fs (log_call c r bs m) = old_fs m" "addr_len (log_call c r bs m) = addr_len m"
  "s_sockfd_cli (log_call c r bs s) = s_sockfd_cli s" "s_old_fs (log_call c r bs s) = s_old_fs s"
  "s_addr_srv (log_call c r bs s) = s_addr_srv s"
  by (simp_all add: log_call_def)

lemma wp_ksend_dead: "Option.bind p (socks w) = None \<Longrightarrow>
    wp (ksend p buf n flags) Q E w = E (Undefined Null_Dereference) (w\<lparr>fs := KERNEL_DS\<rparr>)"
  by (simp add: ksend_def sock_sendmsg_def wp_rules)

lemma wp_ksend_overread: "socks w a = Some k \<Longrightarrow> length buf < n \<Longrightarrow>
    wp (ksend (Some a) buf n flags) Q E w = E (Undefined Out_Of_Bounds) (w\<lparr>fs := KERNEL_DS\<rparr>)"
  by (simp add: ksend_def wp_rules sock_sendmsg_overread)

lemma ioctl_numbers [simp]:
  "master_IOCTL_MMAP \<noteq> master_IOCTL_CREATESOCK" "master_IOCTL_EXIT \<noteq> master_IOCTL_CREATESOCK"
  "master_IOCTL_EXIT \<noteq> master_IOCTL_MMAP"
  "slave_IOCTL_MMAP \<noteq> slave_IOCTL_CREATESOCK" "slave_IOCTL_EXIT \<noteq> slave_IOCTL_CREATESOCK"
  "slave_IOCTL_EXIT \<noteq> slave_IOCTL_MMAP"
  by (simp_all add: master_IOCTL_CREATESOCK_def master_IOCTL_MMAP_def master_IOCTL_EXIT_def
      slave_IOCTL_CREATESOCK_def slave_IOCTL_MMAP_def slave_IOCTL_EXIT_def)

text \<open>A file that is open, with its page.\<close>

definition open_page :: "'m machine_scheme \<Rightarrow> nat \<Rightarrow> nat \<Rightarrow> bytes \<Rightarrow> bool" where
  "open_page w f g page = (\<exists>p i. private_data w f = Some p \<and> infos w p = Some i \<and> data i = Some g \<and>
     pages w g = Some page)"

lemma wp_mmap_request:
  assumes "open_page w f g page" "sockfd_cli w = Some a" "socks w a = Some k"
  shows "unat n \<le> length page \<Longrightarrow> wp (master_ioctl f master_IOCTL_MMAP n) Q E w =
      (let c = Sock_sendmsg a (take (unat n) page) 0 None; r = answer (env_of w) (klog w) c in
       Q 0 (w\<lparr>klog := klog w @ [\<lparr>at_fs = KERNEL_DS, the_call = c, result = r, received = []\<rparr>]\<rparr>))"
    and "length page < unat n \<Longrightarrow> wp (master_ioctl f master_IOCTL_MMAP n) Q E w =
      E (Undefined Out_Of_Bounds) (w\<lparr>fs := KERNEL_DS\<rparr>)"
  using assms by (auto simp: open_page_def master_ioctl_def wp_rules socket_run wp_ksend_overread Let_def)

lemma wp_send_msg:
  assumes "sockfd_cli w = Some a" "socks w a = Some k" "n \<le> length buf" "n \<le> PAGE_SIZE"
    and "answer (env_of w) (klog w) (Copy_from_user n) = 0"
  shows "wp (send_msg buf n) Q E w =
      (let w1 = log_call (Copy_from_user n) 0 [] w;
         c = Sock_sendmsg a (take n buf) 0 None; r = answer (env_of w) (klog w1) c in
       Q (int n) (w1\<lparr>klog := klog w1 @ [\<lparr>at_fs = KERNEL_DS, the_call = c, result = r, received = []\<rparr>]\<rparr>))"
  using assms by (simp add: send_msg_def wp_rules socket_run Let_def)

text \<open>C29: A request to send \<open>n\<close> bytes of the mapped page makes one message of exactly the first \<open>n\<close> bytes of
  the page of that file and returns 0, whatever the socket layer answers; a request for more than
  the page holds reads kernel memory behind it.\<close>
theorem master_mmap_request:
  assumes "open_page w f g page" "sockfd_cli w = Some a" "socks w a = Some k" "length page = 4096"
  shows "if unat n \<le> 4096
    then \<exists>r w'. master_ioctl f master_IOCTL_MMAP n w = Some (Ret 0, w') \<and> fs w' = fs w \<and>
      calls w' = calls w @ [(Sock_sendmsg a (take (unat n) page) 0 None, r)]
    else \<exists>w'. master_ioctl f master_IOCTL_MMAP n w = Some (Halt (Undefined Out_Of_Bounds), w')"
proof (cases "unat n \<le> 4096")
  case True
  have "wp (master_ioctl f master_IOCTL_MMAP n) (\<lambda>v w'. v = 0 \<and> fs w' = fs w \<and>
      (\<exists>r. calls w' = calls w @ [(Sock_sendmsg a (take (unat n) page) 0 None, r)])) never w"
    using True assms by (simp add: wp_mmap_request(1) Let_def) (simp add: calls_def)
  with True show ?thesis by (auto simp: wp_never_runs)
next
  case False
  then have "wp (master_ioctl f master_IOCTL_MMAP n) (\<lambda>_ _. False) (\<lambda>s _. s = Undefined Out_Of_Bounds) w"
    using assms by (simp add: wp_mmap_request(2))
  with False show ?thesis by (auto simp: wp_def split: option.splits res.splits)
qed

theorem master_mmap_request_sample:
  "\<exists>r w'. master_ioctl 3 master_IOCTL_MMAP 5 sample_master = Some (Ret 0, w') \<and>
    calls w' = [(Sock_sendmsg 5 ''hello'' 0 None, r)]"
  using master_mmap_request [of sample_master 3 60 sample_page 5 sample_sock 5]
  by (auto simp: sample_master_def open_page_def sample_infos_def calls_def)

text \<open>C28: A write of up to 4096 bytes to the device makes one message of exactly these bytes and reports all of
  them as written even when the socket layer fails; a longer write overruns the buffer on the
  kernel's stack, and a fault of the user's memory is an error with nothing sent.\<close>
theorem send_msg_exact:
  assumes "sockfd_cli w = Some a" "socks w a = Some k" "n \<le> length buf"
  shows "if 4096 < n then send_msg buf n w = Some (Halt (Undefined Buffer_Overrun), w)
    else if answer (env_of w) (klog w) (Copy_from_user n) \<noteq> 0
    then \<exists>w'. send_msg buf n w = Some (Ret (- 12), w') \<and> socks w' = socks w \<and> fs w' = fs w
    else \<exists>r w'. send_msg buf n w = Some (Ret (int n), w') \<and> fs w' = fs w \<and>
      calls w' = calls w @ [(Copy_from_user n, 0), (Sock_sendmsg a (take n buf) 0 None, r)]"
proof -
  let ?left = "answer (env_of w) (klog w) (Copy_from_user n)"
  consider "4096 < n" | "n \<le> 4096" "?left \<noteq> 0" | "n \<le> 4096" "?left = 0" by linarith
  then show ?thesis
  proof cases
    case 1
    then show ?thesis by (simp add: send_msg_def PAGE_SIZE_def undef_def halt_def)
  next
    case 2
    then have "wp (send_msg buf n) (\<lambda>v w'. v = - 12 \<and> socks w' = socks w \<and> fs w' = fs w) never w"
      by (simp add: send_msg_def wp_rules PAGE_SIZE_def ENOMEM_def)
    with 2 show ?thesis by (auto simp: wp_never_runs)
  next
    case 3
    have "wp (send_msg buf n) (\<lambda>v w'. v = int n \<and> fs w' = fs w \<and>
        (\<exists>r. calls w' = calls w @ [(Copy_from_user n, 0), (Sock_sendmsg a (take n buf) 0 None, r)])) never w"
      using assms 3 by (simp add: wp_send_msg PAGE_SIZE_def Let_def) (simp add: calls_def)
    with 3 show ?thesis by (auto simp: wp_never_runs)
  qed
qed

theorem send_msg_exact_sample:
  "\<exists>r w'. send_msg ''hello'' 5 sample_master = Some (Ret 5, w') \<and>
    calls w' = [(Copy_from_user 5, 0), (Sock_sendmsg 5 ''hello'' 0 None, r)]"
  using send_msg_exact [of sample_master 5 sample_sock 5 "''hello''"]
  by (auto simp: sample_master_def calls_def)

text \<open>After the request that ends a connection the device still holds the pointer to its socket: until
  the next connection, each request to send or to end it and each write use freed memory.\<close>
theorem master_exit_dangles:
  assumes "sockfd_cli w = Some a" "socks w a = Some k"
    and "answer (env_of w) (klog w) (Op (sk_ops k) a Release) \<noteq> -1"
  shows "\<exists>w'. master_ioctl f master_IOCTL_EXIT x w = Some (Ret 0, w') \<and> socks w' = (socks w)(a := None) \<and>
    sockfd_cli w' = Some a \<and> (\<exists>w2. master_ioctl f' master_IOCTL_EXIT y w' = Some (Halt (Undefined Null_Dereference), w2)) \<and>
    (\<forall>buf n. n \<le> 4096 \<and> answer (env_of w') (klog w') (Copy_from_user n) = 0 \<longrightarrow>
       (\<exists>w2. send_msg buf n w' = Some (Halt (Undefined Null_Dereference), w2)))"
proof -
  have "wp (master_ioctl f master_IOCTL_EXIT x) (\<lambda>r w'. r = 0 \<and> socks w' = (socks w)(a := None) \<and>
      sockfd_cli w' = Some a) never w"
    using assms by (simp add: master_ioctl_def wp_rules socket_run Let_def)
  then obtain w' where run: "master_ioctl f master_IOCTL_EXIT x w = Some (Ret 0, w')"
    and dead: "socks w' = (socks w)(a := None)" "sockfd_cli w' = Some a"
    by (auto simp: wp_never_runs)
  have "wp (master_ioctl f' master_IOCTL_EXIT y) (\<lambda>_ _. False) (\<lambda>s _. s = Undefined Null_Dereference) w'"
    using dead by (simp add: master_ioctl_def kclose_def wp_rules sock_call_null)
  moreover have "wp (send_msg buf n) (\<lambda>_ _. False) (\<lambda>s _. s = Undefined Null_Dereference) w'"
    if "n \<le> 4096" "answer (env_of w') (klog w') (Copy_from_user n) = 0" for buf n
    using dead that by (simp add: send_msg_def wp_rules PAGE_SIZE_def wp_ksend_dead)
  ultimately show ?thesis
    using run dead by (auto simp: wp_stops intro!: exI [of _ w'])
qed

theorem master_exit_dangles_sample:
  "\<exists>w' w2. master_ioctl 3 master_IOCTL_EXIT 0 sample_master = Some (Ret 0, w') \<and>
    master_ioctl 3 master_IOCTL_EXIT 0 w' = Some (Halt (Undefined Null_Dereference), w2)"
  using master_exit_dangles [of sample_master 5 sample_sock 3 0 3 0]
  by (auto simp: sample_master_def)

lemma wp_inet_ntoa:
  "wp (inet_ntoa ip) Q E w = (let r = answer (env_of w) (klog w) Kmalloc in
     Q (if r = 0 then None else Some (dotted ip)) (log_call Kmalloc r [] w))"
  using length_dotted [of ip] by (simp add: inet_ntoa_def wp_rules Let_def)

lemma accepted_later: "accepted a k w r w' \<Longrightarrow> socks w'' = socks w' \<Longrightarrow>
    set (calls w') \<subseteq> set (calls w'') \<Longrightarrow> accepted a k w r w''"
  unfolding accepted_def by (cases r) (simp, auto 0 3)

lemma accepted_None: "accepted a k w None w' = (socks w' = socks w)"
  by (simp add: accepted_def)

text \<open>C31: The request to accept a connection: it returns 0 with a new socket of the listening socket's type, on which
  \<open>accept\<close> has succeeded, in \<open>sockfd_cli\<close>; or -1 with \<open>NULL\<close> there and no socket left behind.\<close>
theorem master_createsock_outcome:
  assumes "sockfd_srv w = Some a" "socks w a = Some k" "fresh_sockets w"
  shows "\<exists>r w'. master_ioctl f master_IOCTL_CREATESOCK x w = Some (Ret r, w') \<and> fs w' = fs w \<and>
    (case sockfd_cli w' of
       None \<Rightarrow> r = -1 \<and> socks w' = socks w
     | Some b \<Rightarrow> r = 0 \<and> accepted a k w (Some b) w')"
proof -
  have "wp (master_ioctl f master_IOCTL_CREATESOCK x) (\<lambda>r w'. fs w' = fs w \<and> (case sockfd_cli w' of
       None \<Rightarrow> r = -1 \<and> socks w' = socks w
     | Some b \<Rightarrow> r = 0 \<and> accepted a k w (Some b) w')) never w"
    using assms(1)
    by (simp add: master_ioctl_def master_createsock_def wp_rules,
      intro wp_mono [OF kaccept_accepted [OF assms(2,3)]])
      (auto simp: wp_rules wp_inet_ntoa accepted_None Let_def split: option.splits elim!: accepted_later)
  then show ?thesis by (auto simp: wp_never_runs)
qed

theorem master_createsock_outcome_sample:
  "\<exists>r w'. master_ioctl 3 master_IOCTL_CREATESOCK 0 sample_master = Some (Ret r, w') \<and> fs w' = USER_DS"
  using master_createsock_outcome [of sample_master 7 sample_sock 3 0]
  by (auto simp: sample_master_def fresh_sockets_def)

lemma wp_ksocket: "wp (ksocket i j k) Q E w =
    (let r = answer (env_of w) (klog w) (Sock_create i j k); w' = log_call (Sock_create i j k) r [] w in
     if r < 0 then Q None w'
     else case new_socket (env_of w) (klog w) of
       None \<Rightarrow> Q None w'
     | Some (a, n) \<Rightarrow> Q (Some a) (w'\<lparr>socks := (socks w')(a \<mapsto> n)\<rparr>))"
  by (auto simp: ksocket_def wp_rules wp_sock_create Let_def split: option.split)

lemma wp_kbind: "socks w a = Some k \<Longrightarrow> wp (kbind (Some a) addr n) Q E w =
    (let c = Op (sk_ops k) a (Bind addr n); r = answer (env_of w) (klog w) c in Q r (log_call c r [] w))"
  by (simp add: kbind_def socket_run)

lemma wp_klisten_10: "socks w a = Some k \<Longrightarrow> wp (klisten (Some a) 10) Q E w =
    (let c = Op (sk_ops k) a (Listen 10); r = answer (env_of w) (klog w) c in Q r (log_call c r [] w))"
  by (simp add: klisten_def socket_run SOMAXCONN_def)

lemma wp_kconnect: "socks w a = Some k \<Longrightarrow> wp (kconnect (Some a) addr n) Q E w =
    (let c = Op (sk_ops k) a (Connect addr n 0); r = answer (env_of w) (klog w) c in Q r (log_call c r [] w))"
  by (simp add: kconnect_def socket_run)

text \<open>The address and the backlog of the server.\<close>

definition server_addr :: sockaddr_in where
  "server_addr = \<lparr>sin_family = 2, sin_port = htons 2325, s_addr = 0\<rparr>"

definition serving :: "'m master_scheme \<Rightarrow> bool" where
  "serving w = (\<exists>a k. sockfd_srv w = Some a \<and> socks w a = Some k \<and>
     (\<exists>r. (Op (sk_ops k) a (Bind server_addr 16), r) \<in> set (calls w) \<and> 0 \<le> r) \<and>
     (\<exists>r. (Op (sk_ops k) a (Listen 10), r) \<in> set (calls w) \<and> 0 \<le> r))"

definition register_answer :: "'m machine_scheme \<Rightarrow> int" where
  "register_answer w = (let r = answer (env_of w) (klog w) Debugfs_create in
     answer (env_of w) (klog (log_call Debugfs_create r [] w)) Misc_register)"

lemma serving_intro:
  "sockfd_srv w = Some a \<Longrightarrow> socks w a = Some k \<Longrightarrow>
    (Op (sk_ops k) a (Bind server_addr 16), r) \<in> set (calls w) \<Longrightarrow> 0 \<le> r \<Longrightarrow>
    (Op (sk_ops k) a (Listen 10), r') \<in> set (calls w) \<Longrightarrow> 0 \<le> r' \<Longrightarrow> serving w"
  unfolding serving_def by blast

text \<open>C33: Loading the module never misbehaves. If it returns 0, a socket is bound to port 2325 of any address and
  listens with a backlog of 10. If registering the device fails its error is returned. Otherwise the
  device stays registered whatever the result, also when no socket could be set up, and the
  loading process is left with the address limit \<open>KERNEL_DS\<close>.\<close>
theorem master_init_outcome:
  "\<exists>r w'. master_init w = Some (Ret r, w') \<and>
     (if register_answer w < 0 then r = register_answer w \<and> fs w' = fs w
      else (r = 0 \<or> r = -1) \<and> fs w' = KERNEL_DS \<and> old_fs w' = fs w \<and>
        (\<forall>x. (Misc_deregister, x) \<notin> set (drop (length (calls w)) (calls w'))) \<and>
        (r = 0 \<longrightarrow> serving w' \<and> sockfd_cli w' = None))"
proof (cases "register_answer w < 0")
  case True
  then have "wp master_init (\<lambda>r w'. r = register_answer w \<and> fs w' = fs w) never w"
    by (simp add: master_init_def wp_rules register_answer_def Let_def)
  with True show ?thesis by (auto simp: wp_never_runs)
next
  case False
  have "wp master_init (\<lambda>r w'. (r = 0 \<or> r = -1) \<and> fs w' = KERNEL_DS \<and> old_fs w' = fs w \<and>
        (\<forall>x. (Misc_deregister, x) \<notin> set (drop (length (calls w)) (calls w'))) \<and>
        (r = 0 \<longrightarrow> serving w' \<and> sockfd_cli w' = None)) never w"
    using False
    by (simp add: master_init_def wp_rules wp_ksocket wp_kbind wp_klisten_10 register_answer_def Let_def
        split: option.split)
      (auto simp: not_less server_addr_def AF_INET_def DEFAULT_PORT_def sizeof_sockaddr_in_def
        intro!: serving_intro)
  with False show ?thesis by (auto simp: wp_never_runs)
qed

theorem master_init_outcome_sample:
  "\<exists>r w'. master_init sample_master = Some (Ret r, w') \<and> r \<in> {0, -1} \<and> fs w' = KERNEL_DS"
  using master_init_outcome [of sample_master]
  by (auto simp: sample_master_def register_answer_def Let_def)

section \<open>The receiving device\<close>

lemma calls_slave [simp]:
  "calls (s_old_fs_update f m) = calls m" "calls (s_sockfd_cli_update g m) = calls m"
  "calls (s_addr_srv_update h m) = calls m"
  by (simp_all add: calls_def)

lemma same_statics:
  fixes w w' :: "'m slave_scheme"
  assumes "machine.more w = machine.more w'"
  shows "s_old_fs w = s_old_fs w'" "s_sockfd_cli w = s_sockfd_cli w'" "s_addr_srv w = s_addr_srv w'"
  using assms by (cases w; cases w'; simp)+

lemma store_page_limit: "keeps fs (store_page p bs)"
  by (auto simp: keeps_def store_page_def return_def undef_def halt_def split: option.splits if_splits)

lemma slave_requests_limit:
  "keeps fs (slave_createsock text)" "keeps fs (printk s)"
  unfolding slave_createsock_def
  by (intro keeps_structure limit.keeps_calls limit.keeps_ksocket keeps_update | simp add: Let_def)+

lemma bind_gets: "bind (gets g) f w = f (g w) w"
  by (simp add: bind_def gets_def)

lemma bind_RetD: "bind m f w = Some (Ret r, w') \<Longrightarrow> \<exists>a w1. m w = Some (Ret a, w1) \<and> f a w1 = Some (Ret r, w')"
  by (auto simp: bind_def split: option.splits res.splits)

text \<open>Every request sets the address limit; only one that ends the connection sets it back, and
  only to the value that this request itself found.\<close>

lemma slave_ioctl_limit:
  assumes "slave_ioctl f num x text w = Some (Ret r, w')"
  shows "fs w' = (if num = slave_IOCTL_EXIT \<and> r \<noteq> -1 then fs w else KERNEL_DS)"
proof -
  let ?w = "w\<lparr>s_old_fs := fs w, fs := KERNEL_DS\<rparr>"
  have start: "slave_ioctl f num x text w =
      (if num = slave_IOCTL_CREATESOCK then slave_createsock text
      else if num = slave_IOCTL_MMAP then
        bind (gets s_sockfd_cli) (\<lambda>cli. bind (gets (\<lambda>w. private_data w f)) (\<lambda>p.
        bind (info_at p) (\<lambda>(a, info). bind (krecv cli PAGE_SIZE 0) (\<lambda>(ret, bs).
        andThen (store_page (data info) bs) (return ret)))))
      else if num = slave_IOCTL_EXIT then
        bind (gets s_sockfd_cli) (\<lambda>cli. bind (kclose cli) (\<lambda>r.
        if r = -1 then andThen (printk (line ''kclose cli error'')) (return (-1))
        else bind (gets s_old_fs) (\<lambda>s. andThen (set_fs s) (return 0))))
      else bind (gets (\<lambda>w. pte_of (env_of w) x)) (\<lambda>pte.
        andThen (printk (line (''slave: '' @ show_hex (unat pte)))) (return 0))) ?w"
    by (simp add: slave_ioctl_def bind_def andThen_def get_fs_def update_def set_fs_def)
  consider "num = slave_IOCTL_CREATESOCK" | "num = slave_IOCTL_MMAP" | "num = slave_IOCTL_EXIT"
    | "num \<noteq> slave_IOCTL_CREATESOCK" "num \<noteq> slave_IOCTL_MMAP" "num \<noteq> slave_IOCTL_EXIT" by blast
  then show ?thesis
  proof cases
    case 3
    have "(bind (kclose (s_sockfd_cli w)) (\<lambda>r.
        if r = -1 then andThen (printk (line ''kclose cli error'')) (return (-1))
        else bind (gets s_old_fs) (\<lambda>s. andThen (set_fs s) (return 0)))) ?w = Some (Ret r, w')"
      using assms 3 unfolding start by (simp add: bind_gets)
    then obtain c w1 where c: "kclose (s_sockfd_cli w) ?w = Some (Ret c, w1)"
      and rest: "(if c = -1 then andThen (printk (line ''kclose cli error'')) (return (-1))
        else bind (gets s_old_fs) (\<lambda>s. andThen (set_fs s) (return 0))) w1 = Some (Ret r, w')"
      by (blast dest: bind_RetD)
    have "fs w1 = KERNEL_DS" "s_old_fs w1 = fs w"
      using keepsD [OF limit.keeps_ksocket(1) c] same_statics(1) [OF keepsD [OF statics.keeps_ksocket(1) c]]
      by simp_all
    with rest 3 show ?thesis
      by (auto simp: bind_def andThen_def gets_def printk_def set_fs_def return_def split: if_splits)
  next
    case 1
    with assms start have "slave_createsock text ?w = Some (Ret r, w')" by simp
    from keepsD [OF slave_requests_limit(1) this] 1 show ?thesis by (simp add: ioctl_numbers [symmetric])
  next
    case 2
    have "keeps fs (bind (gets s_sockfd_cli) (\<lambda>cli. bind (gets (\<lambda>w. private_data w f)) (\<lambda>p.
        bind (info_at p) (\<lambda>(a, info). bind (krecv cli PAGE_SIZE 0) (\<lambda>(ret, bs).
        andThen (store_page (data info) bs) (return ret))))))"
      by (intro keeps_structure limit_transfer store_page_limit)
    from keepsD [OF this, of ?w r w'] assms start 2 show ?thesis by (simp add: ioctl_numbers [symmetric])
  next
    case 4
    with assms start show ?thesis
      by (auto simp: bind_def andThen_def gets_def printk_def return_def)
  qed
qed

primrec slave_session :: "nat \<Rightarrow> (32 word \<times> 64 word \<times> string) list \<Rightarrow> ('m slave_scheme, unit) prog" where
  "slave_session f [] = return ()"
| "slave_session f (q # qs) = bind (case q of (num, x, text) \<Rightarrow> slave_ioctl f num x text) (\<lambda>_. slave_session f qs)"

lemma slave_session_limit: "fs w = KERNEL_DS \<Longrightarrow> slave_session f qs w = Some (Ret (), w') \<Longrightarrow> fs w' = KERNEL_DS"
proof (induction qs arbitrary: w)
  case (Cons q qs)
  obtain num x t where q: "q = (num, x, t)" by (cases q)
  with Cons.prems(2) obtain r w1 where 1: "slave_ioctl f num x t w = Some (Ret r, w1)"
    and 2: "slave_session f qs w1 = Some (Ret (), w')"
    by (auto dest: bind_RetD)
  from slave_ioctl_limit [OF 1] Cons.prems(1) have "fs w1 = KERNEL_DS" by simp
  from this 2 show ?case by (rule Cons.IH)
qed (simp add: return_def)

text \<open>A process that makes a request to the receiving device is left with the address limit \<open>KERNEL_DS\<close>, also when
  its last request ends the connection: that request saves the limit it finds and restores
  just this one. Only a session whose first request is the one that ends a connection is free of it.\<close>
theorem slave_session_privileged:
  assumes "slave_session f ((num, x, text) # qs) w = Some (Ret (), w')" "num \<noteq> slave_IOCTL_EXIT"
  shows "fs w' = KERNEL_DS"
proof -
  from assms(1) obtain r w1 where 1: "slave_ioctl f num x text w = Some (Ret r, w1)"
    and 2: "slave_session f qs w1 = Some (Ret (), w')"
    by (auto dest: bind_RetD)
  from slave_ioctl_limit [OF 1] assms(2) have "fs w1 = KERNEL_DS" by simp
  from this 2 show ?thesis by (rule slave_session_limit)
qed

theorem slave_session_privileged_sample:
  "\<exists>w'. slave_session 3 [(slave_IOCTL_MMAP, 0, []), (slave_IOCTL_EXIT, 0, [])] sample_slave = Some (Ret (), w') \<and>
    fs w' = KERNEL_DS"
proof -
  have "wp (slave_session 3 [(slave_IOCTL_MMAP, 0, []), (slave_IOCTL_EXIT, 0, [])]) (\<lambda>_ _. True) never sample_slave"
    by (simp add: wp_rules slave_ioctl_def sample_slave_def sample_infos_def wp_krecv sample_env_def socket_run Let_def)
  then obtain w' where "slave_session 3 [(slave_IOCTL_MMAP, 0, []), (slave_IOCTL_EXIT, 0, [])] sample_slave = Some (Ret (), w')"
    by (auto simp: wp_never_runs)
  with slave_session_privileged [OF this ioctl_numbers(6) [symmetric]] show ?thesis by blast
qed

lemma wp_copy_to_user: "wp (copy_to_user n) Q E w =
    (if fs w = USER_DS \<and> 2 ^ 63 \<le> uint n then Q 1 w
     else if PAGE_SIZE < unat n then E (Undefined Out_Of_Bounds) w
     else let r = answer (env_of w) (klog w) (Copy_to_user (unat n)) in
       Q r (log_call (Copy_to_user (unat n)) r [] w))"
  by (auto simp: copy_to_user_def wp_rules Let_def)

text \<open>A read on a connected device.\<close>

definition next_message :: "nat \<Rightarrow> 'm machine_scheme \<Rightarrow> int + bytes" where
  "next_message a w = incoming (env_of w) (klog w) (Sock_recvmsg a PAGE_SIZE 0)"

definition after_message :: "nat \<Rightarrow> 'm machine_scheme \<Rightarrow> 'm machine_scheme" where
  "after_message a w = w\<lparr>klog := klog w @ [\<lparr>at_fs = KERNEL_DS, the_call = Sock_recvmsg a PAGE_SIZE 0,
     result = recv_ret (next_message a w), received = recv_bytes (next_message a w)\<rparr>]\<rparr>"

lemma unat_message: "length bs \<le> PAGE_SIZE \<Longrightarrow> unat (word_of_int (int (length bs)) :: 64 word) = length bs"
  by (simp add: PAGE_SIZE_def unat_of_nat take_bit_nat_eq_self_iff)

lemma sint_message: "length bs \<le> PAGE_SIZE \<Longrightarrow>
    sint (ucast (word_of_int (int (length bs)) :: 64 word) :: 32 word) = int (length bs)"
proof -
  assume "length bs \<le> PAGE_SIZE"
  then have v: "0 \<le> int (length bs)" "int (length bs) < 2 ^ 31" by (simp_all add: PAGE_SIZE_def)
  then have "(ucast (word_of_int (int (length bs)) :: 64 word) :: 32 word) = word_of_int (int (length bs))"
    by (simp add: unsigned_of_nat take_bit_nat_eq_self)
  with v show ?thesis by (simp add: signed_of_nat signed_take_bit_int_eq_self)
qed

lemma after_message_simps [simp]:
  "fs (after_message a w) = fs w" "env_of (after_message a w) = env_of w"
  "socks (after_message a w) = socks w" "memory (after_message a w) = memory w"
  "machine.more (after_message a w) = machine.more w"
  "calls (after_message a w) = calls w @ [(Sock_recvmsg a PAGE_SIZE 0, recv_ret (next_message a w))]"
  by (simp_all add: after_message_def memory_def calls_def)

lemma wp_krecv_message: "socks w a = Some k \<Longrightarrow>
    wp (krecv (Some a) PAGE_SIZE 0) Q E w =
    Q (recv_ret (next_message a w), recv_bytes (next_message a w)) (after_message a w)"
  by (simp add: wp_krecv Let_def next_message_def after_message_def)

lemma wp_receive_msg:
  assumes "s_sockfd_cli w = Some a" "socks w a = Some k" "next_message a w = Inr bs" "length bs \<le> PAGE_SIZE"
  shows "wp (receive_msg n) Q E w =
    (let w1 = after_message a w; left = answer (env_of w1) (klog w1) (Copy_to_user (length bs));
       w2 = log_call (Copy_to_user (length bs)) left [] w1 in
     if left \<noteq> 0 then Q (- ENOMEM, []) w2 else Q (int (length bs), bs) w2)"
proof -
  have "\<not> 2 ^ 63 \<le> uint (word_of_int (int (length bs)) :: 64 word)"
    using assms(4) unat_message [OF assms(4)] by (simp add: PAGE_SIZE_def uint_nat)
  then show ?thesis
    using assms sint_message [OF assms(4)] unat_message [OF assms(4)]
    by (simp add: receive_msg_def wp_rules wp_krecv_message wp_copy_to_user Let_def)
qed

lemma negative_size:
  assumes "e < 0" "INT_MIN \<le> e"
  shows "2 ^ 63 \<le> uint (word_of_int e :: 64 word)"
proof -
  have "uint (word_of_int e :: 64 word) = (e + 2 ^ 64) mod 2 ^ 64" by (simp add: uint_word_of_int)
  also have "\<dots> = e + 2 ^ 64" using assms by (intro mod_pos_pos_trivial) auto
  finally show ?thesis using assms by simp
qed

text \<open>C30: A read from the receiving device takes one message of at most 4096 bytes from the connection. A message
  that arrives is handed to the user whole, whatever the size of the user's buffer; only if the copy to the
  user's memory leaves something uncopied the result is \<open>-ENOMEM\<close>. A negative result of the socket layer becomes a huge size: under the
  limit \<open>USER_DS\<close> the copy is refused and the caller gets \<open>-ENOMEM\<close>; under \<open>KERNEL_DS\<close>, which the
  device's own requests leave in force, it reads the kernel's memory behind the buffer.\<close>
theorem receive_msg_outcome:
  assumes "s_sockfd_cli w = Some a" "socks w a = Some k"
    and "case next_message a w of Inr bs \<Rightarrow> length bs \<le> 4096 | Inl e \<Rightarrow> INT_MIN \<le> e \<and> e < 0"
  shows "case next_message a w of
      Inr bs \<Rightarrow> \<exists>r got w'. receive_msg n w = Some (Ret (r, got), w') \<and>
        (\<exists>left. calls w' = calls w @ [(Sock_recvmsg a 4096 0, int (length bs)), (Copy_to_user (length bs), left)] \<and>
          (if left = 0 then r = int (length bs) \<and> got = bs else r = - 12 \<and> got = [])) \<and> fs w' = fs w
    | Inl e \<Rightarrow> if fs w = USER_DS then \<exists>w'. receive_msg n w = Some (Ret (- 12, []), w')
        else \<exists>w'. receive_msg n w = Some (Halt (Undefined Out_Of_Bounds), w')"
proof (cases "next_message a w")
  case (Inr bs)
  with assms(3) have "length bs \<le> PAGE_SIZE" by (simp add: PAGE_SIZE_def)
  from wp_receive_msg [OF assms(1,2) Inr this]
  have "wp (receive_msg n) (\<lambda>(r, got) w'.
      (\<exists>left. calls w' = calls w @ [(Sock_recvmsg a 4096 0, int (length bs)), (Copy_to_user (length bs), left)] \<and>
        (if left = 0 then r = int (length bs) \<and> got = bs else r = - 12 \<and> got = [])) \<and> fs w' = fs w) never w"
    using Inr by (simp add: Let_def ENOMEM_def PAGE_SIZE_def)
  with Inr show ?thesis by (auto simp: wp_never_runs)
next
  case (Inl e)
  with assms(3) have big: "2 ^ 63 \<le> uint (word_of_int e :: 64 word)" by (intro negative_size) auto
  then have "int 4096 < uint (word_of_int e :: 64 word)" by simp
  then have "PAGE_SIZE < nat (uint (word_of_int e :: 64 word))"
    unfolding PAGE_SIZE_def by (simp only: zless_nat_eq_int_zless)
  then have "PAGE_SIZE < unat (word_of_int e :: 64 word)" by (simp only: unat_eq_nat_uint)
  then have run: "wp (receive_msg n) Q E w = (if fs w = USER_DS then Q (- ENOMEM, []) (after_message a w)
      else E (Undefined Out_Of_Bounds) (after_message a w))" for Q E
    using assms(1,2) Inl big
    by (simp add: receive_msg_def wp_rules wp_krecv_message wp_copy_to_user Let_def)
  show ?thesis
  proof (cases "fs w = USER_DS")
    case True
    have "wp (receive_msg n) (\<lambda>v _. v = (- 12, [])) never w" using True by (simp add: run ENOMEM_def)
    with True Inl show ?thesis by (auto simp: wp_never_runs)
  next
    case False
    have "wp (receive_msg n) (\<lambda>_ _. False) (\<lambda>s _. s = Undefined Out_Of_Bounds) w" using False by (simp add: run)
    with False Inl show ?thesis by (simp add: wp_stops)
  qed
qed

theorem receive_msg_outcome_sample:
  "\<exists>w'. receive_msg 4096 sample_slave = Some (Ret (5, ''hello''), w') \<and> fs w' = USER_DS"
proof -
  have run: "wp (receive_msg 4096) (\<lambda>_ w'. calls w' = [(Sock_recvmsg 5 4096 0, 5), (Copy_to_user 5, 0)]) never sample_slave"
    by (subst wp_receive_msg [where a = 5 and k = sample_sock and bs = "''hello''"])
      (simp_all add: sample_slave_def next_message_def sample_env_def Let_def PAGE_SIZE_def calls_def after_message_def)
  have "case next_message 5 sample_slave of Inr bs \<Rightarrow> length bs \<le> 4096 | Inl e \<Rightarrow> INT_MIN \<le> e \<and> e < 0"
    by (simp add: sample_slave_def next_message_def sample_env_def)
  from receive_msg_outcome [of sample_slave 5 sample_sock 4096, OF _ _ this] run show ?thesis
    by (auto simp: sample_slave_def next_message_def sample_env_def wp_never_runs calls_def split: if_splits)
qed

lemma htons_2325: "uint (htons 2325) = 5385"
  by (simp add: htons_def push_bit_eq_mult drop_bit_eq_div)

text \<open>The call that asks for a connection, and a request for a socket that the kernel refuses.\<close>

definition connect_call :: "ksock \<Rightarrow> nat \<Rightarrow> 32 word \<Rightarrow> call" where
  "connect_call k a ip = Op (sk_ops k) a (Connect \<lparr>sin_family = 2, sin_port = htons 2325, s_addr = ip\<rparr> 16 0)"

definition socket_refused :: "entry list \<Rightarrow> env \<Rightarrow> bool" where
  "socket_refused h env = (answer env h (Sock_create 2 1 0) < 0 \<or> new_socket env h = None)"

text \<open>The log once the address has been copied and the process named.\<close>

definition address_copied :: "'m machine_scheme \<Rightarrow> entry list" where
  "address_copied w = (let h = klog w @ [\<lparr>at_fs = KERNEL_DS, the_call = Copy_from_user 20, result = 0, received = []\<rparr>] in
     h @ [\<lparr>at_fs = KERNEL_DS, the_call = Set_comm ''ksktcli'',
       result = answer (env_of w) h (Set_comm ''ksktcli''), received = []\<rparr>])"

text \<open>C32: The request to connect, given the dotted form of an address, on every branch. If the address cannot be
  copied from the user the result is \<open>-ENOMEM\<close> and nothing else has happened. Otherwise, if the kernel
  refuses a socket, the result is -1 with \<open>NULL\<close> stored and no socket made; else there is one new socket,
  stored in \<open>sockfd_cli\<close>, on which a connection to just this address at port 2325 was asked for: the result
  is 0 if the connection was made and -1 if not (the socket then stays).\<close>
theorem slave_createsock_outcome:
  "\<exists>r w' new. slave_ioctl f slave_IOCTL_CREATESOCK x (dotted ip) w = Some (Ret r, w') \<and> calls w' = calls w @ new \<and>
    (let left = answer (env_of w) (klog w) (Copy_from_user 20) in
     if left \<noteq> 0 then r = - 12 \<and> new = [(Copy_from_user 20, left)] \<and> socks w' = socks w
     else if socket_refused (address_copied w) (env_of w) then r = -1 \<and> s_sockfd_cli w' = None \<and> socks w' = socks w
     else \<exists>a k c. new_socket (env_of w) (address_copied w) = Some (a, k) \<and> s_sockfd_cli w' = Some a \<and>
       socks w' = (socks w)(a \<mapsto> k) \<and> (connect_call k a ip, c) \<in> set new \<and> r = (if c < 0 then -1 else 0))"
proof -
  let ?post = "\<lambda>r w'. \<exists>new. calls w' = calls w @ new \<and>
    (let left = answer (env_of w) (klog w) (Copy_from_user 20) in
     if left \<noteq> 0 then r = - 12 \<and> new = [(Copy_from_user 20, left)] \<and> socks w' = socks w
     else if socket_refused (address_copied w) (env_of w) then r = -1 \<and> s_sockfd_cli w' = None \<and> socks w' = socks w
     else \<exists>a k c. new_socket (env_of w) (address_copied w) = Some (a, k) \<and> s_sockfd_cli w' = Some a \<and>
       socks w' = (socks w)(a \<mapsto> k) \<and> (connect_call k a ip, c) \<in> set new \<and> r = (if c < 0 then -1 else 0))"
  have "wp (slave_ioctl f slave_IOCTL_CREATESOCK x (dotted ip)) ?post never w"
    using length_dotted [of ip]
    by (auto simp: slave_ioctl_def slave_createsock_def wp_rules inet_addr_def sscanf_dotted octets_word wp_ksocket
        wp_kconnect wp_inet_ntoa Let_def ENOMEM_def AF_INET_def SOCK_STREAM_def sizeof_sockaddr_in_def connect_call_def
        socket_refused_def address_copied_def split: option.split)
  then show ?thesis by (auto simp: wp_never_runs)
qed

theorem slave_createsock_outcome_sample:
  "\<exists>w' c. slave_ioctl 3 slave_IOCTL_CREATESOCK 0 (dotted 0x0100007F) sample_slave = Some (Ret 0, w') \<and>
    s_sockfd_cli w' = Some 10 \<and> socks w' 10 = Some sample_sock \<and>
    (connect_call sample_sock 10 0x0100007F, c) \<in> set (calls w') \<and> \<not> c < 0"
proof -
  have "wp (slave_ioctl 3 slave_IOCTL_CREATESOCK 0 (dotted 0x0100007F)) (\<lambda>r _. r = 0) never sample_slave"
    using length_dotted [of "0x0100007F"]
    by (simp add: slave_ioctl_def slave_createsock_def wp_rules inet_addr_def sscanf_dotted octets_word wp_ksocket
        wp_kconnect wp_inet_ntoa Let_def sample_slave_def)
  then obtain w' where run: "slave_ioctl 3 slave_IOCTL_CREATESOCK 0 (dotted 0x0100007F) sample_slave = Some (Ret 0, w')"
    by (auto simp: wp_never_runs)
  have made: "\<not> socket_refused (address_copied sample_slave) (env_of sample_slave)"
    "new_socket (env_of sample_slave) (address_copied sample_slave) = Some (10, sample_sock)"
    "answer (env_of sample_slave) (klog sample_slave) (Copy_from_user 20) = 0"
    by (simp_all add: sample_slave_def socket_refused_def address_copied_def)
  from slave_createsock_outcome [of 3 0 "0x0100007F" sample_slave] run made show ?thesis
    by (fastforce simp: Let_def split: if_splits)
qed

end
