(* ===== verification/User_Calls.thy ===== *)
theory User_Calls
  imports Device_Requests
begin

text \<open>
  The system calls through which \<open>master.c\<close>, \<open>slave.c\<close> and \<open>test_md.c\<close> reach a regular file and the
  devices. Which call succeeds and how much a \<open>read\<close> or \<open>write\<close> of the file transfers is decided by
  the environment. An error of a driver arrives in the program as \<open>-1\<close>. A size of \<open>2^63\<close> or more is
  refused by \<open>read\<close> and \<open>write\<close> before a driver is called. \<open>return\<close> from \<open>main\<close> is \<open>exit\<close>.
\<close>

section \<open>Loops and exits of the programs\<close>

definition doM :: "('s \<Rightarrow> bool) \<Rightarrow> ('s \<Rightarrow> ('w, 's) prog) \<Rightarrow> 's \<Rightarrow> ('w, 's) prog" where
  "doM b c s = bind (c s) (whileM b c)"

definition exit_main :: "int \<Rightarrow> ('w, 'a) prog" where
  "exit_main v = halt (Exited v)"

definition perror :: "string \<Rightarrow> ('m machine_scheme, unit) prog" where
  "perror s = bind (do_call (Perror s)) (\<lambda>_. return ())"

definition first_char :: "string \<Rightarrow> char" where
  "first_char s = (case s of [] \<Rightarrow> CHR 0x00 | c # _ \<Rightarrow> c)"

lemma first_char_hd: "meth \<noteq> [] \<Longrightarrow> first_char meth = hd meth"
  by (cases meth) (simp_all add: first_char_def)

text \<open>\<open>strcpy\<close> into an array of \<open>cap\<close> bytes; an argument that is not there is the \<open>NULL\<close> after the last.\<close>

definition copy_arg :: "nat \<Rightarrow> string list \<Rightarrow> nat \<Rightarrow> ('w, string) prog" where
  "copy_arg cap argv i = (if i < length argv then sprintf cap (argv ! i) else undef Null_Dereference)"

text \<open>What the C library makes of the result of a system call.\<close>

definition sys_result :: "int \<Rightarrow> int" where
  "sys_result r = (if - 4096 < r \<and> r < 0 then -1 else r)"

section \<open>The regular file\<close>

definition size_limit :: int where "size_limit = 2 ^ 63"

definition open_regular :: "string \<Rightarrow> bool \<Rightarrow> ('m machine_scheme, int) prog" where
  "open_regular name trunc =
     bind (do_call (Open_file name)) (\<lambda>r.
     if r < 0 then return (-1)
     else andThen (update (\<lambda>w. w\<lparr>file_pos := 0, file_data := (if trunc then [] else file_data w)\<rparr>)) (return r))"

text \<open>A read of at most \<open>n\<close> bytes: the result as the \<open>size_t\<close> it is stored in, and the bytes.\<close>

definition read_file :: "nat \<Rightarrow> ('m machine_scheme, 64 word \<times> bytes) prog" where
  "read_file n =
     bind (do_call (Read_file n)) (\<lambda>r.
     if r < 0 then return (- 1, [])
     else
       bind (gets (\<lambda>w. take (min n (nat r)) (drop (file_pos w) (file_data w)))) (\<lambda>bs.
       andThen (update (\<lambda>w. w\<lparr>file_pos := file_pos w + length bs\<rparr>))
       (return (of_nat (length bs), bs))))"

text \<open>Bytes stored at a position; a gap behind the end of the file reads as zeros.\<close>

definition overwrite :: "nat \<Rightarrow> bytes \<Rightarrow> bytes \<Rightarrow> bytes" where
  "overwrite p bs old = (if bs = [] then old else
     take p (old @ replicate (p - length old) (CHR 0x00)) @ bs @ drop (p + length bs) old)"

definition write_file :: "bytes \<Rightarrow> 64 word \<Rightarrow> ('m machine_scheme, int) prog" where
  "write_file buf n =
     (if size_limit \<le> uint n then return (-1)
      else
        let bs = take (unat n) buf in
        bind (do_call (Write_file bs)) (\<lambda>r.
        if r < 0 then return (-1)
        else
          andThen (update (\<lambda>w. let new = take (nat r) bs in
            w\<lparr>file_data := overwrite (file_pos w) new (file_data w), file_pos := file_pos w + length new\<rparr>))
          (return r)))"

definition seek_end :: "int \<Rightarrow> ('m machine_scheme, unit) prog" where
  "seek_end off = update (\<lambda>w. let p = int (length (file_data w)) + off in
     if 0 \<le> p then w\<lparr>file_pos := nat p\<rparr> else w)"

text \<open>A mapping of the file needs a positive size and an offset at a page boundary.\<close>

definition map_file :: "nat \<Rightarrow> int \<Rightarrow> ('m machine_scheme, bool) prog" where
  "map_file n off =
     bind (do_call (Mmap_file n (nat off))) (\<lambda>r.
     return (0 \<le> r \<and> 0 < n \<and> 0 \<le> off \<and> off mod int PAGE_SIZE = 0))"

text \<open>
  Reading and writing \<open>n\<close> bytes of a mapping of one page at most: the rest of the last page of a file
  reads as zeros and is not kept; a page that is all behind the end is a fault.
\<close>

definition mapped_read :: "nat \<Rightarrow> nat \<Rightarrow> ('m machine_scheme, bytes) prog" where
  "mapped_read n off = bind (gets file_data) (\<lambda>d.
     if length d \<le> off then undef Out_Of_Bounds
     else return (take n (drop off d @ replicate n (CHR 0x00))))"

definition mapped_write :: "bytes \<Rightarrow> nat \<Rightarrow> ('m machine_scheme, unit) prog" where
  "mapped_write bs off = bind (gets file_data) (\<lambda>d.
     if length d \<le> off then undef Out_Of_Bounds
     else update (\<lambda>w. w\<lparr>file_data := take (length d) (overwrite off bs d)\<rparr>))"

section \<open>A device file\<close>

text \<open>The system calls on an open device file, through the driver's table of handlers.\<close>

definition open_device :: "'m machine_scheme file_operations \<Rightarrow> string \<Rightarrow> ('m machine_scheme, int) prog" where
  "open_device fops path =
     bind (do_call (Open_device path)) (\<lambda>r.
     if r < 0 then return (-1)
     else bind (op_open fops (nat r)) (\<lambda>e. return (if e < 0 then -1 else r)))"

definition ioctl_device :: "'m machine_scheme file_operations \<Rightarrow> int \<Rightarrow> 32 word \<Rightarrow> 64 word \<Rightarrow> string \<Rightarrow>
    ('m machine_scheme, int) prog" where
  "ioctl_device fops dev_fd num param user_text =
     bind (op_ioctl fops (nat dev_fd) num param user_text) (\<lambda>r. return (sys_result r))"

definition write_device :: "'m machine_scheme file_operations \<Rightarrow> bytes \<Rightarrow> 64 word \<Rightarrow> ('m machine_scheme, int) prog" where
  "write_device fops buf n =
     (if size_limit \<le> uint n then return (-1)
      else case op_write fops of
        None \<Rightarrow> return (-1)
      | Some handler \<Rightarrow> bind (handler buf (unat n)) (\<lambda>r. return (sys_result r)))"

text \<open>The driver stores all its bytes at the user's buffer of \<open>n\<close> bytes.\<close>

definition read_device :: "'m machine_scheme file_operations \<Rightarrow> nat \<Rightarrow> ('m machine_scheme, 64 word \<times> bytes) prog" where
  "read_device fops n = (case op_read fops of
       None \<Rightarrow> return (- 1, [])
     | Some handler \<Rightarrow> bind (handler n) (\<lambda>(r, bs).
         if n < length bs then undef Buffer_Overrun
         else return (word_of_int (sys_result r), bs)))"

text \<open>\<open>mmap\<close> of one page: the kernel makes an area and calls the driver.\<close>

definition map_device :: "'m machine_scheme file_operations \<Rightarrow> nat \<Rightarrow> ('m machine_scheme, nat option) prog" where
  "map_device fops filp =
     bind (do_call Mmap_device) (\<lambda>r.
     if r < 0 then return None
     else
       bind (gets unused_address) (\<lambda>v.
       andThen (update (\<lambda>w. new_area v 0 (w\<lparr>unused_address := v + 1\<rparr>)))
       (bind (op_mmap fops filp v) (\<lambda>r. return (if r < 0 then None else Some v)))))"

text \<open>An access goes to the page that the driver's fault handler gives.\<close>

definition device_page :: "'m machine_scheme vm_operations \<Rightarrow> nat \<Rightarrow> ('m machine_scheme, nat) prog" where
  "device_page vops v = bind (vop_fault vops v) (\<lambda>(r, pg).
     case pg of None \<Rightarrow> undef Null_Dereference | Some g \<Rightarrow> return g)"

text \<open>\<open>close\<close>: the file is released unless a mapping still holds it.\<close>

definition close_device :: "'m machine_scheme file_operations \<Rightarrow> int \<Rightarrow> bool \<Rightarrow> ('m machine_scheme, unit) prog" where
  "close_device fops dev_fd mapped =
     bind (do_call Close_device) (\<lambda>_.
     if mapped then return () else bind (op_release fops (nat dev_fd)) (\<lambda>_. return ()))"

section \<open>Symbolic execution\<close>

lemma wp_exit_main [wp_rules]: "wp (exit_main v) Q E w = E (Exited v) w"
  by (simp add: exit_main_def wp_rules)

lemma wp_perror [wp_rules]: "wp (perror s) Q E w =
    Q () (log_call (Perror s) (answer (env_of w) (klog w) (Perror s)) [] w)"
  by (simp add: perror_def wp_rules)

lemma wp_doM [wp_rules]: "wp (doM b c s) Q E w = wp (c s) (\<lambda>s'. wp (whileM b c s') Q E) E w"
  by (simp add: doM_def wp_rules)

end
