(* ===== verification/Master_Program.thy ===== *)
theory Master_Program
  imports User_Calls
begin

text \<open>
  \<open>prj2/src/sample/user_program/master.c\<close> and \<open>test_md.c\<close>, on the system calls of the sending device.
  The clock that the programs read is left out, and so is the time in what they print.
\<close>

section \<open>The device's system calls\<close>

definition open_master :: "('m master_scheme, int) prog" where
  "open_master = open_device master_fops ''/dev/master_device''"

definition write_master :: "bytes \<Rightarrow> 64 word \<Rightarrow> ('m master_scheme, int) prog" where
  "write_master = write_device master_fops"

definition ioctl_master :: "int \<Rightarrow> 32 word \<Rightarrow> 64 word \<Rightarrow> ('m master_scheme, int) prog" where
  "ioctl_master dev_fd num param = ioctl_device master_fops dev_fd num param []"

definition close_master :: "int \<Rightarrow> bool \<Rightarrow> ('m master_scheme, unit) prog" where
  "close_master = close_device master_fops"

lemmas master_calls = open_master_def open_device_def write_master_def write_device_def ioctl_master_def
  ioctl_device_def close_master_def close_device_def master_fops_def

section \<open>master.c\<close>

definition get_filesize :: "string \<Rightarrow> ('m machine_scheme, 64 word) prog" where
  "get_filesize filename =
     bind (do_call (Stat filename)) (\<lambda>r.
     if r < 0 then undef Uninitialised else gets (\<lambda>w. of_nat (length (file_data w))))"

definition master_fcntl_step :: "64 word \<Rightarrow> ('m master_scheme, 64 word) prog" where
  "master_fcntl_step ret =
     bind (read_file PAGE_SIZE) (\<lambda>(ret, buf).
     bind (write_master buf ret) (\<lambda>_.
     return ret))"

definition master_fcntl :: "('m master_scheme, 64 word) prog" where
  "master_fcntl = doM (\<lambda>ret. 0 < ret) master_fcntl_step 0"

definition master_mmap_step :: "int \<Rightarrow> nat \<Rightarrow> 64 word \<times> 64 word \<Rightarrow> ('m master_scheme, 64 word \<times> 64 word) prog" where
  "master_mmap_step dev_fd kernel_address = (\<lambda>(offset, remain).
     let size = (if remain < of_nat PAGE_SIZE then remain else of_nat PAGE_SIZE) in
     bind (map_file (unat size) (sint offset)) (\<lambda>mapped.
     let off = unat offset; offset = offset + size; remain = remain - size in
     if \<not> mapped then andThen (perror ''mmap operation failed'') (exit_main (-1))
     else
       bind (mapped_read (unat size) off) (\<lambda>bs.
       bind (device_page simple_remap_vm_ops kernel_address) (\<lambda>g.
       andThen (store_page (Some g) bs)
       (bind (ioctl_master dev_fd 0x12345678 size) (\<lambda>r.
        if r = -1 then andThen (perror (line ''mmap send message error'')) (exit_main 1)
        else
          bind (do_call (Munmap_file (unat size))) (\<lambda>_.
          return (offset, remain))))))))"

definition master_mmap :: "int \<Rightarrow> 64 word \<Rightarrow> ('m master_scheme, unit) prog" where
  "master_mmap dev_fd remain =
     bind (map_device master_fops (nat dev_fd)) (\<lambda>kernel_address.
     case kernel_address of
       None \<Rightarrow> andThen (perror ''mmap operation failed'') (exit_main (-1))
     | Some v \<Rightarrow>
         bind (doM (\<lambda>(offset, remain). 0 < remain) (master_mmap_step dev_fd v) (0, remain)) (\<lambda>_.
         return ()))"

text \<open>\<open>file_size < 0\<close> is never true of a \<open>size_t\<close>, so that branch of the source is dead.\<close>

definition master_main :: "string list \<Rightarrow> ('m master_scheme, unit) prog" where
  "master_main argv =
     bind (copy_arg 50 argv 1) (\<lambda>file_name.
     bind (copy_arg 20 argv 2) (\<lambda>method.
     bind open_master (\<lambda>dev_fd.
     if dev_fd < 0 then andThen (perror (line ''failed to open /dev/master_device'')) (exit_main 1)
     else
       bind (open_regular file_name False) (\<lambda>file_fd.
       if file_fd < 0 then andThen (perror (line ''failed to open input file'')) (exit_main 1)
       else
         bind (get_filesize file_name) (\<lambda>file_size.
         bind (ioctl_master dev_fd 0x12345677 0) (\<lambda>r.
         if r = -1 then andThen (perror (line ''ioclt server create socket error'')) (exit_main 1)
         else
           andThen (if first_char method = CHR ''f'' then bind master_fcntl (\<lambda>_. return ())
             else if first_char method = CHR ''m'' then master_mmap dev_fd file_size
             else return ())
           (bind (ioctl_master dev_fd 0x12345679 0) (\<lambda>r.
            if r = -1 then andThen (perror (line ''ioclt server exits error'')) (exit_main 1)
            else
              bind (do_call (Report file_size)) (\<lambda>_.
              bind (do_call Close_file) (\<lambda>_.
              andThen (close_master dev_fd (first_char method = CHR ''m''))
              (exit_main 0)))))))))))"

section \<open>test_md.c\<close>

definition test_md_main :: "('m master_scheme, unit) prog" where
  "test_md_main =
     bind open_master (\<lambda>dev_fd.
     if dev_fd < 0 then andThen (perror (line ''failed to open /dev/master_device'')) (exit_main 1)
     else
       bind (map_device master_fops (nat dev_fd)) (\<lambda>address.
       andThen (bind (do_call (Report (case address of None \<Rightarrow> - 1 | Some v \<Rightarrow> of_nat v))) (\<lambda>_. return ()))
       (case address of
          None \<Rightarrow> andThen (perror ''mmap operation failed'') (exit_main (-1))
        | Some v \<Rightarrow>
            bind (device_page simple_remap_vm_ops v) (\<lambda>g.
            andThen (store_page (Some g) (line ''mm success!!!'' @ [CHR 0x00]))
            (andThen (close_master dev_fd True)
            (exit_main 0))))))"

end
