(* ===== verification/Test_Md.thy ===== *)
theory Test_Md
  imports Master_Program
begin

text \<open>
  \<open>prj2/src/sample/user_program/test_md.c\<close> writes a text to the mapped page of the sending device.
  The mapping and the file go with the process when it exits, which is not modelled: the state described is
  the one at the exit.
\<close>

definition greeting :: bytes where
  "greeting = line ''mm success!!!'' @ [CHR 0x00]"

section \<open>Opening and mapping\<close>

text \<open>File \<open>d\<close> is open with a page of zeros, or with none if the driver got none.\<close>

definition file_open :: "'m machine_scheme \<Rightarrow> nat \<Rightarrow> nat option \<Rightarrow> bool" where
  "file_open w d pg = (\<exists>p i. private_data w d = Some p \<and> infos w p = Some i \<and> data i = pg \<and>
     (\<forall>g. pg = Some g \<longrightarrow> pages w g = Some (replicate PAGE_SIZE (CHR 0x00))))"

text \<open>The area \<open>v\<close> shows the page of file \<open>d\<close>, which holds \<open>bs\<close>.\<close>

definition shows_page :: "'m machine_scheme \<Rightarrow> nat \<Rightarrow> nat \<Rightarrow> nat option \<Rightarrow> bytes \<Rightarrow> bool" where
  "shows_page w d v pg bs = (\<exists>p i a. private_data w d = Some p \<and> infos w p = Some i \<and> data i = pg \<and>
     (\<forall>g. pg = Some g \<longrightarrow> pages w g = Some bs) \<and> vmas w v = Some a \<and> vm_private_data a = Some p)"

lemma file_open_log [simp]: "file_open (log_call c r bs w) d pg = file_open w d pg"
  and shows_page_log [simp]: "shows_page (log_call c r bs w) d v pg ps = shows_page w d v pg ps"
  by (simp_all add: file_open_def shows_page_def)

abbreviation device_path :: string where "device_path \<equiv> ''/dev/master_device''"

lemma test_open:
  "wp open_master
    (\<lambda>d w'. if d < 0 then \<exists>r < 0. calls w' = calls w @ [(Open_device device_path, r)]
       else \<exists>m z pg. calls w' = calls w @ [(Open_device device_path, d), (Kmalloc, m), (Get_zeroed_page, z)] \<and>
         m \<noteq> 0 \<and> (pg = None) = (z = 0) \<and> file_open w' (nat d) pg)
    (\<lambda>s w'. s = Undefined Null_Dereference \<and>
       (\<exists>d \<ge> 0. \<exists>z. calls w' = calls w @ [(Open_device device_path, d), (Kmalloc, 0), (Get_zeroed_page, z)])) w"
  by (auto simp: open_master_def open_device_def master_fops_def wp_rules master_open_def wp_kmalloc_info
      wp_get_zeroed_page file_open_def Let_def)

lemma test_map:
  assumes "file_open w d pg"
  shows "wp (map_device master_fops d)
    (\<lambda>a w'. case a of None \<Rightarrow> \<exists>r < 0. calls w' = calls w @ [(Mmap_device, r)]
       | Some v \<Rightarrow> \<exists>r \<ge> 0. calls w' = calls w @ [(Mmap_device, r)] \<and>
           shows_page w' d v pg (replicate PAGE_SIZE (CHR 0x00))) never w"
  using assms
  by (auto simp: map_device_def master_fops_def wp_rules mmap_mmap_def mmap_open_def new_area_def file_open_def
      shows_page_def Let_def)

text \<open>The rest of the program once the page is mapped.\<close>

lemma test_write:
  assumes "shows_page w d v pg (replicate PAGE_SIZE (CHR 0x00))"
  shows "wp (device_page simple_remap_vm_ops v)
    (\<lambda>g w'. pg = Some g \<and> calls w' = calls w \<and> shows_page w' d v pg (replicate PAGE_SIZE (CHR 0x00)))
    (\<lambda>s w'. pg = None \<and> s = Undefined Null_Dereference \<and> (\<exists>r. calls w' = calls w @ [(Printk (line ''No data''), r)])) w"
  using assms
  by (auto simp: device_page_def simple_remap_vm_ops_def mmap_fault_def wp_rules shows_page_def split: option.split)

lemma test_store:
  assumes "shows_page w d v (Some g) (replicate PAGE_SIZE (CHR 0x00))"
  shows "wp (store_page (Some g) greeting) (\<lambda>_ w'. calls w' = calls w \<and>
    shows_page w' d v (Some g) (greeting @ replicate (PAGE_SIZE - length greeting) (CHR 0x00))) never w"
  using assms by (auto simp: wp_rules shows_page_def greeting_def line_def PAGE_SIZE_def)

section \<open>The program\<close>

text \<open>How the program ends after the calls \<open>new\<close>.\<close>

definition ends_as :: "(call \<times> int) list \<Rightarrow> stop \<Rightarrow> 'm machine_scheme \<Rightarrow> bool" where
  "ends_as new s w' =
    (if \<exists>r < 0. (Open_device device_path, r) \<in> set new then s = Exited 1
     else if (Kmalloc, 0) \<in> set new then s = Undefined Null_Dereference
     else if \<exists>r < 0. (Mmap_device, r) \<in> set new then s = Exited (-1)
     else if (Get_zeroed_page, 0) \<in> set new then s = Undefined Null_Dereference
     else s = Exited 0 \<and> (\<exists>d v g. shows_page w' d v (Some g)
       (greeting @ replicate (PAGE_SIZE - length greeting) (CHR 0x00))))"

text \<open>C38: The outcome of test_md.c, decided by the answers to the calls it makes. It exits with 1 just if the device
  cannot be opened; ends at a memory fault if the driver gets no memory for its info; exits with -1 if the
  mapping is refused; ends at a memory fault if the driver has got no page; and otherwise exits with 0,
  and its open file has a page that holds the text and zeros behind it, which the mapped area shows.\<close>
theorem test_md_outcome:
  "\<exists>s w' new. test_md_main w = Some (Halt s, w') \<and> calls w' = calls w @ new \<and>
    (if \<exists>r < 0. (Open_device ''/dev/master_device'', r) \<in> set new then s = Exited 1
     else if (Kmalloc, 0) \<in> set new then s = Undefined Null_Dereference
     else if \<exists>r < 0. (Mmap_device, r) \<in> set new then s = Exited (-1)
     else if (Get_zeroed_page, 0) \<in> set new then s = Undefined Null_Dereference
     else s = Exited 0 \<and> (\<exists>d v p i g a. private_data w' d = Some p \<and> infos w' p = Some i \<and> data i = Some g \<and>
       pages w' g = Some (greeting @ replicate (PAGE_SIZE - length greeting) (CHR 0x00)) \<and>
       vmas w' v = Some a \<and> vm_private_data a = Some p))"
proof -
  let ?out = "\<lambda>s w'. (\<exists>new. calls w' = calls w @ new) \<and> ends_as (drop (length (calls w)) (calls w')) s w'"
  have "wp test_md_main (\<lambda>_ _. False) ?out w"
    unfolding test_md_main_def greeting_def [symmetric] wp_bind
  proof (rule wp_mono [OF test_open], goal_cases)
    case (1 dev w1)
    show ?case
    proof (cases "dev < 0")
      case True
      with 1 show ?thesis by (auto simp: wp_rules ends_as_def)
    next
      case False
      with 1 obtain m z pg where
        c: "calls w1 = calls w @ [(Open_device device_path, dev), (Kmalloc, m), (Get_zeroed_page, z)]"
        and m: "m \<noteq> 0" "(pg = None) = (z = 0)" and f: "file_open w1 (nat dev) pg" by auto
      have "wp (bind (map_device master_fops (nat dev)) (\<lambda>address.
        andThen (bind (do_call (Report (case address of None \<Rightarrow> - 1 | Some v \<Rightarrow> of_nat v))) (\<lambda>_. return ()))
        (case address of None \<Rightarrow> andThen (perror ''mmap operation failed'') (exit_main (-1))
         | Some v \<Rightarrow> bind (device_page simple_remap_vm_ops v) (\<lambda>g.
             andThen (store_page (Some g) greeting) (andThen (close_master dev True) (exit_main 0))))))
        (\<lambda>_ _. False) ?out w1"
        unfolding wp_bind
      proof (rule wp_mono [OF test_map [OF f]], goal_cases)
        case (1 address w2)
        show ?case
        proof (cases address)
          case None
          with 1 c m False show ?thesis by (auto simp: wp_rules ends_as_def)
        next
          case (Some v)
          with 1 obtain r where r: "0 \<le> r" "calls w2 = calls w1 @ [(Mmap_device, r)]"
            and page: "shows_page w2 (nat dev) v pg (replicate PAGE_SIZE (CHR 0x00))" by auto
          have page': "shows_page (log_call (Report (of_nat v)) x [] w2) (nat dev) v pg (replicate PAGE_SIZE (CHR 0x00))" for x
            using page by simp
          have stored: "wp (andThen (store_page (Some g) greeting) (andThen (close_master dev True) (exit_main 0)))
              (\<lambda>_ _. False) ?out w3"
            if "pg = Some g" "calls w3 = calls w2 @ [(Report (of_nat v), x)]"
              "shows_page w3 (nat dev) v pg (replicate PAGE_SIZE (CHR 0x00))" for g w3 x
            using c m False r that unfolding wp_andThen
            by (intro wp_mono [OF test_store [OF that(3) [unfolded that(1)]]])
              (auto simp: wp_rules close_master_def close_device_def ends_as_def)
          have "wp (bind (device_page simple_remap_vm_ops v) (\<lambda>g.
              andThen (store_page (Some g) greeting) (andThen (close_master dev True) (exit_main 0))))
              (\<lambda>_ _. False) ?out (log_call (Report (of_nat v)) x [] w2)" for x
            unfolding wp_bind
          proof (rule wp_mono [OF test_write [OF page']], goal_cases)
            case (1 g w3)
            then show ?case by (intro stored [of g w3]) auto
          next
            case (2 s w3)
            with c m False r show ?case by (auto simp: ends_as_def)
          qed
          then show ?thesis unfolding Some by (simp only: wp_andThen wp_bind wp_do_call wp_return option.case)
        qed
      qed simp
      with False show ?thesis by (simp add: wp_bind)
    qed
  qed (auto simp: ends_as_def)
  then show ?thesis unfolding wp_halts ends_as_def shows_page_def by (fastforce split: if_splits)
qed

theorem test_md_outcome_sample:
  "\<exists>w' d p i g bs. test_md_main (master_of sample_machine None None) = Some (Halt (Exited 0), w') \<and>
    private_data w' d = Some p \<and> infos w' p = Some i \<and> data i = Some g \<and> pages w' g = Some (greeting @ bs)"
proof -
  let ?w = "master_of sample_machine None None"
  have "wp test_md_main (\<lambda>_ _. False) (\<lambda>_ w'. (\<forall>e \<in> set (calls w'). 0 \<le> snd e) \<and>
      (Kmalloc, 0) \<notin> set (calls w') \<and> (Get_zeroed_page, 0) \<notin> set (calls w')) ?w"
    by (simp add: test_md_main_def master_calls map_device_def device_page_def simple_remap_vm_ops_def wp_rules Let_def
      master_open_def wp_kmalloc_info wp_get_zeroed_page mmap_mmap_def mmap_open_def mmap_fault_def new_area_def
      line_def PAGE_SIZE_def) (simp add: calls_def)
  then obtain s w' where run: "test_md_main ?w = Some (Halt s, w')" and ok: "\<forall>e \<in> set (calls w'). 0 \<le> snd e"
    "(Kmalloc, 0) \<notin> set (calls w')" "(Get_zeroed_page, 0) \<notin> set (calls w')"
    by (auto simp: wp_halts)
  have good: "\<not> (\<exists>r < 0. (c, r) \<in> set (calls w'))" for c using ok(1) by fastforce
  have "calls ?w = []" by (simp add: calls_def)
  with test_md_outcome [of ?w] run ok(2,3) good show ?thesis
    by (simp add: option.inject prod.inject) blast
qed

end
