(* ===== verification/Copying.thy ===== *)
theory Copying
  imports User_Calls
begin

text \<open>
  The loop that both programs copy with, \<open>do { ret = get(buf); put(buf, ret); } while (ret > 0)\<close>, as
  a locale: \<open>get\<close> takes the next bytes of a source and returns how many, none only at its end; \<open>put\<close>
  appends bytes to a sink. Whatever sizes \<open>get\<close> chooses, the loop ends and the whole source
  has been appended to the sink.
\<close>

locale copying =
  fixes get :: "('w, 64 word \<times> bytes) prog" and put :: "bytes \<Rightarrow> 64 word \<Rightarrow> ('w, int) prog"
    and good :: "'w \<Rightarrow> bool" and todo :: "'w \<Rightarrow> bytes" and out :: "'w \<Rightarrow> bytes"
  assumes get_law: "good w \<Longrightarrow> wp get (\<lambda>(ret, bs) w'. good w' \<and> todo w = bs @ todo w' \<and> out w' = out w \<and>
      ret = of_nat (length bs) \<and> length bs \<le> PAGE_SIZE \<and> (bs = [] \<longrightarrow> todo w = [])) never w"
    and put_law: "good w \<Longrightarrow> length bs \<le> PAGE_SIZE \<Longrightarrow>
      wp (put bs (of_nat (length bs))) (\<lambda>_ w'. good w' \<and> todo w' = todo w \<and> out w' = out w @ bs) never w"
begin

text \<open>One round; \<open>next\<close> is what the program computes from its variables and the size read.\<close>

definition one_round :: "('s \<Rightarrow> 64 word \<Rightarrow> 's) \<Rightarrow> 's \<Rightarrow> ('w, 's) prog" where
  "one_round nxt s = bind get (\<lambda>(ret, buf). bind (put buf ret) (\<lambda>_. return (nxt s ret)))"

lemma one_round_copies:
  assumes "good w"
  shows "wp (one_round nxt s) (\<lambda>s' w'. good w' \<and> (\<exists>bs. todo w = bs @ todo w' \<and> out w' = out w @ bs \<and>
    s' = nxt s (of_nat (length bs)) \<and> length bs \<le> PAGE_SIZE \<and> (bs = [] \<longrightarrow> todo w = []))) never w"
  unfolding one_round_def wp_bind
proof (rule wp_mono [OF get_law [OF assms]], goal_cases)
  case (1 p w1)
  then obtain bs where p: "p = (of_nat (length bs), bs)" and bs: "good w1" "todo w = bs @ todo w1"
      "out w1 = out w" "length bs \<le> PAGE_SIZE" "bs = [] \<longrightarrow> todo w = []" by (cases p) auto
  show ?case
    using bs unfolding p by (auto simp: wp_rules intro!: wp_mono [OF put_law [OF bs(1,4)]])
qed simp

lemma of_nat_size: "n \<le> PAGE_SIZE \<Longrightarrow> ((0 :: 64 word) < of_nat n) = (0 < n)"
  by (simp add: PAGE_SIZE_def word_less_nat_alt unat_of_nat take_bit_nat_eq_self)

text \<open>
  The loop: \<open>ret_of\<close> reads the size of the last round off the program's variables, \<open>tally\<close> the
  number of bytes it has counted.
\<close>

lemma loop_copies:
  fixes tally :: "'s \<Rightarrow> 64 word" and f :: "64 word \<Rightarrow> 64 word"
  assumes ret: "\<And>s r. ret_of (nxt s r) = r" and cnt: "\<And>s r. tally (nxt s r) = tally s + f r"
    and f: "\<And>a b. f (a + b) = f a + f b" "f 0 = 0"
    and "good w"
  shows "wp (doM (\<lambda>s. 0 < ret_of s) (one_round nxt) s) (\<lambda>s' w'. good w' \<and> todo w' = [] \<and>
    out w' = out w @ todo w \<and> tally s' = tally s + f (of_nat (length (todo w)))) never w"
proof -
  let ?I = "\<lambda>s' w'. good w' \<and> (\<exists>bs. todo w = bs @ todo w' \<and> out w' = out w @ bs \<and>
      tally s' = tally s + f (of_nat (length bs))) \<and> (ret_of s' = 0 \<longrightarrow> todo w' = [])"
  let ?m = "\<lambda>s' w'. length (todo w') + (if 0 < ret_of s' then 1 else 0)"
  have step: "wp (one_round nxt s1) (\<lambda>s2 w2. ?I s2 w2 \<and> (0 < ret_of s1 \<longrightarrow> ?m s2 w2 < ?m s1 w1)) never w1"
    if "good w1" and so_far: "todo w = bs1 @ todo w1" "out w1 = out w @ bs1"
      "tally s1 = tally s + f (of_nat (length bs1))" for s1 w1 bs1
  proof (rule wp_mono [OF one_round_copies [OF that(1)]])
    fix s2 w2
    assume "good w2 \<and> (\<exists>bs. todo w1 = bs @ todo w2 \<and> out w2 = out w1 @ bs \<and>
      s2 = nxt s1 (of_nat (length bs)) \<and> length bs \<le> PAGE_SIZE \<and> (bs = [] \<longrightarrow> todo w1 = []))"
    then obtain bs where 2: "good w2" "todo w1 = bs @ todo w2" "out w2 = out w1 @ bs"
        "s2 = nxt s1 (of_nat (length bs))" "length bs \<le> PAGE_SIZE" "bs = [] \<longrightarrow> todo w1 = []" by blast
    have pos: "(0 < ret_of s2) = (bs \<noteq> [])" using 2 by (simp add: ret of_nat_size)
    have "todo w = (bs1 @ bs) @ todo w2 \<and> out w2 = out w @ bs1 @ bs \<and>
        tally s2 = tally s + f (of_nat (length (bs1 @ bs)))"
      using 2 so_far by (simp add: cnt f add.assoc)
    moreover have "ret_of s2 = 0 \<Longrightarrow> todo w2 = []" using pos 2 by (cases "bs = []") auto
    moreover have "0 < ret_of s1 \<Longrightarrow> ?m s2 w2 < ?m s1 w1" using pos 2 by (cases bs) auto
    ultimately show "?I s2 w2 \<and> (0 < ret_of s1 \<longrightarrow> ?m s2 w2 < ?m s1 w1)" using 2(1) by blast
  qed simp
  have first: "wp (one_round nxt s) (\<lambda>s2 w2. ?I s2 w2) never w"
    by (rule wp_mono [OF step [of w "[]" s]]) (use assms(5) f(2) in auto)
  show ?thesis unfolding wp_doM
  proof (rule wp_mono [OF first])
    fix s1 w1 assume I: "?I s1 w1"
    show "wp (whileM (\<lambda>s. 0 < ret_of s) (one_round nxt) s1) (\<lambda>s' w'. good w' \<and> todo w' = [] \<and>
        out w' = out w @ todo w \<and> tally s' = tally s + f (of_nat (length (todo w)))) never w1"
    proof (rule wp_whileM [where I = ?I and \<mu> = ?m])
      show "?I s1 w1" by (rule I)
      show "wp (one_round nxt s2) (\<lambda>s' w'. ?I s' w' \<and> ?m s' w' < ?m s2 w2) never w2"
        if "?I s2 w2" "0 < ret_of s2" for s2 w2
      proof -
        from that(1) obtain bs where "good w2" "todo w = bs @ todo w2" "out w2 = out w @ bs"
            "tally s2 = tally s + f (of_nat (length bs))" by blast
        from step [OF this] show ?thesis by (rule wp_mono) (use that(2) in auto)
      qed
      show "good w2 \<and> todo w2 = [] \<and> out w2 = out w @ todo w \<and> tally s2 = tally s + f (of_nat (length (todo w)))"
        if "?I s2 w2" "\<not> 0 < ret_of s2" for s2 w2
        using that by (auto simp: word_gt_0)
    qed
  qed simp
qed

end

end
