(* ===== verification/Environment.thy ===== *)
theory Environment
  imports User_Calls "HOL-Library.Sublist"
begin

text \<open>
  What the programs of \<open>prj2\<close> are shown correct for: an environment in which calls succeed; with
  facts about sizes and about the growing log that both programs' proofs use.
\<close>

section \<open>The environment relied on\<close>

text \<open>
  Calls succeed, allocations give memory, user memory does not fault, a read gives at least one byte
  where there is one, a write takes all it is given.
\<close>

definition calls_succeed :: "env \<Rightarrow> bool" where
  "calls_succeed e = ((\<forall>h c. 0 \<le> answer e h c) \<and>
     (\<forall>h. answer e h Kmalloc \<noteq> 0 \<and> answer e h Get_zeroed_page \<noteq> 0) \<and>
     (\<forall>h n. answer e h (Copy_from_user n) = 0 \<and> answer e h (Copy_to_user n) = 0) \<and>
     (\<forall>h n. 0 < n \<longrightarrow> 0 < answer e h (Read_file n)) \<and>
     (\<forall>h bs. answer e h (Write_file bs) = int (length bs)))"

lemma calls_succeedD:
  assumes "calls_succeed e"
  shows "0 \<le> answer e h c" "\<not> answer e h c < 0" "answer e h c \<noteq> -1" "answer e h Kmalloc \<noteq> 0"
    "answer e h Get_zeroed_page \<noteq> 0" "answer e h (Copy_from_user n) = 0" "answer e h (Copy_to_user n) = 0"
    "0 < n \<Longrightarrow> 0 < answer e h (Read_file n)" "answer e h (Write_file bs) = int (length bs)"
proof -
  show "0 \<le> answer e h c" using assms by (simp add: calls_succeed_def)
  then show "\<not> answer e h c < 0" "answer e h c \<noteq> -1" by linarith+
qed (use assms in \<open>simp_all add: calls_succeed_def\<close>)

lemma size_is_small: "n \<le> PAGE_SIZE \<Longrightarrow> uint (of_nat n :: 64 word) = int n \<and> unat (of_nat n :: 64 word) = n"
  by (simp add: PAGE_SIZE_def unsigned_of_nat take_bit_nat_eq_self)

lemma word_facts:
  assumes "n < 2 ^ 63"
  shows "unat (of_nat n :: 64 word) = n" "uint (of_nat n :: 64 word) = int n" "sint (of_nat n :: 64 word) = int n"
proof -
  show "unat (of_nat n :: 64 word) = n" "uint (of_nat n :: 64 word) = int n"
    using assms by (simp_all add: unsigned_of_nat take_bit_nat_eq_self)
  have "int n < 2 ^ 63" using assms by (metis of_nat_less_iff of_nat_numeral of_nat_power)
  then show "sint (of_nat n :: 64 word) = int n"
    by (simp add: signed_of_nat signed_take_bit_int_eq_self)
qed

lemma wp_map_file:
  assumes "calls_succeed (env_of w)"
  shows "wp (map_file s off) Q E w = Q (0 < s \<and> 0 \<le> off \<and> off mod int PAGE_SIZE = 0)
    (log_call (Mmap_file s (nat off)) (answer (env_of w) (klog w) (Mmap_file s (nat off))) [] w)"
  using assms by (simp add: map_file_def wp_rules calls_succeedD)

text \<open>The log only grows: what it held at first stays its prefix.\<close>

lemma prefix_grows [simp]: "prefix h0 h \<Longrightarrow> prefix h0 (h @ h')"
  by (auto simp: prefix_def)

lemma prefix_length: "prefix h0 h \<Longrightarrow> length h0 \<le> length h"
  by (rule prefix_length_le)

end
