(* ===== verification/Streams.thy ===== *)
theory Streams
  imports Environment Device_Samples
begin

text \<open>
  The bytes that go over a connection, read off the log of a machine: what it has handed to a socket
  and what it has taken from one; with environments whose socket layer delivers a given stream.
\<close>

section \<open>Sending\<close>

text \<open>The bytes that a log has handed to one socket.\<close>

fun message_to :: "nat \<Rightarrow> call \<Rightarrow> bytes" where
  "message_to a (Sock_sendmsg b bs flags dest) = (if b = a then bs else [])"
| "message_to a _ = []"

definition sent_on :: "nat \<Rightarrow> entry list \<Rightarrow> bytes" where
  "sent_on a h = concat (map (\<lambda>e. message_to a (the_call e)) h)"

lemma sent_on_simps [simp]: "sent_on a [] = []"
  "sent_on a (h @ [e]) = sent_on a h @ message_to a (the_call e)"
  "sent_on a (h @ e # h') = sent_on a h @ message_to a (the_call e) @ sent_on a h'"
  "sent_on a (e # h) = message_to a (the_call e) @ sent_on a h"
  by (simp_all add: sent_on_def)

section \<open>Receiving\<close>

fun received_from :: "nat \<Rightarrow> entry \<Rightarrow> bytes" where
  "received_from a e = (case the_call e of Sock_recvmsg b n f \<Rightarrow> if b = a then received e else [] | _ \<Rightarrow> [])"

definition received_on :: "nat \<Rightarrow> entry list \<Rightarrow> bytes" where
  "received_on a h = concat (map (received_from a) h)"

lemma received_on_simps [simp]: "received_on a [] = []"
  "received_on a (h @ h') = received_on a h @ received_on a h'"
  "received_on a (e # h) = received_from a e @ received_on a h"
  by (simp_all add: received_on_def)

text \<open>
  What the socket layer gives next from a stream \<open>d\<close>: some of the bytes that are left, none only at
  the end. \<open>delivers_pages\<close> adds that a piece is a whole page unless the stream ends with it.
\<close>

definition delivers :: "env \<Rightarrow> nat \<Rightarrow> bytes \<Rightarrow> bool" where
  "delivers e a d = (\<forall>h n f rest. 0 < n \<and> d = received_on a h @ rest \<longrightarrow>
     (\<exists>bs rest'. incoming e h (Sock_recvmsg a n f) = Inr bs \<and> rest = bs @ rest' \<and> length bs \<le> n \<and>
        (bs = [] \<longrightarrow> rest = [])))"

definition delivers_pages :: "env \<Rightarrow> nat \<Rightarrow> bytes \<Rightarrow> bool" where
  "delivers_pages e a d = (delivers e a d \<and> (\<forall>h f bs rest. incoming e h (Sock_recvmsg a PAGE_SIZE f) = Inr bs \<and>
     d = received_on a h @ bs @ rest \<longrightarrow> length bs = PAGE_SIZE \<or> rest = []))"

section \<open>An open device\<close>

text \<open>File \<open>d\<close> is open on a device, with its info and its page.\<close>

definition device_open :: "nat \<Rightarrow> 'm machine_scheme \<Rightarrow> bool" where
  "device_open d w = (\<exists>p i g page. private_data w d = Some p \<and> infos w p = Some i \<and> data i = Some g \<and>
     pages w g = Some page \<and> length page = PAGE_SIZE)"

section \<open>Samples\<close>

text \<open>An environment that delivers the stream \<open>s\<close> on every socket, in pieces as large as asked for.\<close>

definition stream_env :: "bytes \<Rightarrow> env" where
  "stream_env s = sample_env\<lparr>new_socket := \<lambda>h. Some (8, sample_sock),
     incoming := \<lambda>h c. (case c of Sock_recvmsg a n f \<Rightarrow> Inr (take n (drop (length (received_on a h)) s)) | _ \<Rightarrow> Inr [])\<rparr>"

lemma stream_env_simps [simp]: "new_socket (stream_env s) h = Some (8, sample_sock)"
  "answer (stream_env s) = sample_answer"
  "incoming (stream_env s) h (Sock_recvmsg a n f) = Inr (take n (drop (length (received_on a h)) s))"
  by (simp_all add: stream_env_def sample_env_def)

lemma sample_calls_succeed: "calls_succeed e" if "answer e = sample_answer"
proof -
  have "0 \<le> sample_answer h c" for h c by (cases "(h, c)" rule: sample_answer.cases) simp_all
  with that show ?thesis by (simp add: calls_succeed_def)
qed

lemma stream_env_delivers: "delivers (stream_env s) a s"
proof -
  have "take n rest = [] \<longrightarrow> rest = []" if "0 < n" for n and rest :: bytes using that by auto
  then show ?thesis
    unfolding delivers_def by (metis append_take_drop_id append_eq_conv_conj length_take min.cobounded2 stream_env_simps(3))
qed

lemma short_take: "x = take n x @ rest \<Longrightarrow> length (take n x) = n \<or> rest = []" for x rest :: bytes
proof -
  assume "x = take n x @ rest"
  from arg_cong [OF this, of length] show ?thesis by (auto simp: min_def split: if_splits)
qed

lemma stream_env_pages: "delivers_pages (stream_env s) a s"
  unfolding delivers_pages_def
proof (intro conjI allI impI)
  fix h f bs rest
  let ?x = "drop (length (received_on a h)) s"
  assume *: "incoming (stream_env s) h (Sock_recvmsg a PAGE_SIZE f) = Inr bs \<and> s = received_on a h @ bs @ rest"
  from conjunct1 [OF this] have bs: "bs = take PAGE_SIZE ?x" by simp
  from * have "?x = bs @ rest" by (metis append_eq_conv_conj)
  then show "length bs = PAGE_SIZE \<or> rest = []" unfolding bs by (rule short_take)
qed (rule stream_env_delivers)

text \<open>The same, one byte at a time.\<close>

definition crumb_env :: "bytes \<Rightarrow> env" where
  "crumb_env s = (stream_env s)\<lparr>incoming := \<lambda>h c. (case c of
     Sock_recvmsg a n f \<Rightarrow> Inr (take (min 1 n) (drop (length (received_on a h)) s)) | _ \<Rightarrow> Inr [])\<rparr>"

lemma crumb_env_simps [simp]: "new_socket (crumb_env s) h = Some (8, sample_sock)"
  "answer (crumb_env s) = sample_answer"
  "incoming (crumb_env s) h (Sock_recvmsg a n f) = Inr (take (min 1 n) (drop (length (received_on a h)) s))"
  by (simp_all add: crumb_env_def)

lemma crumb_env_delivers: "delivers (crumb_env s) a s"
  unfolding delivers_def
proof (intro allI impI, goal_cases)
  case (1 h n f rest)
  then have "drop (length (received_on a h)) s = rest" by simp
  moreover have "rest = take (min 1 n) rest @ drop (min 1 n) rest" by simp
  moreover have "take (min 1 n) rest = [] \<longrightarrow> rest = []" using 1 by (auto simp: min_def)
  ultimately show ?case unfolding crumb_env_simps by force
qed

text \<open>The receiving side before the program is started.\<close>

definition waiting_slave :: "env \<Rightarrow> slave" where
  "waiting_slave e = slave_of (sample_machine\<lparr>env_of := e\<rparr>) None"

lemma waiting_slave_simps [simp]: "env_of (waiting_slave e) = e" "klog (waiting_slave e) = []"
  "fs (waiting_slave e) = USER_DS"
  by (simp_all add: waiting_slave_def)

text \<open>The sending side, loaded, before the program is started with the file \<open>d\<close>.\<close>

definition listening_master :: "bytes \<Rightarrow> master" where
  "listening_master d = master_of (sample_machine\<lparr>env_of := stream_env [], file_data := d\<rparr>) (Some 7) None"

lemma listening_master_simps [simp]: "env_of (listening_master d) = stream_env []" "klog (listening_master d) = []"
  "file_data (listening_master d) = d" "socks (listening_master d) = [7 \<mapsto> sample_sock]"
  "sockfd_srv (listening_master d) = Some 7"
  by (simp_all add: listening_master_def)

end
