(* ===== verification/Master_Transfer.thy ===== *)
theory Master_Transfer
  imports Master_Program Copying Streams
begin

text \<open>
  The sending program on an environment in which calls succeed: whichever of the two methods it is
  told to use and however the reads of the file are cut, what it hands to the connection is the
  file, and it ends with status 0.
\<close>

section \<open>Copying with read and write\<close>

lemma wp_read_file: "calls_succeed (env_of w) \<Longrightarrow> wp (read_file PAGE_SIZE) Q E w =
    (let r = answer (env_of w) (klog w) (Read_file PAGE_SIZE);
       bs = take (min PAGE_SIZE (nat r)) (drop (file_pos w) (file_data w)) in
     Q (of_nat (length bs), bs) (log_call (Read_file PAGE_SIZE) r [] w\<lparr>file_pos := file_pos w + length bs\<rparr>))"
  by (simp add: read_file_def wp_rules Let_def calls_succeedD)

text \<open>The state of the device in which the program copies: connected, its file open.\<close>

definition master_ready :: "entry list \<Rightarrow> nat \<Rightarrow> nat \<Rightarrow> 'm master_scheme \<Rightarrow> bool" where
  "master_ready h0 d a w = (calls_succeed (env_of w) \<and> prefix h0 (klog w) \<and> sockfd_cli w = Some a \<and>
     (\<exists>k. socks w a = Some k) \<and> (\<exists>p i. private_data w d = Some p \<and> infos w p = Some i))"

lemma take_then_rest: "take m (drop p d) @ drop (p + length (take m (drop p d))) d = drop p d"
proof -
  have "drop (p + length (take m (drop p d))) d = drop (length (take m (drop p d))) (drop p d)"
    by (simp add: add.commute)
  also have "\<dots> = drop m (drop p d)" by (cases "m \<le> length (drop p d)") simp_all
  finally show ?thesis by (simp only: append_take_drop_id)
qed

interpretation master_copy: copying "read_file PAGE_SIZE" write_master "master_ready h0 d a"
  "\<lambda>w. drop (file_pos w) (file_data w)" "\<lambda>w. sent_on a (drop (length h0) (klog w))" for h0 d a
proof unfold_locales
  fix w :: "'a master_scheme"
  assume good: "master_ready h0 d a w"
  then have ok: "calls_succeed (env_of w)" by (simp add: master_ready_def)
  have "0 < answer (env_of w) (klog w) (Read_file PAGE_SIZE)"
    by (rule calls_succeedD(8) [OF ok]) (simp add: PAGE_SIZE_def)
  moreover have "PAGE_SIZE \<noteq> 0" by (simp add: PAGE_SIZE_def)
  moreover have "length h0 \<le> length (klog w)" using good by (simp add: master_ready_def prefix_length)
  ultimately show "wp (read_file PAGE_SIZE) (\<lambda>(ret, bs) w'. master_ready h0 d a w' \<and>
      drop (file_pos w) (file_data w) = bs @ drop (file_pos w') (file_data w') \<and>
      sent_on a (drop (length h0) (klog w')) = sent_on a (drop (length h0) (klog w)) \<and>
      ret = of_nat (length bs) \<and> length bs \<le> PAGE_SIZE \<and>
      (bs = [] \<longrightarrow> drop (file_pos w) (file_data w) = [])) never w"
    using good take_then_rest [of _ "file_pos w" "file_data w"]
    by (simp add: wp_read_file [OF ok] Let_def master_ready_def min_def)
next
  fix w :: "'a master_scheme" and bs :: bytes
  assume good: "master_ready h0 d a w" and "length bs \<le> PAGE_SIZE"
  moreover from good have "length h0 \<le> length (klog w)" by (simp add: master_ready_def prefix_length)
  ultimately show "wp (write_master bs (of_nat (length bs))) (\<lambda>_ w'. master_ready h0 d a w' \<and>
      drop (file_pos w') (file_data w') = drop (file_pos w) (file_data w) \<and>
      sent_on a (drop (length h0) (klog w')) = sent_on a (drop (length h0) (klog w)) @ bs) never w"
    using size_is_small [of "length bs"]
    by (auto simp: master_calls master_ready_def size_limit_def PAGE_SIZE_def wp_rules wp_send_msg
        calls_succeedD Let_def)
qed

lemma master_fcntl_round: "master_fcntl_step = master_copy.one_round (\<lambda>_ r. r)"
  by (simp add: fun_eq_iff master_fcntl_step_def master_copy.one_round_def)

lemma master_fcntl_copies:
  assumes "master_ready h0 d a w"
  shows "wp master_fcntl (\<lambda>_ w'. master_ready h0 d a w' \<and>
    sent_on a (drop (length h0) (klog w')) = sent_on a (drop (length h0) (klog w)) @ drop (file_pos w) (file_data w)) never w"
  unfolding master_fcntl_def master_fcntl_round
  by (rule wp_mono [OF master_copy.loop_copies [of "\<lambda>r. r" "\<lambda>_ r. r" "\<lambda>_. 0" "\<lambda>_. 0", OF _ _ _ _ assms]]) simp_all

section \<open>Copying through the mapped page\<close>

definition mapped_ready :: "entry list \<Rightarrow> nat \<Rightarrow> nat \<Rightarrow> nat \<Rightarrow> 'm master_scheme \<Rightarrow> bool" where
  "mapped_ready h0 d a v w = (calls_succeed (env_of w) \<and> prefix h0 (klog w) \<and> sockfd_cli w = Some a \<and>
     (\<exists>k. socks w a = Some k) \<and> (\<exists>p i g page ar. private_data w d = Some p \<and> infos w p = Some i \<and>
       data i = Some g \<and> pages w g = Some page \<and> length page = PAGE_SIZE \<and>
       vmas w v = Some ar \<and> vm_private_data ar = Some p))"

lemma chunk_size:
  assumes "r < 2 ^ 63"
  shows "(if (of_nat r :: 64 word) < of_nat PAGE_SIZE then of_nat r else of_nat PAGE_SIZE) =
    of_nat (min r PAGE_SIZE)"
  using assms word_facts(1) [of r] word_facts(1) [of PAGE_SIZE]
  by (auto simp: word_less_nat_alt min_def PAGE_SIZE_def)

lemma master_IOCTL_values: "(0x12345677 :: 32 word) = master_IOCTL_CREATESOCK"
  "(0x12345678 :: 32 word) = master_IOCTL_MMAP" "(0x12345679 :: 32 word) = master_IOCTL_EXIT"
  by (simp_all add: master_IOCTL_CREATESOCK_def master_IOCTL_MMAP_def master_IOCTL_EXIT_def)

lemma wp_device_page:
  assumes "vmas w v = Some ar" "vm_private_data ar = Some p" "infos w p = Some i" "data i = Some g"
  shows "wp (device_page simple_remap_vm_ops v) Q E w = Q g w"
  using assms by (simp add: device_page_def simple_remap_vm_ops_def mmap_fault_def wp_rules)

lemma wp_ioctl_mmap:
  assumes "private_data w d = Some p" "infos w p = Some i" "data i = Some g" "pages w g = Some page"
    and "sockfd_cli w = Some a" "socks w a = Some k" "unat s \<le> length page"
  shows "wp (ioctl_master (int d) 0x12345678 s) Q E w =
    (let c = Sock_sendmsg a (take (unat s) page) 0 None; r = answer (env_of w) (klog w) c in
     Q 0 (w\<lparr>klog := klog w @ [\<lparr>at_fs = KERNEL_DS, the_call = c, result = r, received = []\<rparr>]\<rparr>))"
proof -
  have "open_page w d g page" using assms(1-4) by (auto simp: open_page_def)
  from wp_mmap_request(1) [OF this assms(5-7)] show ?thesis
    by (simp add: master_calls wp_rules master_IOCTL_values sys_result_def Let_def)
qed

lemma master_mmap_round:
  assumes ready: "mapped_ready h0 d a v w" and k: "k < length (file_data w)" "k mod PAGE_SIZE = 0"
    and len: "length (file_data w) < 2 ^ 63"
  defines "s \<equiv> min (length (file_data w) - k) PAGE_SIZE"
  shows "wp (master_mmap_step (int d) v (of_nat k, of_nat (length (file_data w) - k)))
    (\<lambda>s' w'. s' = (of_nat (k + s), of_nat (length (file_data w) - (k + s))) \<and> mapped_ready h0 d a v w' \<and>
       file_data w' = file_data w \<and>
       sent_on a (drop (length h0) (klog w')) = sent_on a (drop (length h0) (klog w)) @ take s (drop k (file_data w))) never w"
proof -
  let ?L = "length (file_data w)"
  obtain q p i g page ar where ok: "calls_succeed (env_of w)" "prefix h0 (klog w)" "sockfd_cli w = Some a"
      "socks w a = Some q" "private_data w d = Some p" "infos w p = Some i" "data i = Some g"
      "pages w g = Some page" "length page = PAGE_SIZE" "vmas w v = Some ar" "vm_private_data ar = Some p"
    using ready by (auto simp: mapped_ready_def)
  have s: "0 < s" "s \<le> PAGE_SIZE" "s \<le> ?L - k" "s < 2 ^ 63"
    using k len by (auto simp: s_def PAGE_SIZE_def)
  have size: "(if (of_nat (?L - k) :: 64 word) < of_nat PAGE_SIZE then of_nat (?L - k) else of_nat PAGE_SIZE) = of_nat s"
    unfolding s_def by (rule chunk_size) (use len in simp)
  have rest: "(of_nat (?L - k) :: 64 word) - of_nat s = of_nat (?L - (k + s))"
    using s(3) by (metis diff_diff_add of_nat_diff)
  have off: "(of_nat k :: 64 word) + of_nat s = of_nat (k + s)" by simp
  have page: "int k mod int PAGE_SIZE = 0" using k(2) by (simp add: zmod_int [symmetric])
  have unats: "unat (of_nat k :: 64 word) = k" "unat (of_nat s :: 64 word) = s" "sint (of_nat k :: 64 word) = int k"
    using k(1) len s(4) by (simp_all add: word_facts)
  have bs: "take s (drop k (file_data w) @ replicate s (CHR 0x00)) = take s (drop k (file_data w))"
    "length (take s (drop k (file_data w))) = s" "take s (drop k (file_data w)) \<noteq> []"
    using s k by (simp_all add: PAGE_SIZE_def)
  let ?bs = "take s (drop k (file_data w))"
  let ?w = "log_call (Mmap_file s k) (answer (env_of w) (klog w) (Mmap_file s k)) [] w
      \<lparr>pages := (pages w)(g \<mapsto> ?bs @ drop s page)\<rparr>"
  have io: "wp (ioctl_master (int d) 0x12345678 (of_nat s)) Q E ?w =
      (let c = Sock_sendmsg a ?bs 0 None; r = answer (env_of ?w) (klog ?w) c in
       Q 0 (?w\<lparr>klog := klog ?w @ [\<lparr>at_fs = KERNEL_DS, the_call = c, result = r, received = []\<rparr>]\<rparr>))" for Q E
    using ok s bs(2) by (subst wp_ioctl_mmap [of _ d p i g "?bs @ drop s page" a q]) (simp_all add: unats)
  show ?thesis
    unfolding master_mmap_step_def prod.case size Let_def
    using ok s k(1) page prefix_length [OF ok(2)]
    by (simp add: wp_rules wp_map_file unats bs mapped_read_def wp_device_page rest off not_le io Let_def
        del: of_nat_add of_nat_diff)
      (auto simp: mapped_ready_def)
qed

end
