(* ===== verification/Master_Main.thy ===== *)
theory Master_Main
  imports Master_Transfer
begin

text \<open>
  Whole runs of \<open>master.c\<close>: from opening the device to the end, with either method.
\<close>

section \<open>The loop with the mapped page\<close>

text \<open>The program's position \<open>k\<close> in the file: at a page boundary or at the end.\<close>

definition mmap_at :: "entry list \<Rightarrow> nat \<Rightarrow> nat \<Rightarrow> nat \<Rightarrow> bytes \<Rightarrow> bytes \<Rightarrow> nat \<Rightarrow> 64 word \<times> 64 word \<Rightarrow> 'm master_scheme \<Rightarrow> bool" where
  "mmap_at h0 d a v before d0 k s w = (k \<le> length d0 \<and> (k = length d0 \<or> k mod PAGE_SIZE = 0) \<and>
     s = (of_nat k, of_nat (length d0 - k)) \<and> mapped_ready h0 d a v w \<and> file_data w = d0 \<and>
     sent_on a (drop (length h0) (klog w)) = before @ take k d0)"

lemma mmap_at_step:
  assumes "mmap_at h0 d a v before d0 k s w" "k < length d0" "length d0 < 2 ^ 63"
  shows "wp (master_mmap_step (int d) v s) (\<lambda>s' w'. \<exists>k' > k. mmap_at h0 d a v before d0 k' s' w') never w"
proof -
  let ?s = "min (length d0 - k) PAGE_SIZE"
  have at: "k mod PAGE_SIZE = 0" "s = (of_nat k, of_nat (length (file_data w) - k))" "mapped_ready h0 d a v w"
      "file_data w = d0" "sent_on a (drop (length h0) (klog w)) = before @ take k d0"
    using assms(1,2) by (auto simp: mmap_at_def)
  have more: "k + ?s \<le> length d0" "k + ?s = length d0 \<or> (k + ?s) mod PAGE_SIZE = 0" "k < k + ?s"
    using assms(2) at(1) by (auto simp: min_def PAGE_SIZE_def)
  have "wp (master_mmap_step (int d) v s) (\<lambda>s' w'. s' = (of_nat (k + ?s), of_nat (length d0 - (k + ?s))) \<and>
       mapped_ready h0 d a v w' \<and> file_data w' = d0 \<and>
       sent_on a (drop (length h0) (klog w')) = before @ take k d0 @ take ?s (drop k d0)) never w"
    using master_mmap_round [OF at(3) _ at(1)] assms(2,3) at(2,4,5) by simp
  then show ?thesis
  proof (rule wp_mono)
    fix s' :: "64 word \<times> 64 word" and w' :: "'a master_scheme"
    assume "s' = (of_nat (k + ?s), of_nat (length d0 - (k + ?s))) \<and> mapped_ready h0 d a v w' \<and> file_data w' = d0 \<and>
       sent_on a (drop (length h0) (klog w')) = before @ take k d0 @ take ?s (drop k d0)"
    with more have "mmap_at h0 d a v before d0 (k + ?s) s' w'"
      unfolding mmap_at_def by (simp only: take_add append_assoc)
    with more(3) show "\<exists>k' > k. mmap_at h0 d a v before d0 k' s' w'" by blast
  qed simp
qed

lemma mmap_at_more: "mmap_at h0 d a v before d0 k (off, remain) w \<Longrightarrow> length d0 < 2 ^ 63 \<Longrightarrow> (0 < remain) = (k < length d0)"
  using word_facts(1) [of "length d0 - k"] by (auto simp: mmap_at_def word_gt_0 unat_eq_0 [symmetric])

lemma mmap_at_size: "mmap_at h0 d a v before d0 k s w \<Longrightarrow> length d0 < 2 ^ 63 \<Longrightarrow> unat (snd s) = length d0 - k"
  using word_facts(1) [of "length d0 - k"] by (auto simp: mmap_at_def simp del: of_nat_diff)

lemma master_mmap_loop:
  assumes "mmap_at h0 d a v before d0 0 s w" "d0 \<noteq> []" "length d0 < 2 ^ 63"
  shows "wp (doM (\<lambda>(offset, remain). 0 < remain) (master_mmap_step (int d) v) s)
    (\<lambda>s' w'. mmap_at h0 d a v before d0 (length d0) s' w') never w"
  unfolding wp_doM
proof (rule wp_mono [OF mmap_at_step [OF assms(1) _ assms(3)]])
  show "0 < length d0" using assms(2) by simp
  fix s1 w1
  assume "\<exists>k' > 0. mmap_at h0 d a v before d0 k' s1 w1"
  then have start: "\<exists>k. mmap_at h0 d a v before d0 k s1 w1" by blast
  show "wp (whileM (\<lambda>(offset, remain). 0 < remain) (master_mmap_step (int d) v) s1)
      (\<lambda>s' w'. mmap_at h0 d a v before d0 (length d0) s' w') never w1"
  proof (rule wp_whileM [where I = "\<lambda>s w. \<exists>k. mmap_at h0 d a v before d0 k s w"
        and \<mu> = "\<lambda>s w. unat (snd s)"])
    show "\<exists>k. mmap_at h0 d a v before d0 k s1 w1" by (rule start)
  next
    fix s2 w2
    assume "\<exists>k. mmap_at h0 d a v before d0 k s2 w2" and "case s2 of (offset, remain) \<Rightarrow> 0 < remain"
    then obtain k off r where s2: "s2 = (off, r)" "0 < r" and "mmap_at h0 d a v before d0 k (off, r) w2"
      by (cases s2) auto
    with mmap_at_more [OF this(3) assms(3)] have k: "mmap_at h0 d a v before d0 k s2 w2" "k < length d0" by simp_all
    show "wp (master_mmap_step (int d) v s2) (\<lambda>s' w'. (\<exists>k. mmap_at h0 d a v before d0 k s' w') \<and>
        unat (snd s') < unat (snd s2)) never w2"
    proof (rule wp_mono [OF mmap_at_step [OF k assms(3)]], goal_cases)
      case (1 s' w')
      then obtain k' where k': "k < k'" "mmap_at h0 d a v before d0 k' s' w'" by blast
      with mmap_at_size [OF k'(2) assms(3)] mmap_at_size [OF k(1) assms(3)] k(2) show ?case by auto
    qed simp
  next
    fix s2 w2
    assume "\<exists>k. mmap_at h0 d a v before d0 k s2 w2" and "\<not> (case s2 of (offset, remain) \<Rightarrow> 0 < remain)"
    then obtain k off r where "s2 = (off, r)" "\<not> 0 < r" and "mmap_at h0 d a v before d0 k (off, r) w2"
      by (cases s2) auto
    with mmap_at_more [OF this(3) assms(3)]
    have k: "mmap_at h0 d a v before d0 k s2 w2" "\<not> k < length d0" by simp_all
    then have "k = length d0" by (simp add: mmap_at_def)
    with k(1) show "mmap_at h0 d a v before d0 (length d0) s2 w2" by simp
  qed
qed simp

section \<open>Before and after the loop\<close>

text \<open>Nothing has been sent and the file is as it was.\<close>

definition quiet :: "'m machine_scheme \<Rightarrow> 'm machine_scheme \<Rightarrow> bool" where
  "quiet w w' = (env_of w' = env_of w \<and> file_data w' = file_data w \<and>
     (\<exists>h. klog w' = klog w @ h \<and> (\<forall>a. sent_on a h = [])))"

lemma quiet_trans: "quiet w1 w2 \<Longrightarrow> quiet w2 w3 \<Longrightarrow> quiet w1 w3"
  by (auto simp: quiet_def sent_on_def)

lemma quiet_log: "(\<And>a. message_to a c = []) \<Longrightarrow> quiet w w' \<Longrightarrow> quiet w (log_call c r bs w')"
  by (auto simp: quiet_def)

lemma quiet_refl [simp]: "quiet w w"
  by (simp add: quiet_def)

lemma quiet_update [simp]:
  "quiet w (w'\<lparr>infos := I\<rparr>) = quiet w w'" "quiet w (w'\<lparr>pages := P\<rparr>) = quiet w w'"
  "quiet w (w'\<lparr>unused_address := u\<rparr>) = quiet w w'" "quiet w (w'\<lparr>private_data := D\<rparr>) = quiet w w'"
  "quiet w (w'\<lparr>socks := S\<rparr>) = quiet w w'" "quiet w (w'\<lparr>file_pos := n\<rparr>) = quiet w w'"
  "quiet w (w'\<lparr>vmas := V\<rparr>) = quiet w w'"
  by (simp_all add: quiet_def)

lemma quiet_statics [simp]:
  "quiet w (sockfd_cli_update f w') = quiet w w'" "quiet w (addr_cli_update g w') = quiet w w'"
  "quiet w (addr_len_update i w') = quiet w w'"
  by (simp_all add: quiet_def)

lemma open_master_ok:
  assumes "calls_succeed (env_of w)"
  shows "wp open_master (\<lambda>d w'. 0 \<le> d \<and> device_open (nat d) w' \<and> quiet w w' \<and> socks w' = socks w \<and>
    machine.more w' = machine.more w) never w"
  using assms
  by (simp add: master_calls master_open_def wp_rules wp_kmalloc_info wp_get_zeroed_page calls_succeedD
      device_open_def quiet_log Let_def)

lemma same_master:
  fixes w w' :: "'m master_scheme"
  assumes "machine.more w = machine.more w'"
  shows "sockfd_srv w = sockfd_srv w'" "sockfd_cli w = sockfd_cli w'"
  using assms by (cases w; cases w'; simp)+

text \<open>A listening server, and a socket layer that has a new socket for the next connection.\<close>

definition server_ready :: "nat \<Rightarrow> 'm master_scheme \<Rightarrow> bool" where
  "server_ready s w = (calls_succeed (env_of w) \<and> sockfd_srv w = Some s \<and> socks w s \<noteq> None \<and>
     (\<forall>h. \<exists>b k. new_socket (env_of w) h = Some (b, k) \<and> socks w b = None))"

lemma master_connect_ok:
  assumes "server_ready s w" "device_open d w"
  shows "wp (ioctl_master (int d) 0x12345677 0) (\<lambda>r w'. r = 0 \<and> device_open d w' \<and> quiet w w' \<and>
    file_pos w' = file_pos w \<and>
    (\<exists>a k k' c. sockfd_cli w' = Some a \<and> socks w' a = Some k \<and> socks w s = Some k' \<and> socks w a = None \<and>
      (Op (sk_ops k') s (Accept a 0), c) \<in> set (calls w'))) never w"
proof -
  obtain k where ok: "calls_succeed (env_of w)" "sockfd_srv w = Some s" "socks w s = Some k"
    using assms(1) by (auto simp: server_ready_def)
  obtain b n where new: "new_socket (env_of w) (klog w) = Some (b, n)" "socks w b = None"
    using assms(1) unfolding server_ready_def by blast
  with ok(3) have "b \<noteq> s" by auto
  with ok new assms(2) show ?thesis
    by (simp add: master_calls master_IOCTL_values master_ioctl_def master_createsock_def kaccept_def
        wp_rules wp_sock_create socket_run wp_inet_ntoa calls_succeedD sys_result_def device_open_def
        quiet_log Let_def) blast
qed

lemma master_end_ok:
  assumes "calls_succeed (env_of w)" "sockfd_cli w = Some a" "socks w a = Some k"
  shows "wp (ioctl_master d 0x12345679 0) (\<lambda>r w'. r = 0 \<and> quiet w w' \<and> calls_succeed (env_of w') \<and>
    memory w' = memory w) never w"
  using assms
  by (simp add: master_calls master_IOCTL_values master_ioctl_def wp_rules socket_run calls_succeedD
      sys_result_def quiet_log memory_def Let_def)

section \<open>Whole runs\<close>

text \<open>Connected over \<open>a\<close>, with \<open>sent\<close> handed over since the log was \<open>h0\<close>.\<close>

definition session :: "entry list \<Rightarrow> nat \<Rightarrow> nat \<Rightarrow> bytes \<Rightarrow> bool \<Rightarrow> 'm master_scheme \<Rightarrow> bool" where
  "session h0 d a sent mapped w = (calls_succeed (env_of w) \<and> prefix h0 (klog w) \<and> sockfd_cli w = Some a \<and>
     (\<exists>k. socks w a = Some k) \<and> (\<exists>p i. private_data w d = Some p \<and> infos w p = Some i) \<and>
     sent_on a (drop (length h0) (klog w)) = sent)"

lemma quiet_calls: "quiet w w' \<Longrightarrow> set (calls w) \<subseteq> set (calls w')"
  by (auto simp: quiet_def calls_def)

lemma quiet_sent: "quiet w w' \<Longrightarrow> prefix h0 (klog w) \<Longrightarrow> prefix h0 (klog w') \<and>
    sent_on a (drop (length h0) (klog w')) = sent_on a (drop (length h0) (klog w))"
  by (auto simp: quiet_def prefix_def sent_on_def)

lemma master_finish:
  assumes "session h0 d a sent mapped w"
  shows "wp (bind (ioctl_master (int d) 0x12345679 0) (\<lambda>r.
       if r = -1 then andThen (perror (line ''ioclt server exits error'')) (exit_main 1)
       else bind (do_call (Report n)) (\<lambda>_. bind (do_call Close_file) (\<lambda>_.
         andThen (close_master (int d) mapped) (exit_main 0)))))
    (\<lambda>_ _. False) (\<lambda>s w'. s = Exited 0 \<and> quiet w w') w"
proof -
  obtain k p i where ok: "calls_succeed (env_of w)" "sockfd_cli w = Some a" "socks w a = Some k"
      "private_data w d = Some p" "infos w p = Some i"
    using assms by (auto simp: session_def)
  show ?thesis unfolding wp_bind
  proof (rule wp_mono [OF master_end_ok [OF ok(1-3)]], goal_cases)
    case (1 r w')
    then have "private_data w' d = Some p" "infos w' p = Some i" using ok by (simp_all add: memory_def)
    with 1 show ?case
      by (cases "data i") (auto simp: wp_rules master_calls master_close_def quiet_log)
  qed simp
qed

lemma master_map_ok:
  assumes "calls_succeed (env_of w)" "device_open d w" "sockfd_cli w = Some a" "socks w a = Some k"
    and "prefix h0 (klog w)"
  shows "wp (map_device master_fops d) (\<lambda>r w'. \<exists>v. r = Some v \<and> mapped_ready h0 d a v w' \<and> quiet w w') never w"
  using assms
  by (auto simp: map_device_def master_fops_def wp_rules calls_succeedD mmap_mmap_run device_open_def mapped_ready_def
      Let_def quiet_log)

lemma mapped_session: "mapped_ready h0 d a v w \<Longrightarrow> sent_on a (drop (length h0) (klog w)) = sent \<Longrightarrow>
    session h0 d a sent mapped w"
  by (auto simp: mapped_ready_def session_def)

lemma ready_session: "master_ready h0 d a w \<Longrightarrow> sent_on a (drop (length h0) (klog w)) = sent \<Longrightarrow>
    session h0 d a sent mapped w"
  by (auto simp: master_ready_def session_def)

lemma master_fcntl_session:
  assumes "calls_succeed (env_of w)" "device_open d w" "sockfd_cli w = Some a" "socks w a = Some k"
    and "prefix h0 (klog w)" "sent_on a (drop (length h0) (klog w)) = []" "file_pos w = 0"
  shows "wp (bind master_fcntl (\<lambda>_. return ())) (\<lambda>_ w'. session h0 d a (file_data w) mapped w') never w"
proof -
  have "master_ready h0 d a w" using assms by (auto simp: master_ready_def device_open_def)
  then show ?thesis unfolding wp_bind wp_return
    by (rule wp_mono [OF master_fcntl_copies]) (use assms in \<open>auto intro: ready_session\<close>)
qed

lemma master_mmap_session:
  assumes "calls_succeed (env_of w)" "device_open d w" "sockfd_cli w = Some a" "socks w a = Some k"
    and "prefix h0 (klog w)" "sent_on a (drop (length h0) (klog w)) = []"
    and "file_data w \<noteq> []" "length (file_data w) < 2 ^ 63"
  shows "wp (master_mmap (int d) (of_nat (length (file_data w)))) (\<lambda>_ w'. session h0 d a (file_data w) mapped w') never w"
  unfolding master_mmap_def wp_bind nat_int
proof (rule wp_mono [OF master_map_ok [OF assms(1-5)]], goal_cases)
  case (1 r w1)
  then obtain v where r: "r = Some v" and v: "mapped_ready h0 d a v w1" "quiet w w1" by blast
  have "mmap_at h0 d a v [] (file_data w) 0 (0, of_nat (length (file_data w))) w1"
    using v quiet_sent [OF v(2) assms(5)] assms(6) by (simp add: mmap_at_def quiet_def)
  from master_mmap_loop [OF this assms(7,8)] show ?case
    unfolding r option.case wp_bind wp_return
    by (rule wp_mono) (auto simp: mmap_at_def intro: mapped_session)
qed simp

text \<open>The method names a way of copying; the empty file cannot be mapped.\<close>

definition method_ok :: "string \<Rightarrow> bytes \<Rightarrow> bool" where
  "method_ok meth d = (meth \<noteq> [] \<and> (hd meth = CHR ''f'' \<or>
     hd meth = CHR ''m'' \<and> d \<noteq> [] \<and> length d < 2 ^ 63))"

lemma listening_server: "server_ready 7 (listening_master d)"
  by (simp add: server_ready_def sample_calls_succeed)

lemma server_quiet: "server_ready s w \<Longrightarrow> quiet w w' \<Longrightarrow> sockfd_srv w' = sockfd_srv w \<Longrightarrow> socks w' = socks w \<Longrightarrow>
    server_ready s w'"
  by (simp add: server_ready_def quiet_def)

lemma master_copy_session:
  assumes "calls_succeed (env_of w)" "device_open d w" "sockfd_cli w = Some a" "socks w a = Some k"
    and "file_pos w = 0" "method_ok meth (file_data w)"
  shows "wp (if first_char meth = CHR ''f'' then bind master_fcntl (\<lambda>_. return ())
      else if first_char meth = CHR ''m'' then master_mmap (int d) (of_nat (length (file_data w)))
      else return ())
    (\<lambda>_ w'. session (klog w) d a (file_data w) mapped w') never w"
  using assms master_fcntl_session [OF assms(1-4), of "klog w"] master_mmap_session [OF assms(1-4), of "klog w"]
  by (auto simp: method_ok_def first_char_hd)

text \<open>The program after the device and the file have been opened.\<close>

definition master_session :: "string \<Rightarrow> int \<Rightarrow> 64 word \<Rightarrow> ('m master_scheme, unit) prog" where
  "master_session meth d n = bind (ioctl_master d 0x12345677 0) (\<lambda>r.
     if r = -1 then andThen (perror (line ''ioclt server create socket error'')) (exit_main 1)
     else
       andThen (if first_char meth = CHR ''f'' then bind master_fcntl (\<lambda>_. return ())
         else if first_char meth = CHR ''m'' then master_mmap d n
         else return ())
       (bind (ioctl_master d 0x12345679 0) (\<lambda>r.
        if r = -1 then andThen (perror (line ''ioclt server exits error'')) (exit_main 1)
        else bind (do_call (Report n)) (\<lambda>_. bind (do_call Close_file) (\<lambda>_.
          andThen (close_master d (first_char meth = CHR ''m'')) (exit_main 0))))))"

lemma master_after_open:
  assumes "server_ready s w" "socks w s = Some ks" "device_open d w" "file_pos w = 0"
    and "method_ok meth (file_data w)"
  shows "wp (master_session meth (int d) (of_nat (length (file_data w))))
    (\<lambda>_ _. False) (\<lambda>st w'. st = Exited 0 \<and> prefix (klog w) (klog w') \<and> (\<exists>a c. socks w a = None \<and>
      (Op (sk_ops ks) s (Accept a 0), c) \<in> set (calls w') \<and>
      sent_on a (drop (length (klog w)) (klog w')) = file_data w)) w"
  unfolding master_session_def wp_bind
proof (rule wp_mono [OF master_connect_ok [OF assms(1,3)]], goal_cases)
  case (1 r w1)
  then obtain a k c where 1: "r = 0" "device_open d w1" "quiet w w1" "file_pos w1 = 0"
      "sockfd_cli w1 = Some a" "socks w1 a = Some k" "socks w a = None"
      "(Op (sk_ops ks) s (Accept a 0), c) \<in> set (calls w1)"
    using assms(2,4) by auto
  then have ok: "calls_succeed (env_of w1)" "file_data w1 = file_data w"
    using assms(1) by (simp_all add: quiet_def server_ready_def)
  have meth: "method_ok meth (file_data w1)" using assms(5) ok(2) by simp
  have new: "socks w a = None" "(Op (sk_ops ks) s (Accept a 0), c) \<in> set (calls w1)" using 1 by simp_all
  obtain h1 where h1: "klog w1 = klog w @ h1" "sent_on a h1 = []" using 1(3) by (auto simp: quiet_def)
  have go: "r \<noteq> -1" using 1(1) by simp
  show ?case
    unfolding if_not_P [OF go] wp_andThen
  proof (rule wp_mono [OF master_copy_session [OF ok(1) 1(2,5,6,4) meth, unfolded ok(2), where mapped = "first_char meth = CHR ''m''"]], goal_cases)
    case (1 u w2)
    show ?case
    proof (rule wp_mono [OF master_finish [OF 1, of "of_nat (length (file_data w))"]], goal_cases)
      case (2 st w3)
      have "sent_on a (drop (length (klog w1)) (klog w3)) = file_data w" "prefix (klog w1) (klog w3)"
        using quiet_sent [of w2 w3 "klog w1"] 1 2 by (auto simp: session_def)
      then have sent: "sent_on a (drop (length (klog w)) (klog w3)) = file_data w"
        using h1 by (auto simp: prefix_def sent_on_def)
      have "set (calls w1) \<subseteq> set (calls w3)"
        using \<open>prefix (klog w1) (klog w3)\<close> by (auto simp: prefix_def calls_def)
      moreover have "prefix (klog w) (klog w3)"
        using \<open>prefix (klog w1) (klog w3)\<close> h1(1) by (auto simp: prefix_def)
      ultimately show ?case using sent 2 new by blast
    qed simp
  qed simp
qed simp

definition file_opened :: "string \<Rightarrow> 'm machine_scheme \<Rightarrow> 'm machine_scheme" where
  "file_opened name w = (let w1 = log_call (Open_file name) (answer (env_of w) (klog w) (Open_file name)) [] w\<lparr>file_pos := 0\<rparr>
     in log_call (Stat name) (answer (env_of w) (klog w1) (Stat name)) [] w1)"

lemma wp_open_and_size:
  assumes "calls_succeed (env_of w)"
  shows "wp (bind (open_regular name False) (\<lambda>fd. if fd < 0 then m else bind (get_filesize name) f)) Q E w =
    wp (f (of_nat (length (file_data w)))) Q E (file_opened name w)"
  using assms by (simp add: open_regular_def get_filesize_def wp_rules calls_succeedD file_opened_def Let_def)

lemma file_opened_ready:
  assumes "server_ready s w" "device_open d w"
  shows "server_ready s (file_opened name w)" "device_open d (file_opened name w)"
    "file_pos (file_opened name w) = 0" "quiet w (file_opened name w)" "socks (file_opened name w) = socks w"
    "file_data (file_opened name w) = file_data w"
  using assms by (auto simp: file_opened_def server_ready_def device_open_def quiet_log Let_def)

lemma master_main_enter:
  assumes "server_ready s w" "length name < 50" "length meth < 20"
    and run: "\<And>d w1. server_ready s w1 \<Longrightarrow> device_open d w1 \<Longrightarrow> file_pos w1 = 0 \<Longrightarrow> quiet w w1 \<Longrightarrow>
      socks w1 = socks w \<Longrightarrow> wp (master_session meth (int d) (of_nat (length (file_data w)))) (\<lambda>_ _. False) P w1"
  shows "wp (master_main [prog, name, meth]) (\<lambda>_ _. False) P w"
  unfolding master_main_def wp_bind copy_arg_def using assms(2,3)
proof (simp add: wp_sprintf, intro wp_mono [OF open_master_ok], goal_cases)
  case 1
  then show ?case using assms(1) by (simp add: server_ready_def)
next
  case (2 d w1)
  then have w1: "0 \<le> d" "device_open (nat d) w1" "quiet w w1" "socks w1 = socks w"
    "server_ready s w1" "calls_succeed (env_of w1)"
    using assms(1) same_master [of w1 w] by (auto simp: server_ready_def quiet_def)
  note w2 = file_opened_ready [OF w1(5,2), of name]
  have same: "quiet w (file_opened name w1)" "file_data w1 = file_data w" "socks (file_opened name w1) = socks w"
    using quiet_trans [OF w1(3) w2(4)] w1(3,4) w2(5) by (simp_all add: quiet_def)
  have d: "\<not> d < 0" "int (nat d) = d" using w1(1) by simp_all
  show ?case
    unfolding if_not_P [OF d(1)] wp_open_and_size [OF w1(6)] same(2)
    by (rule run [OF w2(1,2,3) same(1,3), unfolded master_session_def d(2)])
qed simp_all

text \<open>The connection over which \<open>d\<close> has been handed over between two states.\<close>

definition handed_over :: "nat \<Rightarrow> bytes \<Rightarrow> 'm machine_scheme \<Rightarrow> 'm machine_scheme \<Rightarrow> nat \<Rightarrow> bool" where
  "handed_over s d w w' a = (socks w a = None \<and>
     (\<exists>ks c. socks w s = Some ks \<and> (Op (sk_ops ks) s (Accept a 0), c) \<in> set (calls w')) \<and>
     sent_on a (drop (length (klog w)) (klog w')) = d)"

lemma master_main_run:
  assumes "server_ready s w" "length name < 50" "length meth < 20" "method_ok meth (file_data w)"
  shows "\<exists>w' a. master_main [prog, name, meth] w = Some (Halt (Exited 0), w') \<and> handed_over s (file_data w) w w' a"
proof -
  obtain ks where ks: "socks w s = Some ks" using assms(1) by (auto simp: server_ready_def)
  have "wp (master_main [prog, name, meth]) (\<lambda>_ _. False) (\<lambda>st w'. st = Exited 0 \<and> (\<exists>a. handed_over s (file_data w) w w' a)) w"
  proof (rule master_main_enter [OF assms(1-3)], goal_cases)
    case (1 d w1)
    then obtain h where h: "klog w1 = klog w @ h" "\<And>a. sent_on a h = []" "file_data w1 = file_data w"
      by (auto simp: quiet_def)
    note run = master_after_open [OF 1(1) _ 1(2,3), of ks meth, unfolded 1(5) h(3), OF ks assms(4)]
    show ?case
    proof (rule wp_mono [OF run], goal_cases)
      case (2 st w')
      have "sent_on a (drop (length (klog w)) (klog w')) = sent_on a (drop (length (klog w1)) (klog w'))" for a
        using 2 h by (auto simp: prefix_def sent_on_def)
      with 2 ks show ?case by (auto simp: handed_over_def)
    qed simp
  qed
  then show ?thesis unfolding wp_ends by blast
qed



text \<open>C40: Told to send an empty file with \<open>mmap\<close>, the program accepts a connection, asks for a mapping of 0 bytes,
  and exits with -1: nothing is sent, and the connection is left open, with no request to end it.\<close>
theorem master_mmap_empty:
  assumes "server_ready s w" "length name < 50" "length meth < 20" "meth \<noteq> []" "hd meth = CHR ''m''"
    and "file_data w = []"
  shows "\<exists>w' a. master_main [prog, name, meth] w = Some (Halt (Exited (-1)), w') \<and> socks w a = None \<and>
    sockfd_cli w' = Some a \<and> socks w' a \<noteq> None \<and> sent_on a (drop (length (klog w)) (klog w')) = []"
proof -
  let ?fin = "\<lambda>st w'. st = Exited (-1) \<and> (\<exists>a. socks w a = None \<and>
    sockfd_cli w' = Some a \<and> socks w' a \<noteq> None \<and> sent_on a (drop (length (klog w)) (klog w')) = [])"
  have "wp (master_main [prog, name, meth]) (\<lambda>_ _. False) ?fin w"
  proof (rule master_main_enter [OF assms(1-3)], goal_cases)
    case (1 d w1)
    note quiet = 1(4) and same = 1(5)
    show ?case
      unfolding master_session_def wp_bind
    proof (rule wp_mono [OF master_connect_ok [OF 1(1,2)]], goal_cases)
      case (1 r w2)
      then obtain a k where w2: "r = 0" "device_open d w2" "quiet w1 w2" "sockfd_cli w2 = Some a"
        "socks w2 a = Some k" "socks w a = None" using 1 same by auto
      have "quiet w w2" by (rule quiet_trans [OF quiet w2(3)])
      then have ok: "calls_succeed (env_of w2)" using assms(1) by (simp add: server_ready_def quiet_def)
      have "wp (master_mmap (int d) 0) (\<lambda>_ _. False) ?fin w2"
        unfolding master_mmap_def wp_bind nat_int
      proof (rule wp_mono [OF master_map_ok [OF ok w2(2,4,5) prefix_order.refl]], goal_cases)
        case (1 v w3)
        then obtain u where u: "v = Some u" "mapped_ready (klog w2) d a u w3" "quiet w2 w3" by blast
        have "quiet w w3" by (rule quiet_trans [OF \<open>quiet w w2\<close> u(3)])
        then obtain h where h: "klog w3 = klog w @ h" "\<And>a. sent_on a h = []" by (auto simp: quiet_def)
        have "0 < (of_nat PAGE_SIZE :: 64 word)" by (simp add: PAGE_SIZE_def)
        moreover obtain k' where "calls_succeed (env_of w3)" "sockfd_cli w3 = Some a" "socks w3 a = Some k'"
          using u(2) by (auto simp: mapped_ready_def)
        ultimately show ?case
          using u(1) w2(6) h by (simp add: wp_doM master_mmap_step_def wp_rules wp_map_file Let_def)
      qed simp
      with w2(1) assms(4-6) show ?case
        by (simp add: wp_andThen first_char_hd, elim wp_mono) simp_all
    qed simp
  qed
  then show ?thesis unfolding wp_ends by blast
qed

theorem master_mmap_empty_sample:
  "\<exists>w' a. master_main [''master'', ''in'', ''mmap''] (listening_master []) = Some (Halt (Exited (-1)), w') \<and>
    sockfd_cli w' = Some a \<and> socks w' a \<noteq> None"
  using master_mmap_empty [OF listening_server [of "[]"], of "''in''" "''mmap''" "''master''"]
  by fastforce

end
