(* ===== verification/Slave_Program.thy ===== *)
theory Slave_Program
  imports User_Calls
begin

text \<open>
  \<open>prj2/src/sample/user_program/slave.c\<close>, on the system calls of the receiving device. The clock that
  the program reads is left out, and so is the time in what it prints.
\<close>

section \<open>The device's system calls\<close>

definition open_slave :: "('m slave_scheme, int) prog" where
  "open_slave = open_device slave_fops ''/dev/slave_device''"

definition read_slave :: "nat \<Rightarrow> ('m slave_scheme, 64 word \<times> bytes) prog" where
  "read_slave = read_device slave_fops"

definition ioctl_slave :: "int \<Rightarrow> 32 word \<Rightarrow> 64 word \<Rightarrow> string \<Rightarrow> ('m slave_scheme, int) prog" where
  "ioctl_slave = ioctl_device slave_fops"

definition close_slave :: "int \<Rightarrow> bool \<Rightarrow> ('m slave_scheme, unit) prog" where
  "close_slave = close_device slave_fops"

lemmas slave_calls = open_slave_def open_device_def read_slave_def read_device_def ioctl_slave_def
  ioctl_device_def close_slave_def close_device_def slave_fops_def

section \<open>slave.c\<close>

definition slave_fcntl_step :: "64 word \<times> 64 word \<Rightarrow> ('m slave_scheme, 64 word \<times> 64 word) prog" where
  "slave_fcntl_step = (\<lambda>(ret, file_size).
     bind (read_slave PAGE_SIZE) (\<lambda>(ret, buf).
     bind (write_file buf ret) (\<lambda>_.
     return (ret, file_size + ret))))"

definition slave_fcntl :: "('m slave_scheme, 64 word) prog" where
  "slave_fcntl = bind (doM (\<lambda>(ret, file_size). 0 < ret) slave_fcntl_step (0, 0)) (\<lambda>(ret, file_size).
     return file_size)"

text \<open>
  One round of the loop with \<open>mmap\<close>; the first component of the result is false after a \<open>break\<close>.
  The file grows by \<open>len\<close> bytes before its new end is mapped.
\<close>

definition grow_file :: "int \<Rightarrow> ('m machine_scheme, unit) prog" where
  "grow_file len = andThen (seek_end (len - 1)) (bind (write_file ''0'' 1) (\<lambda>_. return ()))"

definition slave_mmap_step :: "int \<Rightarrow> nat \<Rightarrow> bool \<times> int \<times> 64 word \<Rightarrow>
    ('m slave_scheme, bool \<times> int \<times> 64 word) prog" where
  "slave_mmap_step dev_fd kernel_address = (\<lambda>(go, offset, file_size).
     bind (ioctl_slave dev_fd 0x12345678 0 []) (\<lambda>len.
     if len = -1 then andThen (perror (line ''ioclt server krecive'')) (exit_main 1)
     else if len = 0 then return (False, offset, file_size)
     else
       andThen (grow_file len)
       (bind (map_file (nat len) offset) (\<lambda>mapped.
        if \<not> mapped then
          andThen (perror ''mmap operation failed or finish!'') (return (False, offset, file_size))
        else
          bind (device_page slave_remap_vm_ops kernel_address) (\<lambda>g.
          bind (page_bytes (Some g)) (\<lambda>bs.
          andThen (mapped_write (take (nat len) bs) (nat offset))
          (bind (do_call (Munmap_file (nat len))) (\<lambda>_.
           bind (add_i offset len) (\<lambda>offset.
           return (True, offset, file_size + word_of_int len))))))))))"

definition slave_mmap :: "int \<Rightarrow> ('m slave_scheme, 64 word) prog" where
  "slave_mmap dev_fd =
     bind (map_device slave_fops (nat dev_fd)) (\<lambda>kernel_address.
     case kernel_address of
       None \<Rightarrow> andThen (perror ''mmap operation failed'') (exit_main (-1))
     | Some v \<Rightarrow>
         bind (doM (\<lambda>(go, offset, file_size). go) (slave_mmap_step dev_fd v) (True, 0, 0))
           (\<lambda>(go, offset, file_size). return file_size))"

definition slave_main :: "string list \<Rightarrow> ('m slave_scheme, unit) prog" where
  "slave_main argv =
     bind (copy_arg 50 argv 1) (\<lambda>file_name.
     bind (copy_arg 20 argv 2) (\<lambda>method.
     bind (copy_arg 20 argv 3) (\<lambda>ip.
     bind open_slave (\<lambda>dev_fd.
     if dev_fd < 0 then andThen (perror (line ''failed to open /dev/slave_device'')) (exit_main 1)
     else
       bind (open_regular file_name True) (\<lambda>file_fd.
       if file_fd < 0 then andThen (perror (line ''failed to open input file'')) (exit_main 1)
       else
         bind (ioctl_slave dev_fd 0x12345677 0 ip) (\<lambda>r.
         if r = -1 then andThen (perror (line ''ioclt create slave socket error'')) (exit_main 1)
         else
           bind (if first_char method = CHR ''f'' then slave_fcntl
             else if first_char method = CHR ''m'' then slave_mmap dev_fd
             else return 0) (\<lambda>file_size.
           bind (ioctl_slave dev_fd 0x12345679 0 []) (\<lambda>r.
           if r = -1 then andThen (perror (line ''ioclt client exits error'')) (exit_main 1)
           else
             bind (do_call (Report file_size)) (\<lambda>_.
             bind (do_call Close_file) (\<lambda>_.
             andThen (close_slave dev_fd (first_char method = CHR ''m''))
             (exit_main 0)))))))))))"

end
