(* ===== verification/Slave_Transfer.thy ===== *)
theory Slave_Transfer
  imports Slave_Program Copying Streams
begin

text \<open>
  The receiving program on a connection that delivers a stream of bytes in order, in pieces of any
  size, and then reports its end. With \<open>read\<close> and \<open>write\<close> the file becomes the stream; with \<open>mmap\<close> it
  does if every piece but the last is a whole page, and not otherwise.
\<close>

section \<open>The state\<close>

definition slave_ready :: "bytes \<Rightarrow> nat \<Rightarrow> nat \<Rightarrow> 'm slave_scheme \<Rightarrow> bool" where
  "slave_ready s d a w = (calls_succeed (env_of w) \<and> delivers (env_of w) a s \<and> s_sockfd_cli w = Some a \<and>
     (\<exists>k. socks w a = Some k) \<and> prefix (received_on a (klog w)) s \<and> file_pos w = length (file_data w) \<and>
     (\<exists>p i. private_data w d = Some p \<and> infos w p = Some i))"

definition stream_left :: "bytes \<Rightarrow> nat \<Rightarrow> 'm machine_scheme \<Rightarrow> bytes" where
  "stream_left s a w = drop (length (received_on a (klog w))) s"

lemma next_piece:
  assumes "delivers (env_of w) a s" "prefix (received_on a (klog w)) s"
  obtains bs where "next_message a w = Inr bs" "length bs \<le> PAGE_SIZE"
    "stream_left s a w = bs @ stream_left s a (after_message a w)" "bs = [] \<longrightarrow> stream_left s a w = []"
    "prefix (received_on a (klog (after_message a w))) s"
    "received_on a (klog (after_message a w)) = received_on a (klog w) @ bs"
proof -
  from assms(2) obtain rest where rest: "s = received_on a (klog w) @ rest" by (auto simp: prefix_def)
  have "0 < PAGE_SIZE" by (simp add: PAGE_SIZE_def)
  with assms(1) rest obtain bs rest' where "next_message a w = Inr bs" "rest = bs @ rest'" "length bs \<le> PAGE_SIZE"
      "bs = [] \<Longrightarrow> rest = []"
    unfolding delivers_def next_message_def by blast
  with rest that [of bs] show ?thesis by (simp add: stream_left_def after_message_def)
qed

section \<open>Copying with read and write\<close>

lemma overwrite_end: "overwrite (length old) bs old = old @ bs"
  by (simp add: overwrite_def)

lemma copied_to_user [simp]:
  "stream_left s a (log_call (Copy_to_user n) r [] w) = stream_left s a w"
  "slave_ready s d a (log_call (Copy_to_user n) r [] w') = slave_ready s d a w'"
  by (simp_all add: stream_left_def slave_ready_def)

lemma message_ready:
  "slave_ready s d a w \<Longrightarrow> prefix (received_on a (klog (after_message a w))) s \<Longrightarrow> slave_ready s d a (after_message a w)"
  by (auto simp: slave_ready_def after_message_def)

lemma message_file [simp]: "file_data (after_message a w) = file_data w"
  by (simp add: after_message_def)

interpretation slave_copy: copying "read_slave PAGE_SIZE" write_file "slave_ready s d a"
  "stream_left s a" file_data for s d a
proof unfold_locales
  fix w :: "'a slave_scheme"
  assume good: "slave_ready s d a w"
  then obtain k where k: "socks w a = Some k" "s_sockfd_cli w = Some a" and ok: "calls_succeed (env_of w)"
    by (auto simp: slave_ready_def)
  from good have "delivers (env_of w) a s" "prefix (received_on a (klog w)) s" by (simp_all add: slave_ready_def)
  then obtain bs where bs: "next_message a w = Inr bs" "length bs \<le> PAGE_SIZE"
    "stream_left s a w = bs @ stream_left s a (after_message a w)" "bs = [] \<longrightarrow> stream_left s a w = []"
    "prefix (received_on a (klog (after_message a w))) s"
    "received_on a (klog (after_message a w)) = received_on a (klog w) @ bs"
    by (rule next_piece)
  show "wp (read_slave PAGE_SIZE) (\<lambda>(ret, bs) w'. slave_ready s d a w' \<and>
      stream_left s a w = bs @ stream_left s a w' \<and> file_data w' = file_data w \<and>
      ret = of_nat (length bs) \<and> length bs \<le> PAGE_SIZE \<and> (bs = [] \<longrightarrow> stream_left s a w = [])) never w"
    using message_ready [OF good bs(5)] bs(2-4) calls_succeedD(7) [OF ok]
    by (simp add: slave_calls wp_bind wp_receive_msg [OF k(2,1) bs(1,2)] Let_def sys_result_def wp_return)
next
  fix w :: "'a slave_scheme" and bs :: bytes
  assume good: "slave_ready s d a w" and "length bs \<le> PAGE_SIZE"
  then show "wp (write_file bs (of_nat (length bs))) (\<lambda>_ w'. slave_ready s d a w' \<and>
      stream_left s a w' = stream_left s a w \<and> file_data w' = file_data w @ bs) never w"
    using size_is_small [of "length bs"]
    by (auto simp: write_file_def slave_ready_def size_limit_def PAGE_SIZE_def wp_rules calls_succeedD
        overwrite_end stream_left_def Let_def)
qed

lemma slave_fcntl_round: "slave_fcntl_step = slave_copy.one_round (\<lambda>(r, n) ret. (ret, n + ret))"
  by (auto simp: fun_eq_iff slave_fcntl_step_def slave_copy.one_round_def bind_def split: option.split)

lemma slave_fcntl_copies:
  assumes "slave_ready s d a w"
  shows "wp slave_fcntl (\<lambda>n w'. slave_ready s d a w' \<and> file_data w' = file_data w @ stream_left s a w \<and>
    n = of_nat (length (stream_left s a w))) never w"
proof -
  have "wp (doM (\<lambda>s. 0 < fst s) (slave_copy.one_round (\<lambda>(r, n) ret. (ret, n + ret))) (0, 0))
      (\<lambda>s' w'. slave_ready s d a w' \<and> stream_left s a w' = [] \<and> file_data w' = file_data w @ stream_left s a w \<and>
        snd s' = snd (0 :: 64 word, 0) + of_nat (length (stream_left s a w))) never w"
    by (rule slave_copy.loop_copies [where f = "\<lambda>n. n" and ret_of = fst and tally = snd, OF _ _ _ _ assms]) (simp_all add: split_def)
  then show ?thesis
    unfolding slave_fcntl_def slave_fcntl_round wp_bind case_prod_beta'
    by (rule wp_mono) (simp_all add: wp_rules)
qed

section \<open>Copying through the mapped page\<close>

definition slave_mapped :: "bytes \<Rightarrow> nat \<Rightarrow> nat \<Rightarrow> nat \<Rightarrow> 'm slave_scheme \<Rightarrow> bool" where
  "slave_mapped s d a v w = (calls_succeed (env_of w) \<and> delivers (env_of w) a s \<and> s_sockfd_cli w = Some a \<and>
     (\<exists>k. socks w a = Some k) \<and> prefix (received_on a (klog w)) s \<and>
     (\<exists>p i g page ar. private_data w d = Some p \<and> infos w p = Some i \<and> data i = Some g \<and>
       pages w g = Some page \<and> length page = PAGE_SIZE \<and> vmas w v = Some ar \<and> vm_private_data ar = Some p))"

lemma slave_IOCTL_values: "(0x12345677 :: 32 word) = slave_IOCTL_CREATESOCK"
  "(0x12345678 :: 32 word) = slave_IOCTL_MMAP" "(0x12345679 :: 32 word) = slave_IOCTL_EXIT"
  by (simp_all add: slave_IOCTL_CREATESOCK_def slave_IOCTL_MMAP_def slave_IOCTL_EXIT_def)

text \<open>The state after a piece \<open>bs\<close> has been received into the page \<open>g\<close>.\<close>

definition page_received :: "nat \<Rightarrow> nat \<Rightarrow> bytes \<Rightarrow> bytes \<Rightarrow> 'm slave_scheme \<Rightarrow> 'm slave_scheme" where
  "page_received a g bs page w = (let w1 = after_message a (w\<lparr>s_old_fs := fs w, fs := KERNEL_DS\<rparr>) in
     if bs = [] then w1 else w1\<lparr>pages := (pages w1)(g \<mapsto> bs @ drop (length bs) page)\<rparr>)"

lemma wp_slave_mmap_request:
  assumes "private_data w d = Some p" "infos w p = Some i" "data i = Some g" "pages w g = Some page"
    and "length page = PAGE_SIZE" "s_sockfd_cli w = Some a" "socks w a = Some k"
    and "next_message a w = Inr bs" "length bs \<le> PAGE_SIZE"
  shows "wp (ioctl_slave (int d) 0x12345678 0 []) Q E w = Q (int (length bs)) (page_received a g bs page w)"
proof -
  have msg: "next_message a (w\<lparr>s_old_fs := fs w, fs := KERNEL_DS\<rparr>) = Inr bs"
    using assms(8) by (simp add: next_message_def)
  have mem: "pages (after_message a w') = pages w'" "private_data (after_message a w') = private_data w'"
    "infos (after_message a w') = infos w'" for w' :: "'a slave_scheme"
    by (simp_all add: after_message_def)
  show ?thesis using assms
    by (simp add: slave_calls slave_IOCTL_values slave_ioctl_def wp_rules wp_krecv_message msg mem
        page_received_def sys_result_def Let_def)
qed

lemma wp_slave_page:
  assumes "vmas w v = Some ar" "vm_private_data ar = Some p" "infos w p = Some i" "data i = Some g"
  shows "wp (device_page slave_remap_vm_ops v) Q E w = Q g w"
  using assms by (simp add: device_page_def slave_remap_vm_ops_def slave_mmap_fault_def wp_rules)

lemma wp_grow_file:
  assumes "calls_succeed (env_of w)" "0 < n"
  shows "wp (grow_file (int n)) Q E w = Q () (log_call (Write_file ''0'') 1 [] w
    \<lparr>file_data := file_data w @ replicate (n - 1) (CHR 0x00) @ ''0'', file_pos := length (file_data w) + n\<rparr>)"
proof -
  have pos: "nat (int (length (file_data w)) + (int n - 1)) = length (file_data w) + (n - 1)"
    "0 \<le> int (length (file_data w)) + (int n - 1)" "Suc (length (file_data w) + (n - 1)) = length (file_data w) + n"
    using assms(2) by auto
  show ?thesis
    using assms pos
    by (simp add: grow_file_def seek_end_def write_file_def wp_rules size_limit_def calls_succeedD Let_def
        overwrite_def log_call_def)
qed

lemma page_received_simps [simp]:
  "file_data (page_received a g bs page w) = file_data w" "env_of (page_received a g bs page w) = env_of w"
  "klog (page_received a g bs page w) = klog (after_message a w\<lparr>fs := KERNEL_DS\<rparr>)"
  "infos (page_received a g bs page w) = infos w" "vmas (page_received a g bs page w) = vmas w"
  "private_data (page_received a g bs page w) = private_data w" "socks (page_received a g bs page w) = socks w"
  "s_sockfd_cli (page_received a g bs page w) = s_sockfd_cli w"
  by (simp_all add: page_received_def after_message_def next_message_def Let_def)

text \<open>One round: what it does with a piece \<open>bs\<close>, at a page boundary or not.\<close>

lemma slave_mmap_round:
  assumes mapped: "slave_mapped s d a v w" and old: "file_data w = old" and small: "length old + PAGE_SIZE < 2 ^ 31"
    and bs: "next_message a w = Inr bs" "length bs \<le> PAGE_SIZE"
    and after: "prefix (received_on a (klog (after_message a w))) s"
  shows "wp (slave_mmap_step (int d) v (go, int (length old), n)) (\<lambda>st w'. slave_mapped s d a v w' \<and> env_of w' = env_of w \<and>
      received_on a (klog w') = received_on a (klog (after_message a w)) \<and>
      (if bs = [] then st = (False, int (length old), n) \<and> file_data w' = old
       else if length old mod PAGE_SIZE \<noteq> 0 then st = (False, int (length old), n) \<and>
         file_data w' = old @ replicate (length bs - 1) (CHR 0x00) @ ''0''
       else st = (True, int (length old + length bs), n + of_nat (length bs)) \<and> file_data w' = old @ bs)) never w"
proof -
  obtain q p i g page ar where ok: "calls_succeed (env_of w)" "delivers (env_of w) a s" "s_sockfd_cli w = Some a"
      "socks w a = Some q" "private_data w d = Some p" "infos w p = Some i" "data i = Some g"
      "pages w g = Some page" "length page = PAGE_SIZE" "vmas w v = Some ar" "vm_private_data ar = Some p"
    using mapped by (auto simp: slave_mapped_def)
  note io = wp_slave_mmap_request [OF ok(5-9,3,4) bs]
  have pg: "pages (page_received a g bs page w) g = Some (if bs = [] then page else bs @ drop (length bs) page)"
    using ok(8) by (simp add: page_received_def after_message_def Let_def)
  have log: "klog (page_received a g bs page w) = klog w @ [\<lparr>at_fs = KERNEL_DS,
      the_call = Sock_recvmsg a PAGE_SIZE 0, result = int (length bs), received = bs\<rparr>]"
    "klog (after_message a w) = klog w @ [\<lparr>at_fs = KERNEL_DS,
      the_call = Sock_recvmsg a PAGE_SIZE 0, result = int (length bs), received = bs\<rparr>]"
    using bs(1) by (simp_all add: after_message_def page_received_def Let_def next_message_def)
  have mod: "(int (length old) mod int PAGE_SIZE = 0) = (length old mod PAGE_SIZE = 0)"
    by (metis of_nat_0_eq_iff zmod_int)
  have fits: "int (length old) + int (length bs) \<le> INT_MAX" using small bs(2) by simp
  show ?thesis
  proof (cases "bs = []")
    case True
    then show ?thesis using ok pg log after old
      by (simp add: slave_mmap_step_def wp_bind io wp_return slave_mapped_def)
  next
    case False
    then have n: "0 < length bs" "int (length bs) \<noteq> -1" "int (length bs) \<noteq> 0" by simp_all
    have grown: "overwrite (length old) bs (old @ replicate (length bs - 1) (CHR 0x00) @ ''0'') = old @ bs"
      using n(1) by (cases bs) (simp_all add: overwrite_def)

    show ?thesis
      using False ok pg log after n fits old mod grown le_add_diff_inverse [OF bs(2)]
      by (simp add: slave_mmap_step_def wp_rules io wp_grow_file wp_map_file wp_slave_page mapped_write_def
          slave_mapped_def split del: if_split)
  qed
qed

end
