(* ===== verification/Slave_Main.thy ===== *)
theory Slave_Main
  imports Slave_Transfer
begin

text \<open>
  Whole runs of \<open>slave.c\<close>: from opening the device to the end, with either method.
\<close>

section \<open>The loop with the mapped page\<close>

text \<open>
  What is left of a stream when a piece that is not a whole page was not the last: the file up to a
  position inside a page, then the bytes that \<open>lseek\<close> and \<open>write\<close> have made room with.
\<close>

definition damaged :: "bytes \<Rightarrow> bytes \<Rightarrow> bool" where
  "damaged s d = (\<exists>k m. 0 < m \<and> k + m \<le> length s \<and> k mod PAGE_SIZE \<noteq> 0 \<and>
     d = take k s @ replicate (m - 1) (CHR 0x00) @ ''0'')"

text \<open>At position \<open>k\<close>: the file holds the first \<open>k\<close> bytes of the stream, and these are received.\<close>

definition slave_at :: "env \<Rightarrow> bytes \<Rightarrow> nat \<Rightarrow> nat \<Rightarrow> nat \<Rightarrow> nat \<Rightarrow> bool \<times> int \<times> 64 word \<Rightarrow> 'm slave_scheme \<Rightarrow> bool" where
  "slave_at e s d a v k st w = (k \<le> length s \<and> env_of w = e \<and> slave_mapped s d a v w \<and> received_on a (klog w) = take k s \<and>
     file_data w = take k s \<and> snd st = (int k, of_nat k) \<and>
     (delivers_pages e a s \<longrightarrow> k mod PAGE_SIZE = 0 \<or> k = length s))"

definition slave_done :: "env \<Rightarrow> bytes \<Rightarrow> nat \<Rightarrow> nat \<Rightarrow> nat \<Rightarrow> 'm slave_scheme \<Rightarrow> bool" where
  "slave_done e s d a v w = (slave_mapped s d a v w \<and>
     (file_data w = s \<or> \<not> delivers_pages e a s \<and> damaged s (file_data w)))"

definition slave_loop :: "env \<Rightarrow> bytes \<Rightarrow> nat \<Rightarrow> nat \<Rightarrow> nat \<Rightarrow> bool \<times> int \<times> 64 word \<Rightarrow> 'm slave_scheme \<Rightarrow> bool" where
  "slave_loop e s d a v st w = (if fst st then \<exists>k. slave_at e s d a v k st w else slave_done e s d a v w)"

definition slave_measure :: "bytes \<Rightarrow> bool \<times> int \<times> 64 word \<Rightarrow> 'm machine_scheme \<Rightarrow> nat" where
  "slave_measure s st w = (if fst st then Suc (length s - length (file_data w)) else 0)"

lemma page_size_pieces: "delivers_pages e a s \<Longrightarrow> incoming e h (Sock_recvmsg a PAGE_SIZE f) = Inr bs \<Longrightarrow>
    s = received_on a h @ bs @ rest \<Longrightarrow> length bs = PAGE_SIZE \<or> rest = []"
  unfolding delivers_pages_def by blast

lemma slave_loop_step:
  assumes at: "slave_at e s d a v k st w" and go: "fst st" and small: "length s + PAGE_SIZE < 2 ^ 31"
  shows "wp (slave_mmap_step (int d) v st) (\<lambda>st' w'. slave_loop e s d a v st' w' \<and>
    slave_measure s st' w' < slave_measure s st w) never w"
proof -
  have k: "k \<le> length s" "slave_mapped s d a v w" "received_on a (klog w) = take k s" "file_data w = take k s"
      "env_of w = e" "delivers_pages e a s \<Longrightarrow> k mod PAGE_SIZE = 0 \<or> k = length s"
    and st: "st = (True, int (length (take k s)), of_nat k)"
    using at go by (auto simp: slave_at_def prod_eq_iff)
  have "delivers (env_of w) a s" "prefix (received_on a (klog w)) s"
    using k(2) by (auto simp: slave_mapped_def)
  then obtain bs where bs: "next_message a w = Inr bs" "length bs \<le> PAGE_SIZE"
    "stream_left s a w = bs @ stream_left s a (after_message a w)" "bs = [] \<longrightarrow> stream_left s a w = []"
    "prefix (received_on a (klog (after_message a w))) s"
    "received_on a (klog (after_message a w)) = received_on a (klog w) @ bs"
    by (rule next_piece)
  have left: "stream_left s a w = drop k s" using k(1,3) by (simp add: stream_left_def)
  with bs(3) obtain rest where rest: "drop k s = bs @ rest" by (metis (full_types))
  then have s: "s = take k s @ bs @ rest" by (metis append_take_drop_id)
  have fits: "k + length bs \<le> length s" using arg_cong [OF s, of length] k(1) by simp
  have grown: "take (k + length bs) s = take k s @ bs" using rest by (simp add: take_add)
  have small_file: "length (take k s) + PAGE_SIZE < 2 ^ 31" using small k(1) by simp
  have page: "length bs = PAGE_SIZE \<or> rest = []" if "delivers_pages e a s"
    using page_size_pieces [OF that [folded k(5)], of "klog w" 0 bs rest] bs(1) s k(3) by (simp add: next_message_def)
  show ?thesis
    unfolding st
  proof (rule wp_mono [OF slave_mmap_round [OF k(2,4) small_file bs(1,2,5)]], goal_cases)
    case (1 st' w')
    show ?case
    proof (cases "bs = []")
      case True
      then have "drop k s = []" using bs(4) left by simp
      with 1 True k(1,4) show ?thesis
        by (simp add: slave_loop_def slave_done_def slave_measure_def)
    next
      case False
      note 2 = False
      show ?thesis
      proof (cases "k mod PAGE_SIZE = 0")
        case True
        have whole: "(k + length bs) mod PAGE_SIZE = 0 \<or> k + length bs = length s"
          if "delivers_pages e a s"
        proof (cases "rest = []")
          case True
          then show ?thesis using arg_cong [OF s, of length] k(1) by simp
        next
          case False
          with page [OF that] True show ?thesis by simp
        qed
        then have "slave_at e s d a v (k + length bs) st' w'"
          using 1 2 True fits k(1,3,5) bs(6) grown by (simp add: slave_at_def)
        moreover have "length s - (k + length bs) < length s - k" using 2 fits by (cases bs) auto
        ultimately show ?thesis
          using 1 2 True fits k(1,4) by (auto simp: slave_loop_def slave_measure_def)
      next
        case False
        have "k \<noteq> length s" using 2 fits by (cases bs) auto
        then have "\<not> delivers_pages e a s" using k(6) False by blast
        moreover have "damaged s (take k s @ replicate (length bs - 1) (CHR 0x00) @ ''0'')"
          unfolding damaged_def using 2 False fits by blast
        ultimately show ?thesis
          using 1 2 False k(1) by (simp add: slave_loop_def slave_done_def slave_measure_def)
      qed
    qed
  qed simp
qed

lemma slave_mmap_loop:
  assumes "slave_at e s d a v k st w" "fst st" "length s + PAGE_SIZE < 2 ^ 31"
  shows "wp (doM (\<lambda>(go, offset, file_size). go) (slave_mmap_step (int d) v) st) (\<lambda>_ w'. slave_done e s d a v w') never w"
  unfolding wp_doM
proof (rule wp_mono [OF slave_loop_step [OF assms]], goal_cases)
  case (1 st1 w1)
  then have start: "slave_loop e s d a v st1 w1" by simp
  show ?case
  proof (rule wp_whileM [where I = "slave_loop e s d a v" and \<mu> = "slave_measure s"], rule start, goal_cases)
    case (1 st2 w2)
    then have go: "fst st2" by (cases st2) simp
    with 1 obtain k2 where "slave_at e s d a v k2 st2 w2" by (auto simp: slave_loop_def)
    from slave_loop_step [OF this go assms(3)] show ?case .
  next
    case (2 st2 w2)
    then show ?case by (cases st2) (simp add: slave_loop_def)
  qed
qed simp

section \<open>Before and after the loop\<close>

text \<open>The program's session: connected over \<open>a\<close>, with its device open and an empty file.\<close>

definition slave_connected :: "env \<Rightarrow> nat \<Rightarrow> nat \<Rightarrow> 'm slave_scheme \<Rightarrow> bool" where
  "slave_connected e d a w = (env_of w = e \<and> s_sockfd_cli w = Some a \<and> (\<exists>k. socks w a = Some k) \<and>
     device_open d w \<and> received_on a (klog w) = [] \<and> file_data w = [] \<and> file_pos w = 0)"

text \<open>The network: the next socket is \<open>a\<close>, and the connection over it delivers the stream \<open>s\<close>.\<close>

definition network_ready :: "bytes \<Rightarrow> nat \<Rightarrow> 'm slave_scheme \<Rightarrow> bool" where
  "network_ready s a w = (calls_succeed (env_of w) \<and> delivers (env_of w) a s \<and>
     (\<forall>h. \<exists>k. new_socket (env_of w) h = Some (a, k)) \<and> received_on a (klog w) = [])"

lemma open_slave_ok:
  assumes "calls_succeed (env_of w)"
  shows "wp open_slave (\<lambda>d w'. 0 \<le> d \<and> device_open (nat d) w' \<and> env_of w' = env_of w \<and>
    received_on a (klog w') = received_on a (klog w)) never w"
  using assms
  by (simp add: slave_calls slave_copies master_open_def wp_rules wp_kmalloc_info wp_get_zeroed_page calls_succeedD
      device_open_def Let_def)

lemma slave_connect_ok:
  assumes "calls_succeed (env_of w)" "\<And>h. \<exists>k. new_socket (env_of w) h = Some (a, k)" "device_open d w"
    and "received_on a (klog w) = []" "file_data w = []" "file_pos w = 0"
  shows "wp (ioctl_slave (int d) 0x12345677 0 (dotted ip)) (\<lambda>r w'. r = 0 \<and>
    slave_connected (env_of w) d a w') never w"
proof -
  obtain K where k: "\<And>h. new_socket (env_of w) h = Some (a, K h)" using assms(2) by metis
  show ?thesis
    using assms(1,3-6) k length_dotted [of ip]
    by (simp add: slave_calls slave_IOCTL_values slave_ioctl_def slave_createsock_def wp_rules inet_addr_def
        sscanf_dotted octets_word wp_ksocket wp_kconnect wp_inet_ntoa calls_succeedD sys_result_def device_open_def
        slave_connected_def Let_def)
qed

lemma slave_map_ok:
  assumes "slave_connected e d a w" "calls_succeed e" "delivers e a s"
  shows "wp (map_device slave_fops d) (\<lambda>r w'. \<exists>v. r = Some v \<and> slave_at e s d a v 0 (True, 0, 0) w') never w"
  using assms
  by (auto simp: map_device_def slave_fops_def wp_rules calls_succeedD slave_copies mmap_mmap_run device_open_def slave_connected_def
      slave_at_def slave_mapped_def Let_def)

section \<open>Whole runs\<close>

text \<open>What a session ends with: the stream in the file, or the damage of the method with \<open>mmap\<close>.\<close>

definition slave_result :: "env \<Rightarrow> nat \<Rightarrow> string \<Rightarrow> bytes \<Rightarrow> bytes \<Rightarrow> bool" where
  "slave_result e a meth s d = (d = s \<or> hd meth = CHR ''m'' \<and> \<not> delivers_pages e a s \<and> damaged s d)"

definition slave_live :: "nat \<Rightarrow> nat \<Rightarrow> 'm slave_scheme \<Rightarrow> bool" where
  "slave_live d a w = (calls_succeed (env_of w) \<and> s_sockfd_cli w = Some a \<and> (\<exists>k. socks w a = Some k) \<and>
     (\<exists>p i. private_data w d = Some p \<and> infos w p = Some i))"

lemma slave_fcntl_session:
  assumes "slave_connected e d a w" "calls_succeed e" "delivers e a s"
  shows "wp slave_fcntl (\<lambda>_ w'. slave_live d a w' \<and> file_data w' = s) never w"
proof -
  have "slave_ready s d a w" using assms by (auto simp: slave_ready_def slave_connected_def device_open_def)
  then show ?thesis
    by (rule wp_mono [OF slave_fcntl_copies])
      (use assms(1) in \<open>auto simp: slave_ready_def slave_live_def slave_connected_def stream_left_def\<close>)
qed

lemma slave_mmap_session:
  assumes "slave_connected e d a w" "calls_succeed e" "delivers e a s" "length s + PAGE_SIZE < 2 ^ 31"
  shows "wp (slave_mmap (int d)) (\<lambda>_ w'. slave_live d a w' \<and>
    (file_data w' = s \<or> \<not> delivers_pages e a s \<and> damaged s (file_data w'))) never w"
  unfolding slave_mmap_def wp_bind nat_int
proof (rule wp_mono [OF slave_map_ok [OF assms(1-3)]], goal_cases)
  case (1 r w1)
  then obtain v where r: "r = Some v" and v: "slave_at e s d a v 0 (True, 0, 0) w1" by blast
  show ?case
    unfolding r option.case wp_bind
    by (rule wp_mono [OF slave_mmap_loop [OF v _ assms(4)]])
      (auto simp: wp_rules slave_done_def slave_mapped_def slave_live_def split: prod.split)
qed simp

lemma slave_finish:
  assumes "slave_live d a w"
  shows "wp (bind (ioctl_slave (int d) 0x12345679 0 []) (\<lambda>r.
       if r = -1 then andThen (perror (line ''ioclt client exits error'')) (exit_main 1)
       else bind (do_call (Report n)) (\<lambda>_. bind (do_call Close_file) (\<lambda>_.
         andThen (close_slave (int d) mapped) (exit_main 0)))))
    (\<lambda>_ _. False) (\<lambda>st w'. st = Exited 0 \<and> file_data w' = file_data w) w"
proof -
  obtain k p i where ok: "calls_succeed (env_of w)" "s_sockfd_cli w = Some a" "socks w a = Some k"
      "private_data w d = Some p" "infos w p = Some i"
    using assms by (auto simp: slave_live_def)
  then show ?thesis
    by (cases "data i")
      (simp_all add: slave_calls slave_IOCTL_values slave_ioctl_def wp_rules socket_run calls_succeedD
        sys_result_def slave_calls slave_copies master_close_def Let_def)
qed

text \<open>The switch of the program.\<close>

definition slave_copying :: "string \<Rightarrow> int \<Rightarrow> ('m slave_scheme, 64 word) prog" where
  "slave_copying meth d = (if first_char meth = CHR ''f'' then slave_fcntl
     else if first_char meth = CHR ''m'' then slave_mmap d else return 0)"

lemma slave_copy_session:
  assumes "slave_connected e d a w" "calls_succeed e" "delivers e a s"
    and "meth \<noteq> []" "hd meth = CHR ''f'' \<or> hd meth = CHR ''m'' \<and> length s + PAGE_SIZE < 2 ^ 31"
  shows "wp (slave_copying meth (int d)) (\<lambda>_ w'. slave_live d a w' \<and> slave_result e a meth s (file_data w')) never w"
proof (cases "hd meth = CHR ''f''")
  case True
  with assms(4) show ?thesis
    by (simp add: slave_copying_def first_char_hd, intro wp_mono [OF slave_fcntl_session [OF assms(1-3)]])
      (simp_all add: slave_result_def)
next
  case False
  with assms(5) have m: "hd meth = CHR ''m''" "length s + PAGE_SIZE < 2 ^ 31" by auto
  with assms(4) show ?thesis
    by (simp add: slave_copying_def first_char_hd, intro wp_mono [OF slave_mmap_session [OF assms(1-3) m(2)]])
      (auto simp: slave_result_def)
qed

text \<open>
  The frame of a run around the copying: whatever \<open>R\<close> the copying makes of the file holds at the end.
\<close>

lemma slave_after_open:
  fixes w :: "'m slave_scheme"
  assumes "calls_succeed (env_of w)" "\<And>h. \<exists>k. new_socket (env_of w) h = Some (a, k)"
    and "device_open d w" "received_on a (klog w) = []" "file_data w = []" "file_pos w = 0"
    and copy: "\<And>w1. slave_connected (env_of w) d a w1 \<Longrightarrow>
      wp (slave_copying meth (int d)) (\<lambda>_ w'. slave_live d a w' \<and> R (file_data w')) never (w1 :: 'm slave_scheme)"
  shows "wp (bind (ioctl_slave (int d) 0x12345677 0 (dotted ip)) (\<lambda>r.
       if r = -1 then andThen (perror (line ''ioclt create slave socket error'')) (exit_main 1)
       else
         bind (slave_copying meth (int d)) (\<lambda>n.
         bind (ioctl_slave (int d) 0x12345679 0 []) (\<lambda>r.
         if r = -1 then andThen (perror (line ''ioclt client exits error'')) (exit_main 1)
         else bind (do_call (Report n)) (\<lambda>_. bind (do_call Close_file) (\<lambda>_.
           andThen (close_slave (int d) mapped) (exit_main 0)))))))
    (\<lambda>_ _. False) (\<lambda>st w'. st = Exited 0 \<and> R (file_data w')) w"
  unfolding wp_bind [of "ioctl_slave (int d) 0x12345677 0 (dotted ip)"]
proof (rule wp_mono [OF slave_connect_ok [OF assms(1-6)]], goal_cases)
  case (1 r w1)
  then have go: "r \<noteq> -1" and c: "slave_connected (env_of w) d a w1" by simp_all
  show ?case
    unfolding if_not_P [OF go] wp_bind [of "slave_copying meth (int d)"]
  proof (rule wp_mono [OF copy [OF c]], goal_cases)
    case (1 n w2)
    then have live: "slave_live d a w2" and res: "R (file_data w2)" by simp_all
    show ?case by (rule wp_mono [OF slave_finish [OF live]]) (use res in simp_all)
  qed simp
qed simp

lemma slave_main_run:
  fixes w :: "'m slave_scheme"
  assumes "network_ready s a w" "length name < 50" "length meth < 20"
    and copy: "\<And>d w1. slave_connected (env_of w) d a w1 \<Longrightarrow>
      wp (slave_copying meth (int d)) (\<lambda>_ w'. slave_live d a w' \<and> R (file_data w')) never (w1 :: 'm slave_scheme)"
  shows "\<exists>w'. slave_main [prog, name, meth, dotted ip] w = Some (Halt (Exited 0), w') \<and> R (file_data w')"
proof -
  have "wp (slave_main [prog, name, meth, dotted ip]) (\<lambda>_ _. False) (\<lambda>st w'. st = Exited 0 \<and> R (file_data w')) w"
    unfolding slave_main_def slave_copying_def [symmetric] wp_bind copy_arg_def using assms(2,3) length_dotted [of ip]
  proof (simp add: wp_sprintf, intro wp_mono [OF open_slave_ok [where a = a]], goal_cases)
    case 1
    then show ?case using assms(1) by (simp add: network_ready_def)
  next
    case (2 d w1)
    then have w1: "0 \<le> d" "device_open (nat d) w1" "env_of w1 = env_of w" "received_on a (klog w1) = []"
      using assms(1) by (simp_all add: network_ready_def)
    then have d: "\<not> d < 0" "int (nat d) = d" by simp_all
    let ?w = "log_call (Open_file name) (answer (env_of w1) (klog w1) (Open_file name)) [] w1\<lparr>file_pos := 0, file_data := []\<rparr>"
    have ok: "calls_succeed (env_of ?w)" "\<exists>k. new_socket (env_of ?w) h = Some (a, k)"
        "device_open (nat d) ?w" "received_on a (klog ?w) = []" "file_data ?w = []" "file_pos ?w = 0" "env_of ?w = env_of w" for h
      using assms(1) w1 by (simp_all add: network_ready_def device_open_def)
    note run = slave_after_open [OF ok(1-6), of meth R ip "first_char meth = CHR ''m''", unfolded ok(7), OF copy]
    have succ: "calls_succeed (env_of w1)" using ok(1) by simp
    show ?case
      unfolding if_not_P [OF d(1)]
      using run [unfolded d(2)] calls_succeedD(2) [OF succ]
      by (simp add: open_regular_def wp_bind wp_andThen wp_do_call wp_update wp_return w1(3))
  qed simp_all
  then show ?thesis unfolding wp_ends by blast
qed

lemma slave_main_result:
  assumes "network_ready s a w" "length name < 50" "length meth < 20" "meth \<noteq> []"
    and "hd meth = CHR ''f'' \<or> hd meth = CHR ''m'' \<and> length s + 4096 < 2 ^ 31"
  shows "\<exists>w'. slave_main [prog, name, meth, dotted ip] w = Some (Halt (Exited 0), w') \<and>
      slave_result (env_of w) a meth s (file_data w')"
proof -
  have ok: "calls_succeed (env_of w)" "delivers (env_of w) a s" using assms(1) by (simp_all add: network_ready_def)
  show ?thesis
    by (rule slave_main_run [OF assms(1-3) slave_copy_session [OF _ ok assms(4) assms(5) [folded PAGE_SIZE_def]]])
qed

text \<open>C7: The receiving program, on an environment in which calls succeed, given a stream that the
  connection delivers in pieces of any size: it exits with 0, and with \<open>read\<close> and \<open>write\<close> the file is
  then the stream. With \<open>mmap\<close> it is the stream too whenever every piece but the last is a whole page;
  otherwise it may stop at the first position that is not at a page boundary, leave a file that ends
  in filler, and still exit with 0.\<close>
theorem slave_writes_stream:
  assumes "network_ready s a w" "length name < 50" "length meth < 20" "meth \<noteq> []"
    and "hd meth = CHR ''f'' \<or> hd meth = CHR ''m'' \<and> length s + 4096 < 2 ^ 31"
  shows "\<exists>w'. slave_main [prog, name, meth, dotted ip] w = Some (Halt (Exited 0), w') \<and>
    (file_data w' = s \<or> hd meth = CHR ''m'' \<and> \<not> delivers_pages (env_of w) a s \<and> damaged s (file_data w'))"
  using slave_main_result [OF assms, of prog ip] unfolding slave_result_def .

theorem slave_writes_stream_sample:
  "\<exists>w'. slave_main [''slave'', ''out'', ''mmap'', dotted 0x0100007F] (waiting_slave (stream_env ''hello'')) =
     Some (Halt (Exited 0), w') \<and> file_data w' = ''hello''"
  using slave_writes_stream [of "''hello''" 8 "waiting_slave (stream_env ''hello'')" "''out''" "''mmap''" "''slave''" "0x0100007F"]
    stream_env_pages [of "''hello''" 8] stream_env_delivers [of "''hello''" 8]
  by (simp add: network_ready_def sample_calls_succeed)

section \<open>Pieces that are not whole pages\<close>

lemma slave_first_piece:
  assumes "slave_mapped s d a v w" "received_on a (klog w) = []" "file_data w = []"
    and "next_message a w = Inr bs" "bs \<noteq> []" "length bs < PAGE_SIZE" "prefix bs s"
  shows "wp (slave_mmap_step (int d) v (go, 0, n)) (\<lambda>st w'. slave_mapped s d a v w' \<and> file_data w' = bs \<and>
    received_on a (klog w') = bs \<and> fst st \<and> fst (snd st) = int (length bs)) never w"
proof -
  have got: "received_on a (klog (after_message a w)) = bs" using assms(2,4)
    by (simp add: after_message_def)
  have len: "length bs \<le> PAGE_SIZE" and pre: "prefix (received_on a (klog (after_message a w))) s"
    using assms(6,7) got by simp_all
  show ?thesis
    by (rule wp_mono [OF slave_mmap_round [OF assms(1,3) _ assms(4) len pre, simplified]])
      (use assms(5) got in \<open>auto simp: PAGE_SIZE_def\<close>)
qed

lemma slave_second_piece:
  assumes "slave_mapped s d a v w" "received_on a (klog w) = file_data w" "file_data w \<noteq> []"
    and "length (file_data w) < PAGE_SIZE" "file_data w \<noteq> s"
  shows "wp (slave_mmap_step (int d) v (go, int (length (file_data w)), n)) (\<lambda>st w'. slave_mapped s d a v w' \<and>
    \<not> fst st \<and> (\<exists>m. file_data w' = file_data w @ replicate m (CHR 0x00) @ ''0'')) never w"
proof -
  have "delivers (env_of w) a s" "prefix (received_on a (klog w)) s" using assms(1) by (auto simp: slave_mapped_def)
  then obtain bs where bs: "next_message a w = Inr bs" "length bs \<le> PAGE_SIZE"
    "stream_left s a w = bs @ stream_left s a (after_message a w)" "bs = [] \<longrightarrow> stream_left s a w = []"
    "prefix (received_on a (klog (after_message a w))) s"
    "received_on a (klog (after_message a w)) = received_on a (klog w) @ bs"
    by (rule next_piece)
  have "stream_left s a w \<noteq> []"
    using assms(1,2,5) by (auto simp: stream_left_def slave_mapped_def prefix_def)
  then have "bs \<noteq> []" using bs(4) by blast
  then show ?thesis
    by (intro wp_mono [OF slave_mmap_round [OF assms(1) refl _ bs(1,2,5)]])
      (use assms(3,4) in \<open>auto simp: PAGE_SIZE_def\<close>)
qed

lemma slave_mmap_two_pieces:
  assumes "slave_connected e d a w" "calls_succeed e" "delivers e a s"
    and "\<And>h f. received_on a h = [] \<Longrightarrow> incoming e h (Sock_recvmsg a PAGE_SIZE f) = Inr bs"
    and "bs \<noteq> []" "length bs < PAGE_SIZE" "prefix bs s" "bs \<noteq> s"
  shows "wp (slave_mmap (int d)) (\<lambda>_ w'. slave_live d a w' \<and>
    (\<exists>m. file_data w' = bs @ replicate m (CHR 0x00) @ ''0'')) never w"
  unfolding slave_mmap_def wp_bind nat_int
proof (rule wp_mono [OF slave_map_ok [OF assms(1-3)]], goal_cases)
  case (1 r w1)
  then obtain v where r: "r = Some v" and v: "slave_at e s d a v 0 (True, 0, 0) w1" by blast
  then have w1: "slave_mapped s d a v w1" "received_on a (klog w1) = []" "file_data w1 = []" "env_of w1 = e"
    by (simp_all add: slave_at_def)
  then have "next_message a w1 = Inr bs" using assms(4) by (simp add: next_message_def)
  note first = slave_first_piece [OF w1(1-3) this assms(5-7)]
  show ?case
    unfolding r option.case wp_bind wp_doM
  proof (rule wp_mono [OF first], goal_cases)
    case (1 st w2)
    then obtain n where st: "st = (True, int (length bs), n)"
      and w2: "slave_mapped s d a v w2" "received_on a (klog w2) = file_data w2" "file_data w2 = bs"
      by (cases st) auto
    note second = slave_second_piece [OF w2(1,2), unfolded w2(3), OF assms(5,6,8)]
    have go: "case st of (go, offset, file_size) \<Rightarrow> go" by (simp add: st)
    show ?case
      unfolding whileM_step [of "\<lambda>(go, offset, file_size). go", OF go] wp_bind
      unfolding st
    proof (rule wp_mono [OF second], goal_cases)
      case (1 st' w3)
      then have stop: "\<not> (case st' of (go, offset, file_size) \<Rightarrow> go)" by (cases st') auto
      have "slave_live d a w3" using 1 by (auto simp: slave_mapped_def slave_live_def)
      with 1 show ?case
        unfolding whileM_stop [of "\<lambda>(go, offset, file_size). go", OF stop] wp_return
        by (cases st') (simp add: wp_return)
    qed simp
  qed simp
qed simp

text \<open>C37: The method with \<open>mmap\<close> relies on pieces of a page: if the first piece that the connection delivers is
  shorter than a page and not the whole stream, the program exits with 0 and its file is this
  piece followed by filler, whatever the rest of the stream is.\<close>
theorem slave_mmap_loses:
  assumes "network_ready s a w" "length name < 50" "length meth < 20" "meth \<noteq> []" "hd meth = CHR ''m''"
    and "\<And>h f. received_on a h = [] \<Longrightarrow> incoming (env_of w) h (Sock_recvmsg a 4096 f) = Inr bs"
    and "bs \<noteq> []" "length bs < 4096" "prefix bs s" "bs \<noteq> s"
  shows "\<exists>w' m. slave_main [prog, name, meth, dotted ip] w = Some (Halt (Exited 0), w') \<and>
    file_data w' = bs @ replicate m (CHR 0x00) @ ''0''"
proof -
  have ok: "calls_succeed (env_of w)" "delivers (env_of w) a s" using assms(1) by (simp_all add: network_ready_def)
  have "\<exists>w'. slave_main [prog, name, meth, dotted ip] w = Some (Halt (Exited 0), w') \<and>
      (\<exists>m. file_data w' = bs @ replicate m (CHR 0x00) @ ''0'')"
  proof (rule slave_main_run [OF assms(1-3)])
    fix d and w1 :: "'a slave_scheme"
    assume c: "slave_connected (env_of w) d a w1"
    have "slave_copying meth (int d) = (slave_mmap (int d) :: ('a slave_scheme, 64 word) prog)" using assms(4,5) by (simp add: slave_copying_def first_char_hd)
    with slave_mmap_two_pieces [OF c ok, of bs] assms(6-10)
    show "wp (slave_copying meth (int d)) (\<lambda>_ w'. slave_live d a w' \<and>
      (\<exists>m. file_data w' = bs @ replicate m (CHR 0x00) @ ''0'')) never w1"
      by (simp add: PAGE_SIZE_def)
  qed
  then show ?thesis by blast
qed

theorem slave_mmap_loses_sample:
  "\<exists>w' m. slave_main [''slave'', ''out'', ''mmap'', dotted 0x0100007F] (waiting_slave (crumb_env ''hello'')) =
     Some (Halt (Exited 0), w') \<and> file_data w' = ''h'' @ replicate m (CHR 0x00) @ ''0''"
  using slave_mmap_loses [of "''hello''" 8 "waiting_slave (crumb_env ''hello'')" "''out''" "''mmap''" "''h''" "''slave''" "0x0100007F"]
    crumb_env_delivers [of "''hello''" 8]
  by (simp add: network_ready_def sample_calls_succeed)

end
