(* ===== verification/Spec2Isabelle.thy ===== *)
theory Spec2Isabelle
  imports Clock Rr_Zero Child2 Input_Types Ksocket_Address Slave_Life Test_Md Master_Main Slave_Main
begin

text \<open>
  A verification library for the two projects of this repository.

  \<^bold>\<open>The programs.\<close> \<open>prj1\<close> is a set of user-space process schedulers. \<open>main.c\<close> reads the name of a policy
  and calls \<open>FIFO\<close>, \<open>SJF\<close>, \<open>PSJF\<close> or \<open>RR\<close>, each in a file of its own. A scheduler reads jobs (name, ready
  time, execution time) from standard input, makes a pipe for each, forks a child for a job when its
  ready time has come, and lets a child run by writing an amount of time to its pipe and raising its
  priority above its own; the child (\<open>child.c\<close>) reads the amount, spins for it, and lowers its priority
  again. When a job is done the scheduler waits for it, reads the clock by system call 315 and logs a line
  by system call 314 (\<open>printtime.h\<close> and the two files under \<open>linux-3.13.2/kernel\<close>). \<open>prj2\<close> transfers a file between two machines through two kernel
  modules: \<open>ksocket.c\<close> offers sockets to kernel code, \<open>master_device.c\<close> is a device whose writes and page
  go to a connection it has accepted, \<open>slave_device.c\<close> one whose reads and page are filled from a
  connection it has made, and \<open>master.c\<close> and \<open>slave.c\<close> copy a file to and from them by \<open>read\<close> and \<open>write\<close>
  or through \<open>mmap\<close>. \<open>test_md.c\<close> is a trial of the mapping.

  \<^bold>\<open>The language of the models.\<close> \<open>Prelude\<close> has the type \<open>prog\<close> of a C function (it may not return, return a
  value, or stop: \<open>exit\<close>, \<open>execl\<close>, or undefined behaviour, with its kind), sequencing, the loops \<open>whileM\<close>
  (a least fixed point, so that not returning is a value) and \<open>forM\<close>, checked \<open>int\<close> arithmetic, and the
  total-correctness predicate \<open>wp\<close> with the rules \<open>wp_rules\<close> by which the simplifier executes a model. A loop
  is proved to end by a measure (\<open>wp_whileM\<close>); there is no fuel. The one loop that may not end is that of the job
  process, which waits for its pipe. What every run keeps whether or not it ends
  is shown by the rules \<open>preserves_rules\<close>, one for each construct. \<open>C_Library\<close> models \<open>printf\<close>, \<open>scanf\<close>,
  \<open>atoi\<close> and \<open>qsort\<close> (its contract is the locale \<open>sorting\<close>).

  \<^bold>\<open>prj1.\<close>
  \<^item> \<open>Syscalls\<close>: the world of one process: its input, its system calls so far (the trace), and the operating
    system as a parameter; whether its input is a pipe that is still open, so that a read may block; \<open>os_ok\<close> is what the schedulers rely on (fresh descriptors, forks that succeed in
    the parent, clock values in range). The second part reads time, pipes and completions off a trace.
  \<^item> \<open>Print_Time\<close>, \<open>Child\<close>, \<open>Child2_Code\<close>: \<open>printtime.h\<close>, \<open>child.c\<close>, \<open>child2.c\<close>. \<open>Child_Props\<close> shows when a job
    process ends, when it waits for ever, and what time it takes, \<open>Child2\<close> that the two job processes agree.
  \<^item> \<open>Fifo_Code\<close>, \<open>Sjf_Code\<close>, \<open>Psjf_Code\<close>, \<open>Rr_Code\<close>: the four schedulers, function by function. A block of a
    \<open>main\<close> loop that the source has inline is a definition named after what it does; the file-level
    names are kept, with a prefix where two files use the same one.
  \<^item> \<open>Schedules\<close>: scheduling policies as checks of traces that know nothing of the code's data, what a
    finished workload is, the link from the text in a pipe to the run of \<open>child.c\<close> on it, and what the
    numbers of a printed line stand for: the fork of the job, the clock before its first slice and after
    the wait for its end. That every line has these is shown for each of the four schedulers.
  \<^item> \<open>Batch_Engine\<close>, \<open>Workload\<close>: the loop that \<open>fifo.c\<close> and \<open>sjf.c\<close> share, its invariant, and the input they
    read. \<open>Fifo\<close> and \<open>Sjf\<close> prove that every run obeys the policy, ends, and waits just for children that are
    about to exit; \<open>Psjf\<close> does so for shortest remaining time first, with 32-bit unsigned counters.
  \<^item> \<open>Rr_List\<close>: the circular list of \<open>rr.c\<close> on a heap of nodes implements a queue (locale \<open>ready_queue\<close>).
    \<open>Rr_Trace\<close> is an abstract round-robin monitor over traces, \<open>Rr\<close> shows that \<open>RR\<close> refines it and that no
    job starves; \<open>Rr_Zero\<close> is the case of a job without work, which the others exclude.
  \<^item> \<open>Input_Types\<close>: what \<open>readFile\<close> reads of an arbitrary input, and the size of a result line. \<open>Main_Prog\<close>:
    \<open>main.c\<close> over the four schedulers, each with its own policy, and \<open>p.c\<close>. \<open>Clock\<close>: every time that a scheduler
    records is one that the clock showed, so that on a clock that does not go back no line ends before it starts.
  \<^item> \<open>Samples\<close>: the process, operating system and workload at which the theorems are applied.

  \<^bold>\<open>prj2.\<close>
  \<^item> \<open>Kernel_World\<close>: one machine: sockets, pages, open device files, mapped areas, the address limit, one
    regular file, and the log of calls to code that is not in the repository. Results of such calls come from
    the parameter \<open>env\<close>, a function of the log. The static variables of a module extend the record.
  \<^item> \<open>Ksocket\<close>: all of \<open>ksocket.c\<close>. \<open>Ksocket_Props\<close>: address limit, accepting without leaks, closing once;
    \<open>Ksocket_Address\<close>: printing and reading of addresses.
  \<^item> \<open>Master_Device\<close>, \<open>Slave_Device\<close>: the handlers of the two modules. \<open>Frames\<close> has what each function leaves
    alone (locales \<open>frame\<close> and \<open>deep_frame\<close>, interpreted on five parts of the state); \<open>Device_Life\<close> and \<open>Slave_Life\<close>
    the states reachable by opening, mapping, faulting, requests and closing; \<open>Device_Requests\<close> the outcome
    of every request, errors included.
  \<^item> \<open>User_Calls\<close>, \<open>Master_Program\<close>, \<open>Slave_Program\<close>: the user programs on the system calls they use. A call on a
    device file goes through the table of handlers that the driver registers (\<open>master_fops\<close>, \<open>slave_fops\<close>), a page
    fault through that of the mapped area (\<open>simple_remap_vm_ops\<close>, \<open>slave_remap_vm_ops\<close>). \<open>Test_Md\<close>: \<open>test_md.c\<close>.
    \<open>Environment\<close> states when those succeed, \<open>Streams\<close> what a connection carries. \<open>Copying\<close> is the loop of both
    programs (locale \<open>copying\<close>); \<open>Master_Transfer\<close> and \<open>Slave_Transfer\<close> interpret it and treat a round of the loops with
    \<open>mmap\<close>; \<open>Master_Main\<close> and \<open>Slave_Main\<close> are whole runs, and this theory puts the two together.
  \<^item> \<open>Kernel_Samples\<close>, \<open>Device_Samples\<close>: concrete machines.

  \<^bold>\<open>Bounds.\<close> Workloads must fit the C types (\<open>fits\<close>): names shorter than the arrays they are read into, times that
  are not negative and whose sum is an \<open>int\<close>. For \<open>RR\<close> execution times are positive. Files are shorter than \<open>2^63\<close> bytes on the
  sending side, and than \<open>2^31\<close> less a page on the receiving side with \<open>mmap\<close>, where the offset is an \<open>int\<close>.

  \<^bold>\<open>Not modelled.\<close> The tables and headers of the kernel that the two system calls are entered in, build files,
  reports and data have no program logic. \<open>DebugPrint\<close> and \<open>sxg_debug\<close> expand to nothing. The time that \<open>master.c\<close> and \<open>slave.c\<close>
  measure is left out of what they print. Memory for the arrays of the schedulers is always there; the job processes
  have both their arguments; the input of a scheduler is a text that ends. Unmapping at the exit of a program
  is left out. The priorities set by \<open>sched_setscheduler\<close> are events of the trace;
  that the kernel runs the process of highest priority is what turns an amount written to a pipe into
  time that passes (\<open>elapsed\<close>). Two processes that use one device at the same time are not modelled, except that the
  steps of \<open>Device_Life\<close> may come in any order and on any file.
\<close>

section \<open>The two programs of prj2 together\<close>

text \<open>C1: A file sent by \<open>master.c\<close> and received by \<open>slave.c\<close>, on two machines whose system calls succeed. The sender
  accepts a connection, hands the file to it (with \<open>read\<close> and \<open>write\<close>; or with \<open>mmap\<close> if it is not empty) and exits
  with 0. Whenever the receiver's connection delivers what the sender handed over, the receiver exits with 0
  and its file is the sender's: with \<open>read\<close> and \<open>write\<close> however the stream is cut into pieces; with \<open>mmap\<close> if
  every piece is a whole page or the last one, and the file is shorter than \<open>2^31\<close> by a page.\<close>
theorem file_transfer:
  assumes "server_ready s m" "length source < 50" "length meth < 20" "method_ok meth (file_data m)"
    and "length dest < 50" "length meth' < 20" "meth' \<noteq> []"
    and "hd meth' = CHR ''f'' \<or> hd meth' = CHR ''m'' \<and> length (file_data m) + 4096 < 2 ^ 31"
  shows "\<exists>m' a. master_main [prog, source, meth] m = Some (Halt (Exited 0), m') \<and>
    handed_over s (file_data m) m m' a \<and>
    (\<forall>w b. network_ready (sent_on a (drop (length (klog m)) (klog m'))) b w \<and>
        (hd meth' = CHR ''m'' \<longrightarrow> delivers_pages (env_of w) b (file_data m)) \<longrightarrow>
      (\<exists>w'. slave_main [prog', dest, meth', dotted ip] w = Some (Halt (Exited 0), w') \<and>
        file_data w' = file_data m))"
proof -
  obtain m' a where run: "master_main [prog, source, meth] m = Some (Halt (Exited 0), m')"
    and over: "handed_over s (file_data m) m m' a"
    using master_main_run [OF assms(1-4), of prog] by blast
  have sent: "sent_on a (drop (length (klog m)) (klog m')) = file_data m" using over by (simp add: handed_over_def)
  show ?thesis using run over sent
    using slave_main_result [OF _ assms(5-8), of b w prog' ip for b w]
    by (intro exI [of _ m'] exI [of _ a]) (fastforce simp: slave_result_def)
qed

theorem file_transfer_sample:
  "\<exists>w'. slave_main [''slave'', ''out'', ''mmap'', dotted 0x0100007F] (waiting_slave (stream_env ''hello'')) =
     Some (Halt (Exited 0), w') \<and> file_data w' = ''hello''"
proof -
  let ?m = "listening_master ''hello''" and ?w = "waiting_slave (stream_env ''hello'')"
  have args: "length ''in'' < 50" "length ''fcntl'' < 20" "method_ok ''fcntl'' (file_data ?m)" "length ''out'' < 50"
    "length ''mmap'' < 20" "''mmap'' \<noteq> []"
    "hd ''mmap'' = CHR ''f'' \<or> hd ''mmap'' = CHR ''m'' \<and> length (file_data ?m) + 4096 < 2 ^ 31"
    by (simp_all add: method_ok_def)
  have net: "network_ready ''hello'' 8 ?w" "delivers_pages (env_of ?w) 8 ''hello''"
    by (simp_all add: network_ready_def sample_calls_succeed stream_env_delivers stream_env_pages)
  from file_transfer [where 'b = unit, OF listening_server args, of "''master''" "''slave''" "0x0100007F"]
  show ?thesis
  proof (elim exE conjE, goal_cases)
    case (1 m' a)
    from 1(3) [rule_format, of 8 ?w] show ?case using 1(2) net by (simp add: handed_over_def)
  qed
qed

end
